(* ===== verification/Prelude.thy ===== *)
theory Prelude
  imports Main "HOL-Library.Word"
begin

text \<open>
  Shared base of the development: the widths of the C integer types, the
  outcome type of a kernel routine and the little monad that threads the kernel
  state through calls, a weakest-precondition reading of it, little-endian
  encoding of integers as bytes, and the named collections of simplification
  rules that the component theories extend.
\<close>

unbundle bit_operations_syntax

named_theorems kmonad \<open>equations of the kernel monad\<close>
named_theorems wp_rules \<open>weakest-precondition equations\<close>

section \<open>C integer types\<close>

text \<open>The type definitions of \<open>kernel/types.h\<close>; \<open>char\<close> and \<open>uchar\<close> are both bytes.\<close>

type_synonym u8 = "8 word"
type_synonym u16 = "16 word"
type_synonym u32 = "32 word"
type_synonym u64 = "64 word"

lemma uint_inj [simp]: "uint (a :: 'a::len word) = uint b \<longleftrightarrow> a = b"
  by (simp add: word_uint_eq_iff)

lemma unat_inj [simp]: "unat (a :: 'a::len word) = unat b \<longleftrightarrow> a = b"
  by (simp add: word_unat_eq_iff)

lemma unat_ucast_32_64 [simp]: "unat (ucast (n :: u32) :: u64) = unat n"
  using unsigned_less [of n, where 'a = nat]
  by (simp add: unsigned_ucast_eq take_bit_nat_eq_self)

lemma unat_u32_less: "unat (n :: u32) < 4294967296"
  using unsigned_less [of n, where 'a = nat] by simp

lemma unat_u64_less: "unat (n :: u64) < 18446744073709551616"
  using unsigned_less [of n, where 'a = nat] by simp

section \<open>Outcomes of a kernel routine\<close>

text \<open>
  A routine that runs on a hart in some kernel state either returns a value in
  a new state, calls \<open>panic\<close>, or spins for ever (on a lock that another hart
  holds, or in a loop that ran out of its rounds). Or it gives up the hart in
  \<open>swtch\<close>: \<open>Swtch s k\<close> says that control left the kernel thread in state \<open>s\<close>, and
  that the thread goes on with \<open>k t\<close> when it is switched to again in a state \<open>t\<close>.
\<close>

datatype ('a, 's) kout =
    Ok 'a 's
  | Panic string
  | Spin
  | Swtch 's "'s \<Rightarrow> ('a, 's) kout"

type_synonym ('a, 's) km = "'s \<Rightarrow> ('a, 's) kout"

abbreviation kret :: "'a \<Rightarrow> ('a, 's) km" where
  "kret \<equiv> Ok"

definition kpanic :: "string \<Rightarrow> ('a, 's) km" where
  "kpanic msg s = Panic msg"

definition kget :: "('s \<Rightarrow> 'a) \<Rightarrow> ('a, 's) km" where
  "kget f s = Ok (f s) s"

definition kmod :: "('s \<Rightarrow> 's) \<Rightarrow> (unit, 's) km" where
  "kmod f s = Ok () (f s)"

primrec kbindo :: "('a, 's) kout \<Rightarrow> ('a \<Rightarrow> 's \<Rightarrow> ('b, 's) kout) \<Rightarrow> ('b, 's) kout" where
  "kbindo (Ok a t) f = f a t"
| "kbindo (Panic msg) f = Panic msg"
| "kbindo Spin f = Spin"
| "kbindo (Swtch t k) f = Swtch t (\<lambda>u. kbindo (k u) f)"

definition kbind :: "('a, 's) km \<Rightarrow> ('a \<Rightarrow> ('b, 's) km) \<Rightarrow> ('b, 's) km" where
  "kbind m f s = kbindo (m s) f"

text \<open>Sequencing of two statements, the first one without a result.\<close>

abbreviation kthen :: "(unit, 's) km \<Rightarrow> ('b, 's) km \<Rightarrow> ('b, 's) km" where
  "kthen m k \<equiv> kbind m (\<lambda>_. k)"

definition kwhen :: "bool \<Rightarrow> (unit, 's) km \<Rightarrow> (unit, 's) km" where
  "kwhen b m = (if b then m else kret ())"

text \<open>A counted loop whose body may not leave it early.\<close>

primrec kfor :: "'i list \<Rightarrow> ('i \<Rightarrow> (unit, 's) km) \<Rightarrow> (unit, 's) km" where
  "kfor [] body = kret ()"
| "kfor (i # is) body = kthen (body i) (kfor is body)"

lemma kpanic_apply [simp, kmonad]: "kpanic msg s = Panic msg"
  by (simp add: kpanic_def)

lemma kget_apply [simp, kmonad]: "kget f s = Ok (f s) s"
  by (simp add: kget_def)

lemma kmod_apply [simp, kmonad]: "kmod f s = Ok () (f s)"
  by (simp add: kmod_def)

lemma kbind_Ok [simp]: "m s = Ok a t \<Longrightarrow> kbind m f s = f a t"
  by (simp add: kbind_def)

lemma kbind_Panic [simp]: "m s = Panic e \<Longrightarrow> kbind m f s = Panic e"
  by (simp add: kbind_def)

lemma kbind_Spin [simp]: "m s = Spin \<Longrightarrow> kbind m f s = Spin"
  by (simp add: kbind_def)

lemma kbind_Swtch [simp]: "m s = Swtch t k \<Longrightarrow> kbind m f s = Swtch t (kbind k f)"
  by (simp add: kbind_def fun_eq_iff)

lemma kbind_kret [simp, kmonad]: "kbind (kret a) f = f a"
  by (simp add: fun_eq_iff)

lemma kbind_kget [simp, kmonad]: "kbind (kget g) f s = f (g s) s"
  by simp

lemma kbind_kmod [simp, kmonad]: "kbind (kmod g) f s = f () (g s)"
  by simp

lemma kbind_kpanic [simp, kmonad]: "kbind (kpanic e) f = kpanic e"
  by (simp add: fun_eq_iff)

lemma kbindo_assoc: "kbindo (kbindo x f) g = kbindo x (\<lambda>a t. kbindo (f a t) g)"
  by (induction x) simp_all

lemma kbind_assoc [kmonad]: "kbind (kbind m f) g = kbind m (\<lambda>a. kbind (f a) g)"
  by (simp add: kbind_def [abs_def] kbindo_assoc)

lemma kwhen_simps [simp, kmonad]: "kwhen True m = m" "kwhen False m = kret ()"
  by (simp_all add: kwhen_def)

lemma kbind_eq_Ok:
  "kbind m f s = Ok b u \<longleftrightarrow> (\<exists>a t. m s = Ok a t \<and> f a t = Ok b u)"
  by (cases "m s") (auto simp: kbind_def)

text \<open>
  A loop of the source. Its body gets the loop variables and answers either their
  next values or, on \<open>break\<close> or \<open>return\<close>, a result; the first argument bounds the
  number of rounds.
\<close>

primrec kloop :: "nat \<Rightarrow> ('i \<Rightarrow> ('i + 'r, 's) km) \<Rightarrow> 'i \<Rightarrow> ('r, 's) km" where
  "kloop 0 body i = (\<lambda>s. Spin)"
| "kloop (Suc n) body i =
     kbind (body i) (\<lambda>x. case x of Inl j \<Rightarrow> kloop n body j | Inr r \<Rightarrow> kret r)"

text \<open>A scan over indexes that a body may leave with a result.\<close>

primrec kscan :: "'i list \<Rightarrow> ('i \<Rightarrow> ('r option, 's) km) \<Rightarrow> ('r option, 's) km" where
  "kscan [] body = kret None"
| "kscan (i # is) body =
     kbind (body i) (\<lambda>x. case x of None \<Rightarrow> kscan is body | Some r \<Rightarrow> kret (Some r))"

lemma kbind_OkE:
  assumes "kbind m f s = Ok b u"
  obtains a t where "m s = Ok a t" and "f a t = Ok b u"
  using assms by (auto simp: kbind_eq_Ok)

lemma kthen_OkE:
  assumes "kthen m k s = Ok b u"
  obtains t where "m s = Ok () t" and "k t = Ok b u"
  using assms by (auto simp: kbind_eq_Ok)

section \<open>Weakest preconditions\<close>

text \<open>
  \<open>wp m Q s\<close>: run from \<open>s\<close>, routine \<open>m\<close> returns, and \<open>Q\<close> holds of the value and
  the final state. \<open>wlp\<close> is the partial variant: nothing is said of a run that
  panics, spins or is switched out.
\<close>

definition wp :: "('a, 's) km \<Rightarrow> ('a \<Rightarrow> 's \<Rightarrow> bool) \<Rightarrow> 's \<Rightarrow> bool" where
  "wp m Q s = (case m s of Ok a t \<Rightarrow> Q a t | _ \<Rightarrow> False)"

definition wlp :: "('a, 's) km \<Rightarrow> ('a \<Rightarrow> 's \<Rightarrow> bool) \<Rightarrow> 's \<Rightarrow> bool" where
  "wlp m Q s = (case m s of Ok a t \<Rightarrow> Q a t | _ \<Rightarrow> True)"

lemma wp_iff: "wp m Q s \<longleftrightarrow> (\<exists>a t. m s = Ok a t \<and> Q a t)"
  by (cases "m s") (simp_all add: wp_def)

lemma wlp_iff: "wlp m Q s \<longleftrightarrow> (\<forall>a t. m s = Ok a t \<longrightarrow> Q a t)"
  by (cases "m s") (simp_all add: wlp_def)

lemma wp_bind [wp_rules]: "wp (kbind m f) Q s = wp m (\<lambda>a. wp (f a) Q) s"
  by (cases "m s") (simp_all add: wp_def)

lemma wp_ret [wp_rules]: "wp (kret a) Q s = Q a s"
  by (simp add: wp_def)

lemma wp_get [wp_rules]: "wp (kget f) Q s = Q (f s) s"
  by (simp add: wp_def)

lemma wp_mod [wp_rules]: "wp (kmod f) Q s = Q () (f s)"
  by (simp add: wp_def)

lemma wp_panic [wp_rules]: "wp (kpanic e) Q s = False"
  by (simp add: wp_def)

lemma wlp_bind [wp_rules]: "wlp (kbind m f) Q s = wlp m (\<lambda>a. wlp (f a) Q) s"
  by (cases "m s") (simp_all add: wlp_def)

lemma wlp_ret [wp_rules]: "wlp (kret a) Q s = Q a s"
  by (simp add: wlp_def)

lemma wlp_get [wp_rules]: "wlp (kget f) Q s = Q (f s) s"
  by (simp add: wlp_def)

lemma wlp_mod [wp_rules]: "wlp (kmod f) Q s = Q () (f s)"
  by (simp add: wlp_def)

lemma wlp_panic [wp_rules]: "wlp (kpanic e) Q s = True"
  by (simp add: wlp_def)

lemma wp_conseq: "wp m Q s \<Longrightarrow> (\<And>a t. Q a t \<Longrightarrow> R a t) \<Longrightarrow> wp m R s"
  by (auto simp: wp_iff)

lemma wlp_conseq: "wlp m Q s \<Longrightarrow> (\<And>a t. Q a t \<Longrightarrow> R a t) \<Longrightarrow> wlp m R s"
  by (auto simp: wlp_iff)

lemma kfor_wp:
  assumes "I is s"
    and "\<And>i is' s. I (i # is') s \<Longrightarrow> wp (body i) (\<lambda>_. I is') s"
  shows "wp (kfor is body) (\<lambda>_. I []) s"
  using assms(1)
proof (induction "is" arbitrary: s)
  case Nil
  then show ?case by (simp add: wp_ret)
next
  case (Cons i "is")
  from assms(2) [OF Cons.prems] have "wp (body i) (\<lambda>_. I is) s" .
  then show ?case
    by (simp add: wp_bind) (rule wp_conseq, assumption, rule Cons.IH)
qed

lemma kfor_wlp:
  assumes "I is s"
    and "\<And>i is' s. I (i # is') s \<Longrightarrow> wlp (body i) (\<lambda>_. I is') s"
  shows "wlp (kfor is body) (\<lambda>_. I []) s"
  using assms(1)
proof (induction "is" arbitrary: s)
  case Nil
  then show ?case by (simp add: wlp_ret)
next
  case (Cons i "is")
  from assms(2) [OF Cons.prems] have "wlp (body i) (\<lambda>_. I is) s" .
  then show ?case
    by (simp add: wlp_bind) (rule wlp_conseq, assumption, rule Cons.IH)
qed

lemma kloop_wp:
  assumes "I i s" and "m i < n"
    and "\<And>i s. I i s \<Longrightarrow>
      wp (body i) (\<lambda>x t. case x of Inl j \<Rightarrow> I j t \<and> m j < (m i :: nat) | Inr r \<Rightarrow> Q r t) s"
  shows "wp (kloop n body i) Q s"
  using assms(1,2)
proof (induction n arbitrary: i s)
  case 0
  then show ?case by simp
next
  case (Suc n)
  have "wp (body i) (\<lambda>x t. wp (case x of Inl j \<Rightarrow> kloop n body j | Inr r \<Rightarrow> kret r) Q t) s"
    using assms(3) [OF Suc.prems(1)]
    by (rule wp_conseq) (use Suc in \<open>auto simp: wp_ret split: sum.splits\<close>)
  then show ?case by (simp add: wp_bind)
qed

lemma kloop_wlp:
  assumes "I i s"
    and "\<And>i s. I i s \<Longrightarrow>
      wlp (body i) (\<lambda>x t. case x of Inl j \<Rightarrow> I j t | Inr r \<Rightarrow> Q r t) s"
  shows "wlp (kloop n body i) Q s"
  using assms(1)
proof (induction n arbitrary: i s)
  case 0
  then show ?case by (simp add: wlp_iff)
next
  case (Suc n)
  have "wlp (body i) (\<lambda>x t. wlp (case x of Inl j \<Rightarrow> kloop n body j | Inr r \<Rightarrow> kret r) Q t) s"
    using assms(2) [OF Suc.prems(1)]
    by (rule wlp_conseq) (use Suc in \<open>auto simp: wlp_ret split: sum.splits\<close>)
  then show ?case by (simp add: wlp_bind)
qed

named_theorems wlp_intros \<open>introduction rules for partial correctness\<close>

lemma wlp_bindI [wlp_intros]: "wlp m (\<lambda>a. wlp (f a) Q) s \<Longrightarrow> wlp (kbind m f) Q s"
  by (simp add: wlp_bind)

lemma wlp_retI [wlp_intros]: "Q a s \<Longrightarrow> wlp (kret a) Q s"
  by (simp add: wlp_ret)

lemma wlp_getI [wlp_intros]: "Q (f s) s \<Longrightarrow> wlp (kget f) Q s"
  by (simp add: wlp_get)

lemma wlp_modI [wlp_intros]: "Q () (f s) \<Longrightarrow> wlp (kmod f) Q s"
  by (simp add: wlp_mod)

lemma wlp_ifI [wlp_intros]:
  "(b \<Longrightarrow> wlp m Q s) \<Longrightarrow> (\<not> b \<Longrightarrow> wlp n Q s) \<Longrightarrow> wlp (if b then m else n) Q s"
  by simp

section \<open>Parts of the state a routine leaves alone\<close>

text \<open>\<open>keeps f m\<close>: whenever \<open>m\<close> returns, the observation \<open>f\<close> of the state is unchanged.\<close>

definition keeps :: "('s \<Rightarrow> 'v) \<Rightarrow> ('a, 's) km \<Rightarrow> bool" where
  "keeps f m \<longleftrightarrow> (\<forall>s a t. m s = Ok a t \<longrightarrow> f t = f s)"

named_theorems keeps_rules \<open>rules for keeps\<close>

lemma keepsD: "keeps f m \<Longrightarrow> m s = Ok a t \<Longrightarrow> f t = f s"
  by (simp add: keeps_def)

lemma wlp_keeps: "keeps f m \<Longrightarrow> (\<And>a t. f t = f s \<Longrightarrow> Q a t) \<Longrightarrow> wlp m Q s"
  by (simp add: keeps_def wlp_iff)

lemma keeps_ret [keeps_rules]: "keeps f (kret a)"
  by (simp add: keeps_def)

lemma keeps_get [keeps_rules]: "keeps f (kget g)"
  by (simp add: keeps_def)

lemma keeps_panic [keeps_rules]: "keeps f (kpanic e)"
  by (simp add: keeps_def)

lemma keeps_Panic [keeps_rules]: "keeps f (\<lambda>s. Panic e)"
  by (simp add: keeps_def)

lemma keeps_Spin [keeps_rules]: "keeps f (\<lambda>s. Spin)"
  by (simp add: keeps_def)

lemma keeps_mod [keeps_rules]: "(\<And>s. f (g s) = f s) \<Longrightarrow> keeps f (kmod g)"
  by (simp add: keeps_def)

lemma keeps_bind [keeps_rules]:
  "keeps f m \<Longrightarrow> (\<And>a. keeps f (k a)) \<Longrightarrow> keeps f (kbind m k)"
  by (fastforce simp: keeps_def kbind_eq_Ok)

lemma keeps_if [keeps_rules]:
  "(b \<Longrightarrow> keeps f m) \<Longrightarrow> (\<not> b \<Longrightarrow> keeps f n) \<Longrightarrow> keeps f (if b then m else n)"
  by simp

lemma keeps_when [keeps_rules]: "keeps f m \<Longrightarrow> keeps f (kwhen b m)"
  by (cases b) (simp_all add: keeps_ret)

lemma keeps_case_option [keeps_rules]:
  "keeps f m \<Longrightarrow> (\<And>x. keeps f (n x)) \<Longrightarrow> keeps f (case y of None \<Rightarrow> m | Some x \<Rightarrow> n x)"
  by (cases y) simp_all

lemma keeps_case_sum [keeps_rules]:
  "(\<And>x. keeps f (m x)) \<Longrightarrow> (\<And>x. keeps f (n x)) \<Longrightarrow>
   keeps f (case y of Inl x \<Rightarrow> m x | Inr x \<Rightarrow> n x)"
  by (cases y) simp_all

lemma keeps_case_prod [keeps_rules]:
  "(\<And>x y. keeps f (m x y)) \<Longrightarrow> keeps f (case z of (x, y) \<Rightarrow> m x y)"
  by (cases z) simp_all

lemma keeps_for [keeps_rules]: "(\<And>i. keeps f (body i)) \<Longrightarrow> keeps f (kfor is body)"
  by (induction "is") (auto intro!: keeps_rules)

lemma keeps_scan [keeps_rules]: "(\<And>i. keeps f (body i)) \<Longrightarrow> keeps f (kscan is body)"
  by (induction "is") (auto intro!: keeps_rules)

lemma keeps_loop [keeps_rules]: "(\<And>i. keeps f (body i)) \<Longrightarrow> keeps f (kloop n body i)"
  by (induction n arbitrary: i) (auto intro!: keeps_rules)

lemma keeps_if_state [keeps_rules]:
  "keeps f m \<Longrightarrow> keeps f n \<Longrightarrow> keeps f (\<lambda>s. if b s then m s else n s)"
  by (simp add: keeps_def)

lemma keeps_state: "(\<And>u. keeps f (m u)) \<Longrightarrow> keeps f (\<lambda>s. m s s)"
  by (simp add: keeps_def)

section \<open>Little-endian integers\<close>

text \<open>
  RISC-V stores integers least significant byte first. \<open>le_split n v\<close> are the
  \<open>n\<close> low bytes of \<open>v\<close>, \<open>le_join\<close> reads them back.
\<close>

definition le_split :: "nat \<Rightarrow> 'a::len word \<Rightarrow> u8 list" where
  "le_split n v = map (\<lambda>i. ucast (drop_bit (8 * i) v)) [0..<n]"

fun le_join :: "u8 list \<Rightarrow> 'a::len word" where
  "le_join [] = 0"
| "le_join (b # bs) = ucast b OR push_bit 8 (le_join bs)"

lemma length_le_split [simp]: "length (le_split n v) = n"
  by (simp add: le_split_def)

lemma nth_le_split: "i < n \<Longrightarrow> le_split n v ! i = ucast (drop_bit (8 * i) v)"
  by (simp add: le_split_def)

lemma bit_le_join:
  "bit (le_join bs :: 'a::len word) k \<longleftrightarrow>
     k < LENGTH('a) \<and> k div 8 < length bs \<and> bit (bs ! (k div 8)) (k mod 8)"
proof (induction bs arbitrary: k)
  case Nil
  then show ?case by simp
next
  case (Cons b bs)
  show ?case
  proof (cases "k < 8")
    case True
    then show ?thesis
      by (auto simp: bit_simps)
  next
    case False
    then have "k div 8 = Suc ((k - 8) div 8)" and "k mod 8 = (k - 8) mod 8"
      by (simp_all add: le_div_geq le_mod_geq)
    moreover have "\<not> bit b k"
      using False bit_imp_le_length [of b k] by auto
    ultimately show ?thesis
      using False Cons.IH [of "k - 8"] by (auto simp: bit_simps)
  qed
qed

lemma le_join_split:
  fixes v :: "'a::len word"
  assumes "LENGTH('a) \<le> 8 * n"
  shows "le_join (le_split n v) = v"
proof (rule bit_word_eqI)
  fix k
  assume k: "k < LENGTH('a)"
  with assms have "k div 8 < n" by simp
  moreover have "8 * (k div 8) + k mod 8 = k" by simp
  ultimately show "bit (le_join (le_split n v) :: 'a word) k = bit v k"
    using k by (simp add: bit_le_join nth_le_split bit_simps)
qed

section \<open>Traces of a labelled step relation\<close>

inductive trace :: "('s \<Rightarrow> 'e \<Rightarrow> 's \<Rightarrow> bool) \<Rightarrow> 's \<Rightarrow> 'e list \<Rightarrow> 's \<Rightarrow> bool"
  for step where
  trace_nil: "trace step s [] s"
| trace_snoc: "trace step s es t \<Longrightarrow> step t e u \<Longrightarrow> trace step s (es @ [e]) u"

lemma trace_invariant:
  assumes "trace step s es t" and "I s" and "\<And>s e t. I s \<Longrightarrow> step s e t \<Longrightarrow> I t"
  shows "I t"
  using assms by (induction rule: trace.induct) auto

section \<open>Lifting a routine to a part of the state\<close>

text \<open>
  A routine on one part of the state, run on a bigger state through a getter and
  a setter of that part.
\<close>

primrec klifto :: "('t \<Rightarrow> 's) \<Rightarrow> ('s \<Rightarrow> 't \<Rightarrow> 't) \<Rightarrow> ('a, 's) kout \<Rightarrow> 't \<Rightarrow> ('a, 't) kout" where
  "klifto get put (Ok a u) s = Ok a (put u s)"
| "klifto get put (Panic msg) s = Panic msg"
| "klifto get put Spin s = Spin"
| "klifto get put (Swtch u k) s = Swtch (put u s) (\<lambda>t. klifto get put (k (get t)) t)"

definition klift :: "('t \<Rightarrow> 's) \<Rightarrow> ('s \<Rightarrow> 't \<Rightarrow> 't) \<Rightarrow> ('a, 's) km \<Rightarrow> ('a, 't) km" where
  "klift get put m s = klifto get put (m (get s)) s"

lemma klift_Ok [simp]: "m (get s) = Ok a u \<Longrightarrow> klift get put m s = Ok a (put u s)"
  by (simp add: klift_def)

lemma klift_Panic [simp]: "m (get s) = Panic e \<Longrightarrow> klift get put m s = Panic e"
  by (simp add: klift_def)

lemma klift_eq_Ok:
  "klift get put m s = Ok a t \<longleftrightarrow> (\<exists>u. m (get s) = Ok a u \<and> t = put u s)"
  by (cases "m (get s)") (auto simp: klift_def)

end
