(* ===== verification/KString.thy ===== *)
theory KString
  imports Prelude
begin

text \<open>
  The routines of \<open>kernel/string.c\<close>. Routines that write through a pointer into
  kernel memory (\<open>memset\<close>, \<open>memmove\<close>, \<open>memcpy\<close>) work on a byte-addressed physical
  memory. Routines that only read, or that fill a local array, take a C pointer
  as the function from offsets to bytes and return the bytes they write.
\<close>

section \<open>Physical memory\<close>

type_synonym pmem = "u64 \<Rightarrow> u8"

type_synonym cptr = "nat \<Rightarrow> u8"

definition ptr_at :: "pmem \<Rightarrow> u64 \<Rightarrow> cptr" where
  "ptr_at m a i = m (a + of_nat i)"

definition read_bytes :: "pmem \<Rightarrow> u64 \<Rightarrow> nat \<Rightarrow> u8 list" where
  "read_bytes m a n = map (\<lambda>i. m (a + of_nat i)) [0..<n]"

definition write_bytes :: "u64 \<Rightarrow> u8 list \<Rightarrow> pmem \<Rightarrow> pmem" where
  "write_bytes a bs m =
     (\<lambda>x. if unat (x - a) < length bs then bs ! unat (x - a) else m x)"

definition read64 :: "pmem \<Rightarrow> u64 \<Rightarrow> u64" where
  "read64 m a = le_join (read_bytes m a 8)"

definition write64 :: "u64 \<Rightarrow> u64 \<Rightarrow> pmem \<Rightarrow> pmem" where
  "write64 a v = write_bytes a (le_split 8 v)"

lemma length_read_bytes [simp]: "length (read_bytes m a n) = n"
  by (simp add: read_bytes_def)

lemma nth_read_bytes [simp]: "i < n \<Longrightarrow> read_bytes m a n ! i = m (a + of_nat i)"
  by (simp add: read_bytes_def)

lemma unat_add_diff:
  fixes a :: u64
  assumes "i < 2 ^ 64"
  shows "unat (a + of_nat i - a) = i"
  using assms by (simp add: unat_of_nat)

lemma read_write_bytes:
  assumes "length bs \<le> 2 ^ 64"
  shows "read_bytes (write_bytes a bs m) a (length bs) = bs"
proof (rule nth_equalityI)
  fix i
  assume "i < length (read_bytes (write_bytes a bs m) a (length bs))"
  then have "i < length bs" by simp
  moreover from this assms have "unat (a + of_nat i - a) = i"
    by (intro unat_add_diff) simp
  ultimately show "read_bytes (write_bytes a bs m) a (length bs) ! i = bs ! i"
    by (simp add: write_bytes_def)
qed simp

lemma read_write_bytes_disjoint:
  assumes "\<And>i. i < n \<Longrightarrow> length bs \<le> unat (b + of_nat i - a)"
  shows "read_bytes (write_bytes a bs m) b n = read_bytes m b n"
proof -
  have "\<not> unat (b + of_nat i - a) < length bs" if "i < n" for i
    using assms [OF that] by simp
  then show ?thesis
    by (auto simp: read_bytes_def write_bytes_def)
qed

lemma read64_write64 [simp]: "read64 (write64 a v m) a = v"
  using read_write_bytes [of "le_split 8 v" a m]
  by (simp add: read64_def write64_def le_join_split)

lemma write_bytes_Nil [simp]: "write_bytes a [] m = m"
  by (simp add: write_bytes_def)

section \<open>memset\<close>

function memset_from :: "u64 \<Rightarrow> u8 \<Rightarrow> nat \<Rightarrow> nat \<Rightarrow> pmem \<Rightarrow> pmem" where
  "memset_from cdst c n i m =
     (if i < n then memset_from cdst c n (Suc i) (m(cdst + of_nat i := c)) else m)"
  by pat_completeness auto
termination
  by (relation "measure (\<lambda>(cdst, c, n, i, m). n - i)") auto

declare memset_from.simps [simp del]

definition memset :: "u64 \<Rightarrow> u8 \<Rightarrow> u32 \<Rightarrow> pmem \<Rightarrow> pmem" where
  "memset dst c n m = memset_from dst c (unat n) 0 m"

lemma memset_from_eq:
  "i \<le> n \<Longrightarrow> n < 2 ^ 64 \<Longrightarrow>
   memset_from dst c n i m = (\<lambda>x. if i \<le> unat (x - dst) \<and> unat (x - dst) < n then c else m x)"
proof (induction dst c n i m rule: memset_from.induct)
  case (1 dst c n i m)
  show ?case
  proof (cases "i < n")
    case True
    have at: "x = dst + of_nat i \<longleftrightarrow> unat (x - dst) = i" for x
    proof
      assume "unat (x - dst) = i"
      then have "x - dst = of_nat i"
        using True "1.prems" by (simp add: word_unat_eq_iff unat_of_nat)
      then show "x = dst + of_nat i" by (simp add: algebra_simps)
    next
      assume "x = dst + of_nat i"
      then show "unat (x - dst) = i"
        using True "1.prems" unat_add_diff [of i dst] by simp
    qed
    have "memset_from dst c n i m = memset_from dst c n (Suc i) (m(dst + of_nat i := c))"
      using True by (simp add: memset_from.simps [of dst c n i m])
    also have "\<dots> = (\<lambda>x. if Suc i \<le> unat (x - dst) \<and> unat (x - dst) < n then c
                       else (m(dst + of_nat i := c)) x)"
      using "1.IH" [OF True] True "1.prems" by (simp add: fun_upd_def)
    also have "\<dots> = (\<lambda>x. if i \<le> unat (x - dst) \<and> unat (x - dst) < n then c else m x)"
    proof
      fix x
      show "(if Suc i \<le> unat (x - dst) \<and> unat (x - dst) < n then c
              else (m(dst + of_nat i := c)) x) =
            (if i \<le> unat (x - dst) \<and> unat (x - dst) < n then c else m x)"
        using True at [of x] by (cases "unat (x - dst) = i") (auto simp: fun_upd_apply)
    qed
    finally show ?thesis .
  next
    case False
    with "1.prems" show ?thesis
      by (subst memset_from.simps) (auto simp: fun_eq_iff)
  qed
qed

lemma memset_eq [code]:
  "memset dst c n m = (\<lambda>x. if x - dst < ucast n then c else m x)"
  using unat_u32_less [of n] by (simp add: memset_def memset_from_eq word_less_nat_alt)

section \<open>memcmp\<close>

text \<open>The result is the difference of the first two bytes that differ.\<close>

fun memcmp :: "cptr \<Rightarrow> cptr \<Rightarrow> nat \<Rightarrow> int" where
  "memcmp s1 s2 0 = 0"
| "memcmp s1 s2 (Suc n) =
     (if s1 0 \<noteq> s2 0 then uint (s1 0) - uint (s2 0)
      else memcmp (\<lambda>i. s1 (Suc i)) (\<lambda>i. s2 (Suc i)) n)"

lemma memcmp_zero_iff: "memcmp s1 s2 n = 0 \<longleftrightarrow> (\<forall>i < n. s1 i = s2 i)"
  by (induction s1 s2 n rule: memcmp.induct) (auto simp: All_less_Suc2)

section \<open>memmove and memcpy\<close>

fun copy_fwd :: "nat \<Rightarrow> u64 \<Rightarrow> u64 \<Rightarrow> pmem \<Rightarrow> pmem" where
  "copy_fwd 0 d s m = m"
| "copy_fwd (Suc n) d s m = copy_fwd n (d + 1) (s + 1) (m(d := m s))"

fun copy_bwd :: "nat \<Rightarrow> u64 \<Rightarrow> u64 \<Rightarrow> pmem \<Rightarrow> pmem" where
  "copy_bwd 0 d s m = m"
| "copy_bwd (Suc n) d s m = copy_bwd n (d - 1) (s - 1) (m(d - 1 := m (s - 1)))"

definition memmove :: "u64 \<Rightarrow> u64 \<Rightarrow> u32 \<Rightarrow> pmem \<Rightarrow> pmem" where
  "memmove dst src n m =
     (if n = 0 then m
      else if src < dst \<and> src + ucast n > dst
      then copy_bwd (unat n) (dst + ucast n) (src + ucast n) m
      else copy_fwd (unat n) dst src m)"

definition memcpy :: "u64 \<Rightarrow> u64 \<Rightarrow> u32 \<Rightarrow> pmem \<Rightarrow> pmem" where
  "memcpy dst src n = memmove dst src n"

section \<open>String comparison and copying\<close>

fun strncmp :: "cptr \<Rightarrow> cptr \<Rightarrow> nat \<Rightarrow> int" where
  "strncmp p q 0 = 0"
| "strncmp p q (Suc n) =
     (if p 0 \<noteq> 0 \<and> p 0 = q 0
      then strncmp (\<lambda>i. p (Suc i)) (\<lambda>i. q (Suc i)) n
      else uint (p 0) - uint (q 0))"

text \<open>
  \<open>strncpy\<close> first copies up to and including a NUL, then pads with zeros; the
  value is the list of the bytes stored at \<open>s\<close>. The second loop runs on what the
  first one left of \<open>n\<close>.
\<close>

fun strncpy :: "cptr \<Rightarrow> nat \<Rightarrow> u8 list" where
  "strncpy t 0 = []"
| "strncpy t (Suc n) =
     (if t 0 \<noteq> 0 then t 0 # strncpy (\<lambda>i. t (Suc i)) n
      else 0 # replicate n 0)"

text \<open>\<open>safestrcpy\<close> with \<open>n > 0\<close>: at most \<open>n - 1\<close> bytes of \<open>t\<close>, then the terminating NUL.\<close>

fun safestrcpy_loop :: "cptr \<Rightarrow> nat \<Rightarrow> u8 list" where
  "safestrcpy_loop t 0 = [0]"
| "safestrcpy_loop t (Suc n) =
     (if t 0 \<noteq> 0 then t 0 # safestrcpy_loop (\<lambda>i. t (Suc i)) n else [0, 0])"

definition safestrcpy :: "cptr \<Rightarrow> int \<Rightarrow> u8 list" where
  "safestrcpy t n = (if n \<le> 0 then [] else safestrcpy_loop t (nat (n - 1)))"

text \<open>
  \<open>strlen\<close> scans until a zero byte; a string without one has no length, so the
  loop is a partial function.
\<close>

partial_function (option) strlen_from :: "cptr \<Rightarrow> nat \<Rightarrow> nat option" where
  "strlen_from s n = (if s n = 0 then Some n else strlen_from s (Suc n))"

definition strlen :: "cptr \<Rightarrow> nat option" where
  "strlen s = strlen_from s 0"

lemma strlen_from_eq:
  assumes "n \<le> k" and "s k = 0" and "\<And>i. n \<le> i \<Longrightarrow> i < k \<Longrightarrow> s i \<noteq> 0"
  shows "strlen_from s n = Some k"
  using assms
proof (induction "k - n" arbitrary: n)
  case 0
  then show ?case by (simp add: strlen_from.simps)
next
  case (Suc d)
  then have "n < k" and "s n \<noteq> 0" by auto
  with Suc show ?case by (simp add: strlen_from.simps [of s n])
qed

lemma strlen_eq:
  assumes "s k = 0" and "\<And>i. i < k \<Longrightarrow> s i \<noteq> 0"
  shows "strlen s = Some k"
  unfolding strlen_def by (rule strlen_from_eq) (use assms in auto)

section \<open>Correctness of the copies\<close>

lemma copy_fwd_eq:
  assumes "n < 2 ^ 64"
    and "\<And>i j. i < j \<Longrightarrow> j < n \<Longrightarrow> d + of_nat i \<noteq> s + of_nat j"
  shows "copy_fwd n d s m = write_bytes d (read_bytes m s n) m"
  using assms
proof (induction n arbitrary: d s m)
  case 0
  then show ?case by (simp add: read_bytes_def)
next
  case (Suc n)
  have "(d + 1) + of_nat i \<noteq> (s + 1) + of_nat j" if "i < j" "j < n" for i j
    using Suc.prems(2) [of "Suc i" "Suc j"] that by (simp add: algebra_simps)
  moreover have "n < 2 ^ 64" using Suc.prems(1) by simp
  ultimately have "copy_fwd (Suc n) d s m =
      write_bytes (d + 1) (read_bytes (m(d := m s)) (s + 1) n) (m(d := m s))"
    using Suc.IH by simp
  also have "read_bytes (m(d := m s)) (s + 1) n = read_bytes m (s + 1) n"
  proof (rule nth_equalityI)
    fix j
    assume "j < length (read_bytes (m(d := m s)) (s + 1) n)"
    then have "j < n" by simp
    moreover from this have "d \<noteq> s + 1 + of_nat j"
      using Suc.prems(2) [of 0 "Suc j"] by (simp add: algebra_simps)
    ultimately show "read_bytes (m(d := m s)) (s + 1) n ! j = read_bytes m (s + 1) n ! j"
      by simp
  qed simp
  also have "write_bytes (d + 1) (read_bytes m (s + 1) n) (m(d := m s)) =
      write_bytes d (read_bytes m s (Suc n)) m"
  proof
    fix x
    show "write_bytes (d + 1) (read_bytes m (s + 1) n) (m(d := m s)) x =
        write_bytes d (read_bytes m s (Suc n)) m x"
    proof (cases "x = d")
      case True
      have "unat (- 1 :: u64) = 18446744073709551615"
        by (simp add: unsigned_minus_1_eq_mask mask_eq_exp_minus_1)
      then have "\<not> unat (d - (d + 1)) < n"
        using Suc.prems(1) by simp
      with True show ?thesis by (simp add: write_bytes_def)
    next
      case False
      then have "x - d \<noteq> 0" by simp
      then have pred: "unat (x - (d + 1)) = unat (x - d) - 1" and pos: "0 < unat (x - d)"
        using unat_minus_one [of "x - d"] by (simp_all add: algebra_simps unat_gt_0)
      then have "s + 1 + of_nat (unat (x - (d + 1))) = s + of_nat (unat (x - d))"
        by (simp add: of_nat_diff)
      with pred pos False show ?thesis
        by (auto simp: write_bytes_def)
    qed
  qed
  finally show ?case .
qed

lemma copy_bwd_eq:
  assumes "n < 2 ^ 64"
    and "\<And>i j. j < i \<Longrightarrow> i < n \<Longrightarrow> d + of_nat i \<noteq> s + of_nat j"
  shows "copy_bwd n (d + of_nat n) (s + of_nat n) m = write_bytes d (read_bytes m s n) m"
  using assms
proof (induction n arbitrary: m)
  case 0
  then show ?case by (simp add: read_bytes_def)
next
  case (Suc n)
  let ?m = "m(d + of_nat n := m (s + of_nat n))"
  have "copy_bwd (Suc n) (d + of_nat (Suc n)) (s + of_nat (Suc n)) m =
      copy_bwd n (d + of_nat n) (s + of_nat n) ?m"
    by (simp add: algebra_simps)
  also have "\<dots> = write_bytes d (read_bytes ?m s n) ?m"
    using Suc by simp
  also have "read_bytes ?m s n = read_bytes m s n"
    using Suc.prems(2) by (intro nth_equalityI) (auto simp: eq_commute)
  also have "write_bytes d (read_bytes m s n) ?m = write_bytes d (read_bytes m s (Suc n)) m"
  proof
    fix x
    have "x = d + of_nat n \<longleftrightarrow> unat (x - d) = n"
      using Suc.prems(1)
      by (metis (no_types, lifting) Suc_lessD add_diff_cancel_left' diff_add_cancel
          add.commute unat_add_diff unat_inj)
    then show "write_bytes d (read_bytes m s n) ?m x =
        write_bytes d (read_bytes m s (Suc n)) m x"
      by (auto simp: write_bytes_def less_Suc_eq)
  qed
  finally show ?case .
qed

text \<open>
  C17: \<open>memmove\<close> copies the \<open>n\<close> bytes at \<open>src\<close> to \<open>dst\<close> and changes no other
  byte, whether or not the two ranges overlap, as long as neither range wraps
  around the end of the address space.
\<close>

theorem memmove_copies:
  assumes "unat src + unat n < 2 ^ 64" and "unat dst + unat n < 2 ^ 64"
  shows "memmove dst src n m = write_bytes dst (read_bytes m src (unat n)) m"
proof -
  have n: "unat n < 2 ^ 64"
    using unat_u32_less [of n] by simp
  have at: "unat (a + of_nat i) = unat a + i"
    if "i \<le> unat n" "unat a + unat n < 2 ^ 64" for a :: u64 and i
    using that by (simp add: unat_word_ariths unat_of_nat)
  have cast: "(ucast n :: u64) = of_nat (unat n)"
    by (simp add: word_unat_eq_iff unat_of_nat)
  show ?thesis
  proof (cases "src < dst \<and> src + ucast n > dst")
    case True
    have "dst + of_nat i \<noteq> src + of_nat j" if "j < i" "i < unat n" for i j
    proof
      assume "dst + of_nat i = src + of_nat j"
      then have "unat dst + i = unat src + j"
        using at [of i dst] at [of j src] that assms by simp
      with that True show False by (simp add: word_less_nat_alt)
    qed
    then have "copy_bwd (unat n) (dst + of_nat (unat n)) (src + of_nat (unat n)) m =
        write_bytes dst (read_bytes m src (unat n)) m"
      by (intro copy_bwd_eq n)
    moreover from True have "n \<noteq> 0" by auto
    ultimately show ?thesis
      using True unfolding memmove_def cast by simp
  next
    case False
    have "dst + of_nat i \<noteq> src + of_nat j" if "i < j" "j < unat n" for i j
    proof
      assume "dst + of_nat i = src + of_nat j"
      then have eq: "unat dst + i = unat src + j"
        using at [of i dst] at [of j src] that assms by simp
      then have "src < dst" using that by (simp add: word_less_nat_alt)
      moreover have "unat (src + ucast n) = unat src + unat n"
        using at [of "unat n" src] assms unfolding cast by simp
      ultimately show False
        using False eq that by (simp add: word_less_nat_alt)
    qed
    then have "copy_fwd (unat n) dst src m = write_bytes dst (read_bytes m src (unat n)) m"
      by (intro copy_fwd_eq n)
    moreover have "write_bytes dst (read_bytes m src (unat n)) m = m" if "n = 0"
      using that by (simp add: read_bytes_def)
    ultimately show ?thesis
      using False unfolding memmove_def by auto
  qed
qed

text \<open>The two ranges of the witness overlap: three bytes move up by one.\<close>

theorem memmove_copies_witness:
  "let m = (\<lambda>x. ucast x :: u8) in
   memmove 0x1001 0x1000 3 m = write_bytes 0x1001 (read_bytes m 0x1000 3) m \<and>
   memmove 0x1001 0x1000 3 m 0x1003 = 2"
proof -
  have "memmove 0x1001 0x1000 3 (\<lambda>x. ucast x :: u8) =
      write_bytes 0x1001 (read_bytes (\<lambda>x. ucast x :: u8) 0x1000 3) (\<lambda>x. ucast x :: u8)"
    by (rule memmove_copies [where n = 3, simplified]) simp_all
  then show ?thesis
    by (simp add: Let_def write_bytes_def read_bytes_def)
qed

section \<open>Strings as lists\<close>

text \<open>The C string in the first \<open>n\<close> bytes of an array that need not be terminated.\<close>

definition cstr :: "cptr \<Rightarrow> nat \<Rightarrow> u8 list" where
  "cstr p n = takeWhile (\<lambda>b. b \<noteq> 0) (map p [0..<n])"

lemma cstr_0 [simp]: "cstr p 0 = []"
  by (simp add: cstr_def)

lemma cstr_Suc [simp]:
  "cstr p (Suc n) = (if p 0 = 0 then [] else p 0 # cstr (\<lambda>i. p (Suc i)) n)"
proof -
  have "map p [0..<Suc n] = p 0 # map (\<lambda>i. p (Suc i)) [0..<n]"
    by (simp add: map_upt_Suc del: upt_Suc)
  then show ?thesis by (simp add: cstr_def del: upt_Suc)
qed

lemma length_cstr: "length (cstr p n) \<le> n"
  by (induction n arbitrary: p) auto

lemma cstr_nonzero: "b \<in> set (cstr p n) \<Longrightarrow> b \<noteq> 0"
  by (auto simp: cstr_def dest: set_takeWhileD)

text \<open>
  C18: \<open>strncmp\<close> answers 0 exactly for two arrays that hold the same C string,
  the string of an array ending at its first NUL or after \<open>n\<close> bytes.
\<close>

theorem strncmp_zero_iff: "strncmp p q n = 0 \<longleftrightarrow> cstr p n = cstr q n"
  by (induction p q n rule: strncmp.induct) (auto simp: uint_0_iff)

lemma strncpy_eq: "strncpy t n = cstr t n @ replicate (n - length (cstr t n)) 0"
  by (induction t n rule: strncpy.induct) auto

lemma length_strncpy [simp]: "length (strncpy t n) = n"
  using length_cstr [of t n] by (simp add: strncpy_eq)

lemma cstr_nth_append:
  "length xs = n \<Longrightarrow> (\<And>x. x \<in> set xs \<Longrightarrow> x \<noteq> 0) \<Longrightarrow>
   cstr (\<lambda>i. (xs @ replicate k 0) ! i) (n + k) = xs"
proof (induction xs arbitrary: n)
  case Nil
  then show ?case by (cases k) simp_all
next
  case (Cons x xs)
  then show ?case by (cases n) auto
qed

text \<open>
  C19: a name stored with \<open>strncpy\<close> in an array of \<open>n\<close> bytes fills the array
  exactly and reads back as the first \<open>n\<close> bytes of the C string it was copied
  from, so \<open>strncmp\<close> finds it again.
\<close>

theorem strncpy_strncmp:
  "length (strncpy t n) = n \<and> cstr (\<lambda>i. strncpy t n ! i) n = cstr t n \<and>
   strncmp (\<lambda>i. strncpy t n ! i) t n = 0"
proof -
  have "cstr (\<lambda>i. strncpy t n ! i) n = cstr t n"
    using cstr_nth_append [of "cstr t n" "length (cstr t n)" "n - length (cstr t n)"]
      length_cstr [of t n] cstr_nonzero [of _ t n]
    by (simp add: strncpy_eq)
  then show ?thesis by (simp add: strncmp_zero_iff)
qed

lemma safestrcpy_loop_eq:
  "safestrcpy_loop t n =
     cstr t n @ (if length (cstr t n) < n then [0, 0] else [0])"
  by (induction t n rule: safestrcpy_loop.induct) auto

text \<open>
  C20: \<open>safestrcpy\<close> into a buffer of \<open>n > 0\<close> bytes writes at most \<open>n\<close> bytes and
  leaves a NUL-terminated string there: the first \<open>n - 1\<close> bytes of the source
  string at most.
\<close>

theorem safestrcpy_terminates:
  assumes "0 < n"
  shows "length (safestrcpy t n) \<le> nat n \<and>
    (\<exists>k. k < length (safestrcpy t n) \<and> safestrcpy t n ! k = 0 \<and>
         take k (safestrcpy t n) = cstr t (nat (n - 1)))"
proof -
  let ?w = "cstr t (nat (n - 1))"
  have len: "length ?w \<le> nat (n - 1)" by (rule length_cstr)
  have w: "safestrcpy t n =
      ?w @ (if length ?w < nat (n - 1) then [0, 0] else [0])"
    using assms by (simp add: safestrcpy_def safestrcpy_loop_eq)
  have "length (safestrcpy t n) \<le> nat n"
    using assms len by (subst w) (auto simp: nat_diff_distrib)
  moreover have "length ?w < length (safestrcpy t n) \<and> safestrcpy t n ! length ?w = 0 \<and>
      take (length ?w) (safestrcpy t n) = ?w"
    by (subst (1 2 3) w) (simp add: nth_append)
  ultimately show ?thesis by blast
qed

theorem safestrcpy_terminates_witness:
  "length (safestrcpy (\<lambda>i. if i < 20 then 65 else 0) 16) \<le> nat 16 \<and>
   (\<exists>k. k < length (safestrcpy (\<lambda>i. if i < 20 then 65 else 0) 16) \<and>
      safestrcpy (\<lambda>i. if i < 20 then 65 else 0) 16 ! k = 0 \<and>
      take k (safestrcpy (\<lambda>i. if i < 20 then 65 else 0) 16) =
        cstr (\<lambda>i. if i < 20 then 65 else 0) (nat (16 - 1)))"
  by (rule safestrcpy_terminates) simp

end
