(* ===== verification/Spinlock.thy ===== *)
theory Spinlock
  imports Prelude
begin

text \<open>
  The per-hart state and the spin locks: \<open>struct context\<close>, \<open>struct cpu\<close> and the
  interrupt-enable part of \<open>sstatus\<close> from \<open>kernel/proc.h\<close> and \<open>kernel/riscv.h\<close>, and
  all of \<open>kernel/spinlock.c\<close>. The lock state is one record, so that the rest of the
  kernel carries it as a single field. The theory proves mutual exclusion for any
  interleaving of harts, and that a critical section restores the interrupt state
  it found.
\<close>

section \<open>Names of the locks\<close>

text \<open>
  Every \<open>struct spinlock\<close> of the kernel, by the object it sits in. \<open>LBuf\<close> and
  \<open>LInode\<close> are the spin locks inside the sleep locks of a buffer and of an inode
  table entry; \<open>LPipe\<close> is the lock of the pipe in the page at an address.
\<close>

datatype lockid =
    LKmem | LPid | LWait | LProc nat | LTicks
  | LBcache | LBuf nat | LLog | LItable | LInode nat
  | LFtable | LPipe u64 | LUart | LCons | LPr

section \<open>State\<close>

record kcontext =
  c_ra :: u64
  c_sp :: u64
  c_s0 :: u64
  c_s1 :: u64
  c_s2 :: u64
  c_s3 :: u64
  c_s4 :: u64
  c_s5 :: u64
  c_s6 :: u64
  c_s7 :: u64
  c_s8 :: u64
  c_s9 :: u64
  c_s10 :: u64
  c_s11 :: u64

definition context_zero :: kcontext where
  "context_zero = \<lparr>c_ra = 0, c_sp = 0, c_s0 = 0, c_s1 = 0, c_s2 = 0, c_s3 = 0, c_s4 = 0,
     c_s5 = 0, c_s6 = 0, c_s7 = 0, c_s8 = 0, c_s9 = 0, c_s10 = 0, c_s11 = 0\<rparr>"

text \<open>A process pointer is \<open>None\<close> or the index of the process in \<open>proc[]\<close>.\<close>

record cpu =
  cpu_proc :: "nat option"
  cpu_context :: kcontext
  noff :: int
  intena :: bool

record spinlock =
  locked :: bool
  lock_name :: string
  lock_cpu :: "nat option"

record lkst =
  hart :: nat
  sstatus :: "nat \<Rightarrow> u64"
  cpus :: "nat \<Rightarrow> cpu"
  locks :: "lockid \<Rightarrow> spinlock"

section \<open>Interrupt enable\<close>

abbreviation SSTATUS_SPP :: u64 where "SSTATUS_SPP \<equiv> 0x100"
abbreviation SSTATUS_SPIE :: u64 where "SSTATUS_SPIE \<equiv> 0x20"
abbreviation SSTATUS_SIE :: u64 where "SSTATUS_SIE \<equiv> 2"

definition r_sstatus :: "lkst \<Rightarrow> u64" where
  "r_sstatus l = sstatus l (hart l)"

definition w_sstatus :: "u64 \<Rightarrow> lkst \<Rightarrow> lkst" where
  "w_sstatus x l = l\<lparr>sstatus := (sstatus l)(hart l := x)\<rparr>"

definition intr_on :: "lkst \<Rightarrow> lkst" where
  "intr_on l = w_sstatus (r_sstatus l OR SSTATUS_SIE) l"

definition intr_off :: "lkst \<Rightarrow> lkst" where
  "intr_off l = w_sstatus (r_sstatus l AND NOT SSTATUS_SIE) l"

definition intr_get :: "lkst \<Rightarrow> bool" where
  "intr_get l \<longleftrightarrow> r_sstatus l AND SSTATUS_SIE \<noteq> 0"

definition cpuid :: "lkst \<Rightarrow> nat" where
  "cpuid l = hart l"

definition mycpu :: "lkst \<Rightarrow> cpu" where
  "mycpu l = cpus l (cpuid l)"

definition set_mycpu :: "(cpu \<Rightarrow> cpu) \<Rightarrow> lkst \<Rightarrow> lkst" where
  "set_mycpu f l = l\<lparr>cpus := (cpus l)(cpuid l := f (mycpu l))\<rparr>"

definition cpuinit :: "lkst \<Rightarrow> lkst" where
  "cpuinit = set_mycpu (\<lambda>c. c\<lparr>noff := 0, intena := False, cpu_proc := None\<rparr>)"

section \<open>The operations of spinlock.c\<close>

definition initlock :: "lockid \<Rightarrow> string \<Rightarrow> lkst \<Rightarrow> lkst" where
  "initlock lk nm l =
     l\<lparr>locks := (locks l)(lk := \<lparr>locked = False, lock_name = nm, lock_cpu = None\<rparr>)\<rparr>"

definition holding :: "lockid \<Rightarrow> lkst \<Rightarrow> bool" where
  "holding lk l \<longleftrightarrow> locked (locks l lk) \<and> lock_cpu (locks l lk) = Some (cpuid l)"

definition push_off :: "lkst \<Rightarrow> lkst" where
  "push_off l =
     (let old = intr_get l;
          l1 = intr_off l;
          l2 = (if noff (mycpu l1) = 0 then set_mycpu (\<lambda>c. c\<lparr>intena := old\<rparr>) l1 else l1)
      in set_mycpu (\<lambda>c. c\<lparr>noff := noff c + 1\<rparr>) l2)"

definition pop_off :: "(unit, lkst) km" where
  "pop_off l =
     (if intr_get l then Panic ''pop_off - interruptible''
      else if noff (mycpu l) < 1 then Panic ''pop_off''
      else
        (let l1 = set_mycpu (\<lambda>c. c\<lparr>noff := noff c - 1\<rparr>) l
         in if noff (mycpu l1) = 0 \<and> intena (mycpu l1)
            then Ok () (intr_on l1) else Ok () l1))"

text \<open>
  The atomic swap succeeds at once on a free lock. On a lock that another hart
  holds the loop has no exit of its own: the outcome is \<open>Spin\<close>.
\<close>

definition acquire_lk :: "lockid \<Rightarrow> (unit, lkst) km" where
  "acquire_lk lk l =
     (let l1 = push_off l
      in if holding lk l1 then Panic ''acquire''
         else if locked (locks l1 lk) then Spin
         else Ok () (l1\<lparr>locks := (locks l1)(lk := (locks l1 lk)
                     \<lparr>locked := True, lock_cpu := Some (cpuid l1)\<rparr>)\<rparr>))"

definition release_lk :: "lockid \<Rightarrow> (unit, lkst) km" where
  "release_lk lk l =
     (if \<not> holding lk l then Panic ''release''
      else pop_off (l\<lparr>locks := (locks l)(lk := (locks l lk)
                     \<lparr>lock_cpu := None, locked := False\<rparr>)\<rparr>))"

lemmas lk_defs = r_sstatus_def w_sstatus_def intr_on_def intr_off_def intr_get_def
  cpuid_def mycpu_def set_mycpu_def

section \<open>Bits of sstatus\<close>

lemma sie_bit: "x AND SSTATUS_SIE = 0 \<longleftrightarrow> \<not> bit x (Suc 0)" for x :: u64
  using and_exp_eq_0_iff_not_bit [of x "Suc 0"] by simp

lemma sie_off_bit: "\<not> bit (x AND - 3) (Suc 0)" for x :: u64
  using bit_and_iff [of x "NOT SSTATUS_SIE" "Suc 0"] by (simp add: bit_simps)

lemma sie_on_bit: "bit (x OR SSTATUS_SIE) (Suc 0)" for x :: u64
  by (simp add: bit_simps)

lemma sie_off_id: "\<not> bit x (Suc 0) \<Longrightarrow> x AND - 3 = x" for x :: u64
proof -
  assume "\<not> bit x (Suc 0)"
  then have "x AND NOT (2 ^ Suc 0) = x"
    by (intro bit_word_eqI) (auto simp: bit_simps)
  then show ?thesis by simp
qed

lemma sie_off_on: "bit x (Suc 0) \<Longrightarrow> x AND - 3 OR SSTATUS_SIE = x" for x :: u64
proof -
  assume "bit x (Suc 0)"
  then have "x AND NOT (2 ^ Suc 0) OR 2 ^ Suc 0 = x"
    by (intro bit_word_eqI) (auto simp: bit_simps)
  then show ?thesis by simp
qed

lemmas sie_simps = sie_bit sie_off_bit sie_on_bit sie_off_id sie_off_on

section \<open>A critical section restores the lock state\<close>

text \<open>
  Well-formed lock states: a free lock names no hart, nesting depths are not
  negative, and a hart inside a \<open>push_off\<close> has its interrupts disabled.
\<close>

definition lk_wf :: "lkst \<Rightarrow> bool" where
  "lk_wf l \<longleftrightarrow>
     (\<forall>lk. \<not> locked (locks l lk) \<longrightarrow> lock_cpu (locks l lk) = None) \<and>
     (\<forall>h. 0 \<le> noff (cpus l h)) \<and>
     (\<forall>h. 0 < noff (cpus l h) \<longrightarrow> \<not> bit (sstatus l h) (Suc 0))"

text \<open>The state after a successful \<open>acquire\<close>, and what a whole critical section leaves.\<close>

definition acqd :: "lockid \<Rightarrow> lkst \<Rightarrow> lkst" where
  "acqd lk l =
     (let l1 = push_off l
      in l1\<lparr>locks := (locks l1)(lk := (locks l1 lk)
            \<lparr>locked := True, lock_cpu := Some (hart l1)\<rparr>)\<rparr>)"

definition touch :: "lkst \<Rightarrow> lkst" where
  "touch l = (if noff (mycpu l) = 0 then set_mycpu (\<lambda>c. c\<lparr>intena := intr_get l\<rparr>) l else l)"

lemma push_off_locks [simp]: "locks (push_off l) = locks l" "hart (push_off l) = hart l"
  by (simp_all add: push_off_def Let_def lk_defs)

lemma locked_acqd [simp]:
  "locked (locks (acqd lk l) lk') \<longleftrightarrow> lk' = lk \<or> locked (locks l lk')"
  by (simp add: acqd_def Let_def)

lemma locks_touch [simp]: "locks (touch l) = locks l"
  by (simp add: touch_def set_mycpu_def)

lemma hart_acqd [simp]: "hart (acqd lk l) = hart l"
  by (simp add: acqd_def Let_def)

lemma hart_touch [simp]: "hart (touch l) = hart l"
  by (simp add: touch_def set_mycpu_def)

lemma cpu_proc_acqd [simp]: "cpu_proc (cpus (acqd lk l) h) = cpu_proc (cpus l h)"
  by (simp add: acqd_def push_off_def Let_def lk_defs)

lemma cpu_proc_touch [simp]: "cpu_proc (cpus (touch l) h) = cpu_proc (cpus l h)"
  by (simp add: touch_def lk_defs)

lemma holding_acqd [simp]: "holding lk (acqd lk l)"
  by (simp add: holding_def acqd_def Let_def cpuid_def)

lemma acquire_free:
  "lk_wf l \<Longrightarrow> \<not> locked (locks l lk) \<Longrightarrow> acquire_lk lk l = Ok () (acqd lk l)"
  by (simp add: acquire_lk_def acqd_def Let_def holding_def cpuid_def)

lemma acquire_lk_Ok:
  "acquire_lk lk l = Ok u l' \<longleftrightarrow> \<not> locked (locks l lk) \<and> l' = acqd lk l"
  by (auto simp: acquire_lk_def acqd_def Let_def holding_def cpuid_def)

lemma lk_wf_acqd [simp]: "lk_wf l \<Longrightarrow> lk_wf (acqd lk l)"
  by (auto simp: lk_wf_def acqd_def push_off_def Let_def lk_defs sie_simps)

lemma noff_touch [simp]: "noff (cpus (touch l) h) = noff (cpus l h)"
  by (simp add: touch_def lk_defs)

lemma sstatus_touch [simp]: "sstatus (touch l) = sstatus l"
  by (simp add: touch_def lk_defs)

lemma lk_wf_touch [simp]: "lk_wf (touch l) \<longleftrightarrow> lk_wf l"
  by (simp add: lk_wf_def)

lemma noff_acqd: "lk_wf l \<Longrightarrow> 0 < noff (mycpu (acqd lk l))"
  by (auto simp: lk_wf_def acqd_def push_off_def Let_def lk_defs add_nonneg_pos)

lemma touch_acqd [simp]: "lk_wf l \<Longrightarrow> touch (acqd lk l) = acqd lk l"
  using noff_acqd [of l lk] by (simp add: touch_def)

lemma touch_touch [simp]: "touch (touch l) = touch l"
  by (simp add: touch_def lk_defs)

lemma acqd_touch [simp]: "lk_wf l \<Longrightarrow> acqd lk (touch l) = acqd lk l"
  by (simp add: acqd_def touch_def push_off_def Let_def lk_defs)

lemma release_acqd:
  assumes "lk_wf l" and "\<not> locked (locks l lk)"
  shows "release_lk lk (acqd lk l) = Ok () (touch l)"
proof -
  have free: "lock_cpu (locks l lk) = None" "\<not> locked (locks l lk)"
    and n: "0 \<le> noff (cpus l (hart l))"
    and off: "0 < noff (cpus l (hart l)) \<Longrightarrow> \<not> bit (sstatus l (hart l)) (Suc 0)"
    using assms by (simp_all add: lk_wf_def)
  then have same: "(locks l)(lk := (locks l lk)\<lparr>lock_cpu := None, locked := False\<rparr>) = locks l"
    by (intro ext) (auto intro: spinlock.equality)
  have n': "noff (cpus l (hart l)) = 0 \<Longrightarrow>
      (cpus l (hart l))\<lparr>intena := b, noff := 0\<rparr> = (cpus l (hart l))\<lparr>intena := b\<rparr>" for b
    by (auto intro: cpu.equality)
  show ?thesis
    using n off
    by (cases "noff (cpus l (hart l)) = 0"; cases "bit (sstatus l (hart l)) (Suc 0)")
       (simp_all add: release_lk_def acqd_def push_off_def pop_off_def holding_def touch_def
          Let_def lk_defs sie_simps same n')
qed

text \<open>
  Two locks released in the order in which they were taken: releasing the outer
  one first leaves the state in which only the inner one was taken.
\<close>

lemma release_outer:
  assumes "lk_wf l" and "\<not> locked (locks l a)" and "\<not> locked (locks l b)" and "a \<noteq> b"
  shows "release_lk a (acqd b (acqd a l)) = Ok () (acqd b l)"
proof -
  have free: "lock_cpu (locks l a) = None" "\<not> locked (locks l a)"
    and n: "0 \<le> noff (cpus l (hart l))"
    and off: "0 < noff (cpus l (hart l)) \<Longrightarrow> \<not> bit (sstatus l (hart l)) (Suc 0)"
    using assms by (simp_all add: lk_wf_def)
  then have same: "(locks l)(a := (locks l a)\<lparr>lock_cpu := None, locked := False\<rparr>) = locks l"
    by (intro ext) (auto intro: spinlock.equality)
  have swap: "(locks l)(a := x, b := y, a := z) = ((locks l)(a := z))(b := y)" for x y z
    using assms(4) by (simp add: fun_upd_twist)
  show ?thesis
    using n off assms(4)
    by (cases "noff (cpus l (hart l)) = 0"; cases "bit (sstatus l (hart l)) (Suc 0)")
       (auto intro!: lkst.equality simp: release_lk_def acqd_def push_off_def pop_off_def
          holding_def Let_def lk_defs sie_simps same swap add.commute)
qed

lemma pop_push:
  assumes "lk_wf l"
  shows "pop_off (push_off l) = Ok () (touch l)"
proof -
  have n: "0 \<le> noff (cpus l (hart l))"
    and off: "0 < noff (cpus l (hart l)) \<Longrightarrow> \<not> bit (sstatus l (hart l)) (Suc 0)"
    using assms by (simp_all add: lk_wf_def)
  have n': "noff (cpus l (hart l)) = 0 \<Longrightarrow>
      (cpus l (hart l))\<lparr>intena := b, noff := 0\<rparr> = (cpus l (hart l))\<lparr>intena := b\<rparr>" for b
    by (auto intro: cpu.equality)
  show ?thesis
    using n off
    by (cases "noff (cpus l (hart l)) = 0"; cases "bit (sstatus l (hart l)) (Suc 0)")
       (simp_all add: push_off_def pop_off_def touch_def Let_def lk_defs sie_simps n')
qed

lemma lk_wf_push [simp]: "lk_wf l \<Longrightarrow> lk_wf (push_off l)"
  by (auto simp: lk_wf_def push_off_def Let_def lk_defs sie_simps)

lemma lk_wf_pushes [simp]: "lk_wf l \<Longrightarrow> lk_wf ((push_off ^^ n) l)"
  by (induction n) simp_all

lemma noff_push: "lk_wf l \<Longrightarrow> 0 < noff (mycpu (push_off l))"
  by (auto simp: lk_wf_def push_off_def Let_def lk_defs add_nonneg_pos)

lemma intr_get_push [simp]: "\<not> intr_get (push_off l)"
  by (simp add: push_off_def Let_def lk_defs sie_simps)

primrec pop_offs :: "nat \<Rightarrow> (unit, lkst) km" where
  "pop_offs 0 = kret ()"
| "pop_offs (Suc n) = kthen pop_off (pop_offs n)"


definition idle_lkst :: lkst where
  "idle_lkst = \<lparr>hart = 0, sstatus = (\<lambda>_. SSTATUS_SIE),
     cpus = (\<lambda>_. \<lparr>cpu_proc = None, cpu_context = context_zero, noff = 0, intena = False\<rparr>),
     locks = (\<lambda>_. \<lparr>locked = False, lock_name = [], lock_cpu = None\<rparr>)\<rparr>"

lemma lk_wf_idle [simp]: "lk_wf idle_lkst"
  by (simp add: lk_wf_def idle_lkst_def)


section \<open>Mutual exclusion\<close>

text \<open>
  The contract of a lock, for any number of agents and locks: it is taken only
  when it has no owner, and given back only by its owner. Whoever keeps it may
  conclude that no two agents are ever inside the same critical section.
\<close>

datatype ('h, 'l) lkev = Acq 'h 'l | Rel 'h 'l | Other 'h

fun cs_upd :: "('h, 'l) lkev \<Rightarrow> ('l \<Rightarrow> 'h set) \<Rightarrow> ('l \<Rightarrow> 'h set)" where
  "cs_upd (Acq h l) S = S(l := insert h (S l))"
| "cs_upd (Rel h l) S = S(l := S l - {h})"
| "cs_upd (Other h) S = S"

text \<open>The agents that entered the critical section of a lock and did not leave it.\<close>

definition in_cs :: "('h, 'l) lkev list \<Rightarrow> 'l \<Rightarrow> 'h set" where
  "in_cs es = fold cs_upd es (\<lambda>_. {})"

lemma in_cs_Nil [simp]: "in_cs [] l = {}"
  by (simp add: in_cs_def)

lemma in_cs_snoc [simp]: "in_cs (es @ [e]) = cs_upd e (in_cs es)"
  by (simp add: in_cs_def)

locale mutex =
  fixes step :: "'s \<Rightarrow> ('h, 'l) lkev \<Rightarrow> 's \<Rightarrow> bool"
    and owner :: "'s \<Rightarrow> 'l \<Rightarrow> 'h option"
  assumes acq_step: "step s (Acq h l) t \<Longrightarrow> owner s l = None \<and> owner t = (owner s)(l := Some h)"
    and rel_step: "step s (Rel h l) t \<Longrightarrow> owner s l = Some h \<and> owner t = (owner s)(l := None)"
    and other_step: "step s (Other h) t \<Longrightarrow> owner t = owner s"
begin

lemma in_cs_owner:
  assumes "trace step s es t" and "owner s = (\<lambda>_. None)"
  shows "in_cs es = (\<lambda>l. set_option (owner t l))"
  using assms
proof (induction rule: trace.induct)
  case (trace_nil s)
  then show ?case by (simp add: fun_eq_iff)
next
  case (trace_snoc s es t e u)
  show ?case
  proof (cases e)
    case (Acq h l)
    with trace_snoc acq_step [of t h l u] show ?thesis by (auto simp: fun_eq_iff)
  next
    case (Rel h l)
    with trace_snoc rel_step [of t h l u] show ?thesis by (auto simp: fun_eq_iff)
  next
    case (Other h)
    with trace_snoc other_step [of t h u] show ?thesis by simp
  qed
qed

lemma exclusive:
  assumes "trace step s es t" and "owner s = (\<lambda>_. None)"
    and "h \<in> in_cs es l" and "h' \<in> in_cs es l"
  shows "h = h'"
  using assms in_cs_owner by (cases "owner t l") auto

end

text \<open>
  Harts interleave: each step is one whole \<open>acquire\<close> or \<open>release\<close> that returns on
  some hart, or a \<open>push_off\<close> or \<open>pop_off\<close> there. A spinning hart makes no step.
\<close>

fun lock_step :: "lkst \<Rightarrow> (nat, lockid) lkev \<Rightarrow> lkst \<Rightarrow> bool" where
  "lock_step l (Acq h lk) l' \<longleftrightarrow> acquire_lk lk (l\<lparr>hart := h\<rparr>) = Ok () l'"
| "lock_step l (Rel h lk) l' \<longleftrightarrow> release_lk lk (l\<lparr>hart := h\<rparr>) = Ok () l'"
| "lock_step l (Other h) l' \<longleftrightarrow>
     l' = push_off (l\<lparr>hart := h\<rparr>) \<or> pop_off (l\<lparr>hart := h\<rparr>) = Ok () l'"

definition lock_owner :: "lkst \<Rightarrow> lockid \<Rightarrow> nat option" where
  "lock_owner l lk = (if locked (locks l lk) then lock_cpu (locks l lk) else None)"

lemma lock_owner_hart [simp]: "lock_owner (l\<lparr>hart := h\<rparr>) = lock_owner l"
  by (simp add: lock_owner_def fun_eq_iff)

lemma pop_off_locks: "pop_off l = Ok u l' \<Longrightarrow> locks l' = locks l"
  by (auto simp: pop_off_def Let_def lk_defs split: if_splits)

lemma acquire_owner:
  "acquire_lk lk l = Ok u l' \<Longrightarrow>
   lock_owner l lk = None \<and> lock_owner l' = (lock_owner l)(lk := Some (hart l))"
  by (auto simp: acquire_lk_Ok lock_owner_def acqd_def Let_def fun_eq_iff)

lemma release_owner:
  "release_lk lk l = Ok u l' \<Longrightarrow>
   lock_owner l lk = Some (hart l) \<and> lock_owner l' = (lock_owner l)(lk := None)"
  by (auto simp: release_lk_def holding_def lock_owner_def cpuid_def fun_eq_iff
      dest!: pop_off_locks split: if_splits)

interpretation spin: mutex lock_step lock_owner
proof
  show "lock_owner s l = None \<and> lock_owner t = (lock_owner s)(l := Some h)"
    if "lock_step s (Acq h l) t" for s h l t
    using that acquire_owner [of l "s\<lparr>hart := h\<rparr>"] by simp
  show "lock_owner s l = Some h \<and> lock_owner t = (lock_owner s)(l := None)"
    if "lock_step s (Rel h l) t" for s h l t
    using that release_owner [of l "s\<lparr>hart := h\<rparr>"] by simp
  show "lock_owner t = lock_owner s" if "lock_step s (Other h) t" for s h t
    using that by (auto simp: lock_owner_def fun_eq_iff dest!: pop_off_locks)
qed


text \<open>Hart 1 takes \<open>kmem.lock\<close> after hart 0 gave it back.\<close>

definition handover :: "(nat, lockid) lkev list" where
  "handover = [Acq 0 LKmem, Rel 0 LKmem, Acq 1 LKmem]"


end
