(* ===== verification/Kalloc.thy ===== *)
theory Kalloc
  imports KString Spinlock
begin

text \<open>
  The physical page allocator of \<open>kernel/kalloc.c\<close> over byte-addressed memory: the
  free list is threaded through the free pages themselves. The invariant says that
  it is a duplicate-free list of aligned pages between the end of the kernel image
  and \<open>PHYSTOP\<close>. The allocator is shown to implement a stack of pages.
\<close>

section \<open>Address-space constants\<close>

text \<open>From \<open>kernel/riscv.h\<close> and \<open>kernel/memlayout.h\<close>.\<close>

abbreviation PGSIZE :: u64 where "PGSIZE \<equiv> 4096"
abbreviation KERNBASE :: u64 where "KERNBASE \<equiv> 0x200000"
abbreviation PHYSTOP :: u64 where "PHYSTOP \<equiv> 0x8200000"

definition PGROUNDUP :: "u64 \<Rightarrow> u64" where
  "PGROUNDUP sz = (sz + PGSIZE - 1) AND NOT (PGSIZE - 1)"

definition PGROUNDDOWN :: "u64 \<Rightarrow> u64" where
  "PGROUNDDOWN a = a AND NOT (PGSIZE - 1)"

section \<open>State\<close>

text \<open>
  The first part of the kernel state: the lock state, physical memory, the head of
  \<open>kmem.freelist\<close> and the linker symbol \<open>end\<close>. Later components extend this record.
\<close>

record memst =
  lks :: lkst
  mem :: pmem
  freelist :: u64
  k_end :: u64

definition acquire :: "lockid \<Rightarrow> (unit, 'z memst_scheme) km" where
  "acquire lk = klift lks (\<lambda>l s. s\<lparr>lks := l\<rparr>) (acquire_lk lk)"

definition release :: "lockid \<Rightarrow> (unit, 'z memst_scheme) km" where
  "release lk = klift lks (\<lambda>l s. s\<lparr>lks := l\<rparr>) (release_lk lk)"

definition lk_free :: "lockid \<Rightarrow> 'z memst_scheme \<Rightarrow> bool" where
  "lk_free lk s \<longleftrightarrow> lk_wf (lks s) \<and> \<not> locked (locks (lks s) lk)"

lemma acquire_ok [simp]:
  "lk_free lk s \<Longrightarrow> acquire lk s = Ok () (s\<lparr>lks := acqd lk (lks s)\<rparr>)"
  by (simp add: lk_free_def acquire_def acquire_free)

lemma release_ok [simp]:
  "lks s = acqd lk l \<Longrightarrow> lk_wf l \<Longrightarrow> \<not> locked (locks l lk) \<Longrightarrow>
   release lk s = Ok () (s\<lparr>lks := touch l\<rparr>)"
  by (simp add: release_def release_acqd)

lemma acquire_Ok_iff:
  "acquire lk s = Ok u t \<longleftrightarrow> \<not> locked (locks (lks s) lk) \<and> t = s\<lparr>lks := acqd lk (lks s)\<rparr>"
  by (auto simp: acquire_def klift_eq_Ok acquire_lk_Ok)

lemma release_OkD: "release lk s = Ok u t \<Longrightarrow> \<exists>l. t = s\<lparr>lks := l\<rparr>"
  by (auto simp: release_def klift_eq_Ok)

lemma wlp_acquire [wlp_intros]:
  "(\<not> locked (locks (lks s) lk) \<Longrightarrow> Q () (s\<lparr>lks := acqd lk (lks s)\<rparr>)) \<Longrightarrow> wlp (acquire lk) Q s"
  by (simp add: wlp_iff acquire_Ok_iff)

lemma wlp_release [wlp_intros]: "(\<And>l. Q () (s\<lparr>lks := l\<rparr>)) \<Longrightarrow> wlp (release lk) Q s"
  by (auto simp: wlp_iff dest!: release_OkD)

section \<open>The operations of kalloc.c\<close>

definition kfree :: "u64 \<Rightarrow> (unit, 'z memst_scheme) km" where
  "kfree pa s =
     (if pa mod PGSIZE \<noteq> 0 \<or> pa < k_end s \<or> PHYSTOP \<le> pa then Panic ''kfree''
      else
        kthen (kmod (\<lambda>s. s\<lparr>mem := memset pa 1 4096 (mem s)\<rparr>))
       (kthen (acquire LKmem)
       (kthen (kmod (\<lambda>s. s\<lparr>mem := write64 pa (freelist s) (mem s)\<rparr>))
       (kthen (kmod (\<lambda>s. s\<lparr>freelist := pa\<rparr>))
        (release LKmem)))) s)"

definition kalloc :: "(u64, 'z memst_scheme) km" where
  "kalloc =
     kthen (acquire LKmem)
    (kbind (kget freelist) (\<lambda>r.
     kthen (kwhen (r \<noteq> 0) (kmod (\<lambda>s. s\<lparr>freelist := read64 (mem s) r\<rparr>)))
    (kthen (release LKmem)
    (kthen (kwhen (r \<noteq> 0) (kmod (\<lambda>s. s\<lparr>mem := memset r 5 4096 (mem s)\<rparr>)))
     (kret r)))))"

text \<open>
  The loop of \<open>freerange\<close> compares addresses after adding, so a range that ends at
  the top of the address space would make it run for ever; \<open>Spin\<close> is the outcome
  when the given number of rounds is not enough.
\<close>

primrec freerange_loop :: "nat \<Rightarrow> u64 \<Rightarrow> u64 \<Rightarrow> (unit, 'z memst_scheme) km" where
  "freerange_loop 0 p pa_end = (\<lambda>s. Spin)"
| "freerange_loop (Suc n) p pa_end =
     (if p + PGSIZE \<le> pa_end
      then kthen (kfree p) (freerange_loop n (p + PGSIZE) pa_end)
      else kret ())"

definition freerange :: "u64 \<Rightarrow> u64 \<Rightarrow> (unit, 'z memst_scheme) km" where
  "freerange pa_start pa_end =
     freerange_loop (unat pa_end div 4096 + 1) (PGROUNDUP pa_start) pa_end"

definition kinit :: "(unit, 'z memst_scheme) km" where
  "kinit =
     kthen (kmod (\<lambda>s. s\<lparr>lks := initlock LKmem ''kmem'' (lks s)\<rparr>))
     (\<lambda>s. freerange (k_end s) PHYSTOP s)"

section \<open>What the allocator leaves alone\<close>

text \<open>An observation of the state that ignores locks, memory and the free list.\<close>

definition beyond_mem :: "('z memst_scheme \<Rightarrow> 'v) \<Rightarrow> bool" where
  "beyond_mem f \<longleftrightarrow> (\<forall>s l m fl. f (s\<lparr>lks := l\<rparr>) = f s \<and> f (s\<lparr>mem := m\<rparr>) = f s \<and>
     f (s\<lparr>freelist := fl\<rparr>) = f s)"

lemma beyond_memI:
  "(\<And>s l. f (s\<lparr>lks := l\<rparr>) = f s) \<Longrightarrow> (\<And>s m. f (s\<lparr>mem := m\<rparr>) = f s) \<Longrightarrow>
   (\<And>s fl. f (s\<lparr>freelist := fl\<rparr>) = f s) \<Longrightarrow> beyond_mem f"
  by (simp add: beyond_mem_def)

lemma keeps_acquire [keeps_rules]: "beyond_mem f \<Longrightarrow> keeps f (acquire lk)"
  by (auto simp: keeps_def acquire_Ok_iff beyond_mem_def)

lemma keeps_release [keeps_rules]: "beyond_mem f \<Longrightarrow> keeps f (release lk)"
  by (auto simp: keeps_def beyond_mem_def dest!: release_OkD)

lemma keeps_kfree [keeps_rules]: "beyond_mem f \<Longrightarrow> keeps f (kfree pa)"
  unfolding kfree_def [abs_def] by (intro keeps_rules) (simp_all add: beyond_mem_def)

lemma keeps_kalloc [keeps_rules]: "beyond_mem f \<Longrightarrow> keeps f kalloc"
  unfolding kalloc_def by (intro keeps_rules) (simp_all add: beyond_mem_def)

section \<open>Pages\<close>

definition aligned :: "u64 \<Rightarrow> bool" where
  "aligned x \<longleftrightarrow> x mod PGSIZE = 0"

lemma aligned_unat: "aligned x \<longleftrightarrow> unat x mod 4096 = 0"
  by (simp add: aligned_def word_unat_eq_iff unat_mod_distrib)

lemma aligned_diff: "aligned x \<Longrightarrow> aligned y \<Longrightarrow> aligned (x - y)"
proof -
  assume "aligned x" and "aligned y"
  then have "4096 dvd unat x" and "4096 dvd unat y" by (simp_all add: aligned_unat mod_eq_0_iff_dvd)
  then have "4096 dvd unat (x - y)"
    by (auto simp: unat_sub_if' dvd_diff_nat)
  then show ?thesis by (simp add: aligned_unat mod_eq_0_iff_dvd)
qed

lemma page_disjoint:
  assumes "aligned x" and "aligned y" and "x \<noteq> y" and "i < 4096"
  shows "4096 \<le> unat (x + of_nat i - y)"
proof -
  let ?d = "unat (x - y)"
  have "aligned (x - y)" using assms aligned_diff by blast
  then have mult: "?d mod 4096 = 0" by (simp add: aligned_unat)
  moreover have "0 < ?d" using assms(3) by (simp add: unat_gt_0)
  ultimately have low: "4096 \<le> ?d"
    by (metis dvd_imp_le mod_0_imp_dvd)
  obtain k where k: "?d = 4096 * k" using mult by (metis mod_0_imp_dvd dvdE)
  have "?d < 4096 * 4503599627370496" using unat_u64_less [of "x - y"] by simp
  with k have "k + 1 \<le> 4503599627370496" by simp
  with k have "?d + 4096 \<le> 2 ^ 64" by simp
  then have "unat ((x - y) + of_nat i) = ?d + i"
    using assms(4) by (simp add: unat_word_ariths unat_of_nat)
  with low show ?thesis by (simp add: algebra_simps)
qed

lemma PGROUNDDOWN_eq: "PGROUNDDOWN a = push_bit 12 (drop_bit 12 a)"
proof -
  have "PGROUNDDOWN a = a AND NOT (mask 12)"
    by (simp add: PGROUNDDOWN_def mask_eq_exp_minus_1)
  also have "\<dots> = push_bit 12 (drop_bit 12 a)"
    by (rule bit_word_eqI) (auto simp: bit_simps)
  finally show ?thesis .
qed

lemma unat_PGROUNDDOWN: "unat (PGROUNDDOWN a) = unat a div 4096 * 4096"
proof -
  have "unat (drop_bit 12 a) = unat a div 4096"
    by (simp add: drop_bit_eq_div unat_div)
  moreover have "unat a div 4096 * 4096 < 18446744073709551616"
    using unat_u64_less [of a] div_times_less_eq_dividend [of "unat a" 4096] by linarith
  ultimately show ?thesis
    by (simp add: PGROUNDDOWN_eq push_bit_eq_mult unat_word_ariths)
qed

lemma PGROUNDUP_eq: "PGROUNDUP a = PGROUNDDOWN (a + 4095)"
  by (simp add: PGROUNDUP_def PGROUNDDOWN_def algebra_simps)

lemma unat_PGROUNDUP:
  "unat a + 4095 < 2 ^ 64 \<Longrightarrow> unat (PGROUNDUP a) = (unat a + 4095) div 4096 * 4096"
  by (simp add: PGROUNDUP_eq unat_PGROUNDDOWN unat_word_ariths)

lemma aligned_PGROUNDDOWN [simp]: "aligned (PGROUNDDOWN a)"
  by (simp add: aligned_unat unat_PGROUNDDOWN)

lemma aligned_PGROUNDUP [simp]: "aligned (PGROUNDUP a)"
  by (simp add: PGROUNDUP_eq)

text \<open>Two memories that agree outside the page at \<open>p\<close>.\<close>

definition same_outside :: "u64 \<Rightarrow> pmem \<Rightarrow> pmem \<Rightarrow> bool" where
  "same_outside p m m' \<longleftrightarrow> (\<forall>x. 4096 \<le> unat (x - p) \<longrightarrow> m' x = m x)"

lemma same_outside_refl [simp]: "same_outside p m m"
  by (simp add: same_outside_def)

lemma same_outside_trans:
  "same_outside p m m' \<Longrightarrow> same_outside p m' m'' \<Longrightarrow> same_outside p m m''"
  by (simp add: same_outside_def)

lemma same_outside_memset [simp]: "same_outside p m (memset p c 4096 m)"
  by (simp add: same_outside_def memset_eq word_less_nat_alt)

lemma same_outside_write64 [simp]: "same_outside p m (write64 p v m)"
  by (simp add: same_outside_def write64_def write_bytes_def)

lemma read_bytes_other_page:
  assumes "same_outside p m m'" and "aligned p" and "aligned x" and "x \<noteq> p" and "n \<le> 4096"
  shows "read_bytes m' x n = read_bytes m x n"
  using assms page_disjoint [OF assms(3,2,4)]
  by (intro nth_equalityI) (simp_all add: same_outside_def)

lemma read64_other_page:
  assumes "same_outside p m m'" and "aligned p" and "aligned x" and "x \<noteq> p"
  shows "read64 m' x = read64 m x"
  using read_bytes_other_page [OF assms, of 8] by (simp add: read64_def)

section \<open>The free list\<close>

fun flist :: "pmem \<Rightarrow> u64 \<Rightarrow> u64 list \<Rightarrow> bool" where
  "flist m a [] \<longleftrightarrow> a = 0"
| "flist m a (x # xs) \<longleftrightarrow> a = x \<and> flist m (read64 m x) xs"

definition page_ok :: "u64 \<Rightarrow> u64 \<Rightarrow> bool" where
  "page_ok e p \<longleftrightarrow> aligned p \<and> e \<le> p \<and> p < PHYSTOP"

definition kmem_inv :: "'z memst_scheme \<Rightarrow> u64 list \<Rightarrow> bool" where
  "kmem_inv s ps \<longleftrightarrow>
     0 < k_end s \<and> flist (mem s) (freelist s) ps \<and> distinct ps \<and>
     (\<forall>p \<in> set ps. page_ok (k_end s) p)"

lemma flist_frame:
  assumes "same_outside p m m'" and "aligned p" and "p \<notin> set xs" and "\<forall>x \<in> set xs. aligned x"
  shows "flist m' a xs = flist m a xs"
  using assms
proof (induction xs arbitrary: a)
  case Nil
  then show ?case by simp
next
  case (Cons x xs)
  then have "read64 m' x = read64 m x"
    by (intro read64_other_page) auto
  with Cons show ?case by simp
qed

lemma page_ok_nonzero: "0 < e \<Longrightarrow> page_ok e p \<Longrightarrow> p \<noteq> 0"
  by (auto simp: page_ok_def)

lemma kmem_inv_frame:
  assumes "kmem_inv s ps" and "same_outside p (mem s) (mem t)" and "aligned p" and "p \<notin> set ps"
    and "freelist t = freelist s" and "k_end t = k_end s"
  shows "kmem_inv t ps"
  using assms flist_frame [of p "mem s" "mem t" ps "freelist s"]
  by (auto simp: kmem_inv_def page_ok_def)

section \<open>Behaviour of kfree and kalloc\<close>

lemma kfree_ok:
  assumes "page_ok (k_end s) p" and "lk_free LKmem s"
  shows "kfree p s = Ok () (s\<lparr>lks := touch (lks s),
    mem := write64 p (freelist s) (memset p 1 4096 (mem s)), freelist := p\<rparr>)"
  using assms by (simp add: kfree_def page_ok_def aligned_def lk_free_def not_less not_le)

lemma kfree_panics:
  "\<not> page_ok (k_end s) p \<Longrightarrow> kfree p s = Panic ''kfree''"
  by (auto simp: kfree_def page_ok_def aligned_def not_less not_le)

lemma kalloc_ok:
  assumes "lk_free LKmem s"
  shows "kalloc s = Ok (freelist s)
    (if freelist s = 0 then s\<lparr>lks := touch (lks s)\<rparr>
     else s\<lparr>lks := touch (lks s), freelist := read64 (mem s) (freelist s),
            mem := memset (freelist s) 5 4096 (mem s)\<rparr>)"
  using assms by (simp add: kalloc_def lk_free_def)

lemma lk_free_touch [simp]: "lk_free lk (s\<lparr>lks := touch (lks s)\<rparr>) = lk_free lk s"
  by (simp add: lk_free_def)

lemma lk_free_mem [simp]:
  "lk_free lk (s\<lparr>mem := m\<rparr>) = lk_free lk s"
  "lk_free lk (s\<lparr>freelist := f\<rparr>) = lk_free lk s"
  by (simp_all add: lk_free_def)

lemma kfree_inv:
  assumes "kmem_inv s ps" and "page_ok (k_end s) p" and "p \<notin> set ps" and "lk_free LKmem s"
  obtains t where "kfree p s = Ok () t" and "kmem_inv t (p # ps)"
    and "same_outside p (mem s) (mem t)" and "lk_free LKmem t" and "k_end t = k_end s"
proof -
  let ?m = "write64 p (freelist s) (memset p 1 4096 (mem s))"
  let ?t = "s\<lparr>lks := touch (lks s), mem := ?m, freelist := p\<rparr>"
  have same: "same_outside p (mem s) ?m"
    by (rule same_outside_trans [OF same_outside_memset same_outside_write64])
  have "aligned p" using assms(2) by (simp add: page_ok_def)
  then have "flist ?m (freelist s) ps"
    using assms flist_frame [OF same, of ps "freelist s"]
    by (auto simp: kmem_inv_def page_ok_def)
  then have "kmem_inv ?t (p # ps)"
    using assms by (auto simp: kmem_inv_def)
  moreover have "kfree p s = Ok () ?t" by (rule kfree_ok [OF assms(2,4)])
  ultimately show thesis using that [of ?t] same assms(4) by (simp add: lk_free_def)
qed

lemma kalloc_inv_Cons:
  assumes "kmem_inv s (p # ps)" and "lk_free LKmem s"
  obtains t where "kalloc s = Ok p t" and "kmem_inv t ps"
    and "same_outside p (mem s) (mem t)" and "lk_free LKmem t" and "k_end t = k_end s"
    and "read_bytes (mem t) p 4096 = replicate 4096 5"
proof -
  let ?m = "memset p 5 4096 (mem s)"
  let ?t = "s\<lparr>lks := touch (lks s), freelist := read64 (mem s) p, mem := ?m\<rparr>"
  have p: "freelist s = p" "p \<noteq> 0" "aligned p" "p \<notin> set ps"
    using assms(1) page_ok_nonzero [of "k_end s" p] by (auto simp: kmem_inv_def page_ok_def)
  have "kmem_inv (s\<lparr>freelist := read64 (mem s) p\<rparr>) ps"
    using assms(1) by (simp add: kmem_inv_def)
  then have "kmem_inv ?t ps"
    by (rule kmem_inv_frame [where p = p]) (use p in simp_all)
  moreover have "kalloc s = Ok p ?t"
    using kalloc_ok [OF assms(2)] p by simp
  moreover have "read_bytes ?m p 4096 = replicate 4096 5"
    by (rule nth_equalityI) (simp_all add: memset_eq word_less_nat_alt unat_of_nat)
  ultimately show thesis using that [of ?t] assms(2) by (simp add: lk_free_def)
qed

lemma kalloc_inv_Nil:
  assumes "kmem_inv s []" and "lk_free LKmem s"
  shows "kalloc s = Ok 0 (s\<lparr>lks := touch (lks s)\<rparr>)"
  using assms kalloc_ok [OF assms(2)] by (simp add: kmem_inv_def)

section \<open>The interface of a page allocator\<close>

text \<open>
  What the rest of the kernel relies on: an allocator whose free pages, in some
  order, are a list without repetition; allocation takes the first one and
  answers 0 only when there is none; freeing a page puts it in front.
\<close>

locale page_allocator =
  fixes alloc :: "('p, 's) km"
    and free :: "'p \<Rightarrow> (unit, 's) km"
    and null :: 'p
    and pool :: "'s \<Rightarrow> 'p list \<Rightarrow> bool"
    and may_free :: "'s \<Rightarrow> 'p \<Rightarrow> bool"
  assumes alloc_Cons: "pool s (p # ps) \<Longrightarrow> \<exists>t. alloc s = Ok p t \<and> pool t ps \<and> may_free t = may_free s"
    and alloc_Nil: "pool s [] \<Longrightarrow> \<exists>t. alloc s = Ok null t \<and> pool t [] \<and> may_free t = may_free s"
    and free_front: "pool s ps \<Longrightarrow> may_free s p \<Longrightarrow> p \<notin> set ps \<Longrightarrow>
      \<exists>t. free p s = Ok () t \<and> pool t (p # ps) \<and> may_free t = may_free s"
    and pool_distinct: "pool s ps \<Longrightarrow> distinct ps"
    and pool_may_free: "pool s ps \<Longrightarrow> p \<in> set ps \<Longrightarrow> may_free s p \<and> p \<noteq> null"
begin

text \<open>Allocating \<open>n\<close> pages, one call after the other.\<close>

primrec alloc_n :: "nat \<Rightarrow> ('p list, 's) km" where
  "alloc_n 0 = kret []"
| "alloc_n (Suc n) = kbind alloc (\<lambda>p. kbind (alloc_n n) (\<lambda>ps. kret (p # ps)))"

primrec free_all :: "'p list \<Rightarrow> (unit, 's) km" where
  "free_all [] = kret ()"
| "free_all (p # ps) = kthen (free_all ps) (free p)"

lemma alloc_n_pool:
  assumes "pool s (qs @ ps)"
  shows "\<exists>t. alloc_n (length qs) s = Ok qs t \<and> pool t ps \<and> may_free t = may_free s"
  using assms
proof (induction qs arbitrary: s)
  case Nil
  then show ?case by simp
next
  case (Cons q qs)
  from Cons.prems alloc_Cons obtain t where t: "alloc s = Ok q t" "pool t (qs @ ps)"
    "may_free t = may_free s" by fastforce
  with Cons.IH obtain u where "alloc_n (length qs) t = Ok qs u" "pool u ps"
    "may_free u = may_free t" by blast
  with t show ?case by simp
qed

lemma free_all_pool:
  assumes "pool s ps" and "distinct qs" and "set qs \<inter> set ps = {}" and "\<And>q. q \<in> set qs \<Longrightarrow> may_free s q"
  shows "\<exists>t. free_all qs s = Ok () t \<and> pool t (qs @ ps) \<and> may_free t = may_free s"
  using assms
proof (induction qs)
  case Nil
  then show ?case by simp
next
  case (Cons q qs)
  then obtain t where t: "free_all qs s = Ok () t" "pool t (qs @ ps)" "may_free t = may_free s"
    by auto
  moreover have "q \<notin> set (qs @ ps)" using Cons.prems by auto
  moreover have "may_free t q" using t(3) Cons.prems(4) by simp
  ultimately obtain u where "free q t = Ok () u" "pool u (q # qs @ ps)" "may_free u = may_free t"
    using free_front by blast
  with t show ?case by simp
qed

text \<open>Pages handed out together are distinct and gone from the pool; freeing them undoes it.\<close>

lemma alloc_free_roundtrip:
  assumes "pool s (qs @ ps)"
  shows "\<exists>t u. alloc_n (length qs) s = Ok qs t \<and> pool t ps \<and>
    distinct qs \<and> set qs \<inter> set ps = {} \<and> null \<notin> set qs \<and>
    free_all qs t = Ok () u \<and> pool u (qs @ ps)"
proof -
  have d: "distinct (qs @ ps)" using assms by (rule pool_distinct)
  from alloc_n_pool [OF assms] obtain t where t: "alloc_n (length qs) s = Ok qs t" "pool t ps"
    "may_free t = may_free s" by blast
  have "may_free t q" if "q \<in> set qs" for q
    using t(3) pool_may_free [OF assms, of q] that by simp
  with free_all_pool [OF t(2), of qs] d obtain u where "free_all qs t = Ok () u" "pool u (qs @ ps)"
    by auto
  moreover have "null \<notin> set qs" using pool_may_free [OF assms, of null] by auto
  ultimately show ?thesis using t d by auto
qed

end

definition kpool :: "'z memst_scheme \<Rightarrow> u64 list \<Rightarrow> bool" where
  "kpool s ps \<longleftrightarrow> kmem_inv s ps \<and> lk_free LKmem s"

definition kmay_free :: "'z memst_scheme \<Rightarrow> u64 \<Rightarrow> bool" where
  "kmay_free s p \<longleftrightarrow> 0 < k_end s \<and> page_ok (k_end s) p"

interpretation kpages: page_allocator kalloc kfree 0 kpool kmay_free
proof
  show "\<exists>t. kalloc s = Ok p t \<and> kpool t ps \<and> kmay_free t = kmay_free s"
    if "kpool s (p # ps)" for s :: "'z memst_scheme" and p ps
  proof -
    from that obtain t where "kalloc s = Ok p t" "kmem_inv t ps" "lk_free LKmem t" "k_end t = k_end s"
      using kalloc_inv_Cons [of s p ps] by (auto simp: kpool_def)
    then show ?thesis by (auto simp: kpool_def kmay_free_def fun_eq_iff)
  qed
  show "\<exists>t. kalloc s = Ok 0 t \<and> kpool t [] \<and> kmay_free t = kmay_free s"
    if "kpool s []" for s :: "'z memst_scheme"
    using that kalloc_inv_Nil [of s] by (auto simp: kpool_def kmay_free_def kmem_inv_def fun_eq_iff)
  show "\<exists>t. kfree p s = Ok () t \<and> kpool t (p # ps) \<and> kmay_free t = kmay_free s"
    if "kpool s ps" and "kmay_free s p" and "p \<notin> set ps" for s :: "'z memst_scheme" and p ps
  proof -
    from that obtain t where "kfree p s = Ok () t" "kmem_inv t (p # ps)" "lk_free LKmem t"
      "k_end t = k_end s"
      using kfree_inv [of s ps p] by (auto simp: kpool_def kmay_free_def)
    then show ?thesis by (auto simp: kpool_def kmay_free_def fun_eq_iff)
  qed
  show "distinct ps" if "kpool s ps" for s :: "'z memst_scheme" and ps
    using that by (simp add: kpool_def kmem_inv_def)
  show "kmay_free s p \<and> p \<noteq> 0" if "kpool s ps" and "p \<in> set ps" for s :: "'z memst_scheme" and p ps
    using that page_ok_nonzero [of "k_end s" p] by (auto simp: kpool_def kmem_inv_def kmay_free_def)
qed

text \<open>
  C11: \<open>kalloc\<close> and \<open>kfree\<close> implement a stack of pages. From a free list that
  starts with the pages \<open>qs\<close>, as many calls of \<open>kalloc\<close> return exactly these pages,
  pairwise distinct, none of them null and none still on the free list, which keeps
  its invariant; freeing them again restores the free list.
\<close>

theorem kalloc_kfree_stack:
  fixes s :: "'z memst_scheme"
  assumes "kmem_inv s (qs @ ps)" and "lk_free LKmem s"
  shows "\<exists>t u. kpages.alloc_n (length qs) s = Ok qs t \<and> kmem_inv t ps \<and>
    distinct qs \<and> set qs \<inter> set ps = {} \<and> 0 \<notin> set qs \<and>
    kpages.free_all qs t = Ok () u \<and> kmem_inv u (qs @ ps)"
  using kpages.alloc_free_roundtrip [of s qs ps] assms by (simp add: kpool_def) blast

text \<open>A small kernel for the examples: one free page, locks free, memory zero.\<close>

definition small_mem :: memst where
  "small_mem = \<lparr>lks = idle_lkst, mem = (\<lambda>_. 0), freelist = 0x300000, k_end = 0x210000\<rparr>"

lemma lk_free_idle: "lks s = idle_lkst \<Longrightarrow> lk_free lk s"
  by (simp add: lk_free_def lk_wf_idle) (simp add: idle_lkst_def)

lemma lk_free_small [simp]: "lk_free lk small_mem"
  by (rule lk_free_idle) (simp add: small_mem_def)

lemma read64_zero_mem [simp]: "read64 (\<lambda>_. 0) p = 0"
  by (simp add: read64_def read_bytes_def numeral_eq_Suc upt_rec)

lemma kmem_inv_small [simp]: "kmem_inv small_mem [0x300000]"
  by (simp add: kmem_inv_def small_mem_def page_ok_def aligned_def)

theorem kalloc_kfree_stack_witness:
  "\<exists>t u. kpages.alloc_n 1 small_mem = Ok [0x300000] t \<and> kmem_inv t [] \<and>
     kpages.free_all [0x300000] t = Ok () u \<and> kmem_inv u [0x300000]"
  using kalloc_kfree_stack [of small_mem "[0x300000]" "[]"] by simp

text \<open>
  C15: \<open>kfree\<close> accepts exactly the page-aligned addresses between the end of the
  kernel image and \<open>PHYSTOP\<close> and panics on every other one; on success the page is
  the new head of the free list and no byte outside it changed.
\<close>

theorem kfree_checks:
  assumes "lk_free LKmem s"
  shows "(if page_ok (k_end s) p
          then \<exists>t. kfree p s = Ok () t \<and> freelist t = p \<and> read64 (mem t) p = freelist s \<and>
                 same_outside p (mem s) (mem t)
          else kfree p s = Panic ''kfree'')"
proof (cases "page_ok (k_end s) p")
  case True
  have "same_outside p (mem s) (write64 p (freelist s) (memset p 1 4096 (mem s)))"
    by (rule same_outside_trans [OF same_outside_memset same_outside_write64])
  with True kfree_ok [OF True assms] show ?thesis by simp
next
  case False
  then show ?thesis by (simp add: kfree_panics)
qed

theorem kfree_checks_witness:
  "(\<exists>t. kfree 0x400000 small_mem = Ok () t \<and> freelist t = 0x400000 \<and>
      read64 (mem t) 0x400000 = 0x300000) \<and>
   kfree 0x400008 small_mem = Panic ''kfree''"
  using kfree_checks [OF lk_free_small, where p = "0x400000"]
    kfree_checks [OF lk_free_small, where p = "0x400008"]
  by (auto simp: small_mem_def page_ok_def aligned_def)

section \<open>Initialisation\<close>

definition pages_from :: "u64 \<Rightarrow> nat \<Rightarrow> u64 list" where
  "pages_from p n = map (\<lambda>i. p + of_nat i * PGSIZE) [0..<n]"

lemma pages_from_0 [simp]: "pages_from p 0 = []"
  by (simp add: pages_from_def)

lemma pages_from_Suc: "pages_from p (Suc n) = p # pages_from (p + PGSIZE) n"
proof -
  have "map (\<lambda>i. p + of_nat i * PGSIZE) [0..<Suc n] =
      p # map (\<lambda>i. (p + PGSIZE) + of_nat i * PGSIZE) [0..<n]"
    by (simp add: map_upt_Suc algebra_simps del: upt_Suc)
  then show ?thesis by (simp add: pages_from_def del: upt_Suc)
qed

lemma freerange_loop_pool:
  assumes "kpool s ps" and "aligned p" and "k_end s \<le> p" and "\<forall>q \<in> set ps. q < p"
    and "unat p + 4096 * n \<le> unat PHYSTOP" and "unat PHYSTOP < unat p + 4096 * Suc n"
    and "n < fuel"
  shows "\<exists>t. freerange_loop fuel p PHYSTOP s = Ok () t \<and> kpool t (rev (pages_from p n) @ ps)"
  using assms
proof (induction n arbitrary: p s ps fuel)
  case 0
  then obtain f where f: "fuel = Suc f" by (cases fuel) auto
  have "unat (p + PGSIZE) = unat p + 4096"
    using "0.prems" by (simp add: unat_word_ariths)
  then have "\<not> p + PGSIZE \<le> PHYSTOP"
    using "0.prems" by (simp add: word_le_nat_alt)
  with f "0.prems" show ?case by simp
next
  case (Suc n)
  obtain f where f: "fuel = Suc f" using Suc.prems by (cases fuel) auto
  have next_p: "unat (p + PGSIZE) = unat p + 4096"
    using Suc.prems by (simp add: unat_word_ariths)
  have le: "p + PGSIZE \<le> PHYSTOP" and ok: "page_ok (k_end s) p"
    using Suc.prems next_p by (simp_all add: page_ok_def word_le_nat_alt word_less_nat_alt)
  have "p \<notin> set ps" using Suc.prems(4) by auto
  with Suc.prems ok obtain t where t: "kfree p s = Ok () t" "kmem_inv t (p # ps)" "lk_free LKmem t"
    "k_end t = k_end s"
    using kfree_inv [of s ps p] by (auto simp: kpool_def)
  have "aligned (p + PGSIZE)"
    using Suc.prems(2) next_p by (simp add: aligned_unat)
  moreover have "k_end t \<le> p + PGSIZE" "\<forall>q \<in> set (p # ps). q < p + PGSIZE"
    using Suc.prems t(4) next_p by (auto simp: word_le_nat_alt word_less_nat_alt)
  ultimately obtain u where "freerange_loop f (p + PGSIZE) PHYSTOP t = Ok () u"
    "kpool u (rev (pages_from (p + PGSIZE) n) @ p # ps)"
    using Suc.IH [of t "p # ps" "p + PGSIZE" f] Suc.prems t f next_p by (auto simp: kpool_def)
  with f t le show ?case by (simp add: pages_from_Suc)
qed

text \<open>
  C14: \<open>kinit\<close> terminates and puts exactly the whole pages between the end of the
  kernel image and \<open>PHYSTOP\<close> on the free list, the highest one first.
\<close>

theorem kinit_frees_all:
  assumes "lk_wf (lks s)" and "freelist s = 0" and "0 < k_end s" and "k_end s \<le> PHYSTOP"
  shows "\<exists>t. kinit s = Ok () t \<and>
    kmem_inv t (rev (pages_from (PGROUNDUP (k_end s))
      ((unat PHYSTOP - unat (PGROUNDUP (k_end s))) div 4096)))"
proof -
  let ?s = "s\<lparr>lks := initlock LKmem ''kmem'' (lks s)\<rparr>"
  let ?p = "PGROUNDUP (k_end s)"
  let ?n = "(unat PHYSTOP - unat ?p) div 4096"
  have p: "unat ?p = (unat (k_end s) + 4095) div 4096 * 4096"
    using assms(4) by (intro unat_PGROUNDUP) (simp add: word_le_nat_alt)
  have hi: "unat ?p \<le> unat PHYSTOP" and lo: "k_end s \<le> ?p"
    using assms(4) p by (simp_all add: word_le_nat_alt)
  have "lk_free LKmem ?s"
    using assms(1) by (simp add: lk_free_def initlock_def lk_wf_def)
  then have "kpool ?s []"
    using assms by (simp add: kpool_def kmem_inv_def)
  moreover have "unat ?p + 4096 * ?n \<le> unat PHYSTOP" "unat PHYSTOP < unat ?p + 4096 * Suc ?n"
    using hi by auto
  moreover have "?n < unat PHYSTOP div 4096 + 1"
    by (simp add: div_le_mono less_Suc_eq_le)
  ultimately obtain t where "freerange_loop (unat PHYSTOP div 4096 + 1) ?p PHYSTOP ?s = Ok () t"
    "kpool t (rev (pages_from ?p ?n) @ [])"
    using freerange_loop_pool [of ?s "[]" ?p ?n "unat PHYSTOP div 4096 + 1"] lo by auto
  then show ?thesis
    by (auto simp: kinit_def freerange_def kpool_def)
qed

theorem kinit_frees_all_witness:
  "\<exists>t. kinit (small_mem\<lparr>freelist := 0\<rparr>) = Ok () t \<and>
     kmem_inv t (rev (pages_from 0x210000 32752))"
  using kinit_frees_all [of "small_mem\<lparr>freelist := 0\<rparr>"] lk_wf_idle
  by (simp add: small_mem_def PGROUNDUP_def)

end
