(* ===== verification/Kstate.thy ===== *)
theory Kstate
  imports Kalloc
begin

text \<open>
  The process table and the per-hart control registers: \<open>struct proc\<close>,
  \<open>struct trapframe\<close> and \<open>enum procstate\<close> of \<open>kernel/proc.h\<close>, the globals of
  \<open>kernel/proc.c\<close>, the linker symbols the kernel takes addresses of, and small
  accessors that the other theories share.
\<close>

section \<open>Sizes\<close>

text \<open>From \<open>kernel/param.h\<close>.\<close>

abbreviation (input) NPROC :: nat where "NPROC \<equiv> 64"
abbreviation (input) NOFILE :: nat where "NOFILE \<equiv> 16"
abbreviation (input) NFILE :: nat where "NFILE \<equiv> 100"
abbreviation (input) NINODE :: nat where "NINODE \<equiv> 50"
abbreviation (input) NDEV :: int where "NDEV \<equiv> 10"
abbreviation (input) ROOTDEV :: u32 where "ROOTDEV \<equiv> 1"
abbreviation (input) MAXARG :: nat where "MAXARG \<equiv> 32"
abbreviation (input) MAXOPBLOCKS :: nat where "MAXOPBLOCKS \<equiv> 10"
abbreviation (input) LOGBLOCKS :: nat where "LOGBLOCKS \<equiv> 30"
abbreviation (input) NBUF :: nat where "NBUF \<equiv> 30"
abbreviation (input) MAXPATH :: nat where "MAXPATH \<equiv> 128"

section \<open>Processes\<close>

datatype procstate = UNUSED | USED | SLEEPING | RUNNABLE | RUNNING | ZOMBIE

text \<open>
  A sleep channel is the address of some kernel object, used only as a name. A
  sleep lock is named by the spin lock inside it.
\<close>

datatype chan =
    Cproc nat
  | Csleep lockid
  | Clog
  | Cnread u64
  | Cnwrite u64
  | Cticks
  | Ccons
  | Cuart

text \<open>
  Pointers to processes, files and inodes are indexes into their tables, with
  \<open>None\<close> for null; the page table and the trap frame are physical addresses.
\<close>

record proc =
  p_state :: procstate
  p_chan :: "chan option"
  p_killed :: bool
  p_xstate :: u32
  p_pid :: int
  p_parent :: "nat option"
  p_kstack :: u64
  p_sz :: u64
  p_pagetable :: u64
  p_trapframe :: u64
  p_context :: kcontext
  p_ofile :: "nat \<Rightarrow> nat option"
  p_cwd :: "nat option"
  p_name :: "u8 list"

text \<open>The byte offsets of the fields of \<open>struct trapframe\<close>.\<close>

datatype tfreg =
    TFkernel_satp | TFkernel_sp | TFkernel_trap | TFepc | TFkernel_hartid
  | TFra | TFsp | TFgp | TFtp | TFt0 | TFt1 | TFt2 | TFs0 | TFs1
  | TFa0 | TFa1 | TFa2 | TFa3 | TFa4 | TFa5 | TFa6 | TFa7
  | TFs2 | TFs3 | TFs4 | TFs5 | TFs6 | TFs7 | TFs8 | TFs9 | TFs10 | TFs11
  | TFt3 | TFt4 | TFt5 | TFt6

fun tf_off :: "tfreg \<Rightarrow> u64" where
  "tf_off TFkernel_satp = 0"
| "tf_off TFkernel_sp = 8"
| "tf_off TFkernel_trap = 16"
| "tf_off TFepc = 24"
| "tf_off TFkernel_hartid = 32"
| "tf_off TFra = 40"
| "tf_off TFsp = 48"
| "tf_off TFgp = 56"
| "tf_off TFtp = 64"
| "tf_off TFt0 = 72"
| "tf_off TFt1 = 80"
| "tf_off TFt2 = 88"
| "tf_off TFs0 = 96"
| "tf_off TFs1 = 104"
| "tf_off TFa0 = 112"
| "tf_off TFa1 = 120"
| "tf_off TFa2 = 128"
| "tf_off TFa3 = 136"
| "tf_off TFa4 = 144"
| "tf_off TFa5 = 152"
| "tf_off TFa6 = 160"
| "tf_off TFa7 = 168"
| "tf_off TFs2 = 176"
| "tf_off TFs3 = 184"
| "tf_off TFs4 = 192"
| "tf_off TFs5 = 200"
| "tf_off TFs6 = 208"
| "tf_off TFs7 = 216"
| "tf_off TFs8 = 224"
| "tf_off TFs9 = 232"
| "tf_off TFs10 = 240"
| "tf_off TFs11 = 248"
| "tf_off TFt3 = 256"
| "tf_off TFt4 = 264"
| "tf_off TFt5 = 272"
| "tf_off TFt6 = 280"

section \<open>Control registers and linker symbols\<close>

record csrs =
  csr_satp :: u64
  csr_stvec :: u64
  csr_sepc :: u64
  csr_scause :: u64
  csr_stval :: u64
  csr_stimecmp :: u64

text \<open>Addresses the linker chooses.\<close>

record ksyms =
  sym_etext :: u64
  sym_trampoline :: u64
  sym_uservec :: u64
  sym_userret :: u64
  sym_usertrap :: u64
  sym_kernelvec :: u64
  sym_forkret :: u64

text \<open>
  The second part of the kernel state. \<open>rounds\<close> bounds how often a loop that
  sleeps or polls may come round again before its outcome counts as \<open>Spin\<close>;
  \<open>timer\<close> is the value of the time counter.
\<close>

record procst = memst +
  procs :: "nat \<Rightarrow> proc"
  nextpid :: int
  initproc :: "nat option"
  ticks :: u32
  kernel_pagetable :: u64
  csr :: "nat \<Rightarrow> csrs"
  ksym :: ksyms
  fork_first :: bool
  timer :: u64
  rounds :: nat

section \<open>Accessors\<close>

definition ld64 :: "u64 \<Rightarrow> (u64, 'z memst_scheme) km" where
  "ld64 a = kget (\<lambda>s. read64 (mem s) a)"

definition st64 :: "u64 \<Rightarrow> u64 \<Rightarrow> (unit, 'z memst_scheme) km" where
  "st64 a v = kmod (\<lambda>s. s\<lparr>mem := write64 a v (mem s)\<rparr>)"

definition kmemset :: "u64 \<Rightarrow> u8 \<Rightarrow> u32 \<Rightarrow> (unit, 'z memst_scheme) km" where
  "kmemset dst c n = kmod (\<lambda>s. s\<lparr>mem := memset dst c n (mem s)\<rparr>)"

definition kmemmove :: "u64 \<Rightarrow> u64 \<Rightarrow> u32 \<Rightarrow> (unit, 'z memst_scheme) km" where
  "kmemmove dst src n = kmod (\<lambda>s. s\<lparr>mem := memmove dst src n (mem s)\<rparr>)"

text \<open>Storing bytes that come from outside the modelled memory, for instance from a disk buffer.\<close>

definition st_bytes :: "u64 \<Rightarrow> u8 list \<Rightarrow> (unit, 'z memst_scheme) km" where
  "st_bytes dst bs = kmod (\<lambda>s. s\<lparr>mem := write_bytes dst bs (mem s)\<rparr>)"

definition set_proc :: "nat \<Rightarrow> (proc \<Rightarrow> proc) \<Rightarrow> (unit, 'z procst_scheme) km" where
  "set_proc p f = kmod (\<lambda>s. s\<lparr>procs := (procs s)(p := f (procs s p))\<rparr>)"

definition get_proc :: "nat \<Rightarrow> (proc \<Rightarrow> 'a) \<Rightarrow> ('a, 'z procst_scheme) km" where
  "get_proc p f = kget (\<lambda>s. f (procs s p))"

definition get_tf :: "nat \<Rightarrow> tfreg \<Rightarrow> (u64, 'z procst_scheme) km" where
  "get_tf p r = kget (\<lambda>s. read64 (mem s) (p_trapframe (procs s p) + tf_off r))"

definition set_tf :: "nat \<Rightarrow> tfreg \<Rightarrow> u64 \<Rightarrow> (unit, 'z procst_scheme) km" where
  "set_tf p r v =
     kmod (\<lambda>s. s\<lparr>mem := write64 (p_trapframe (procs s p) + tf_off r) v (mem s)\<rparr>)"

definition set_csr :: "(csrs \<Rightarrow> csrs) \<Rightarrow> (unit, 'z procst_scheme) km" where
  "set_csr f = kmod (\<lambda>s. s\<lparr>csr := (csr s)(cpuid (lks s) := f (csr s (cpuid (lks s))))\<rparr>)"

definition get_csr :: "(csrs \<Rightarrow> 'a) \<Rightarrow> ('a, 'z procst_scheme) km" where
  "get_csr f = kget (\<lambda>s. f (csr s (cpuid (lks s))))"

definition on_lks :: "(lkst \<Rightarrow> lkst) \<Rightarrow> (unit, 'z memst_scheme) km" where
  "on_lks f = kmod (\<lambda>s. s\<lparr>lks := f (lks s)\<rparr>)"

lemmas acc_defs = ld64_def st64_def kmemset_def kmemmove_def st_bytes_def set_proc_def
  get_proc_def get_tf_def set_tf_def set_csr_def get_csr_def on_lks_def

declare acc_defs [kmonad, simp]

text \<open>The kernel dereferences a pointer it has not checked: at null it faults.\<close>

definition deref64 :: "u64 \<Rightarrow> (u64, 'z memst_scheme) km" where
  "deref64 a = (if a = 0 then kpanic ''kerneltrap'' else ld64 a)"

definition myproc :: "(nat option, 'z memst_scheme) km" where
  "myproc =
     kthen (on_lks push_off)
    (kbind (kget (\<lambda>s. cpu_proc (mycpu (lks s)))) (\<lambda>p.
     kthen (klift lks (\<lambda>l s. s\<lparr>lks := l\<rparr>) pop_off)
     (kret p)))"

text \<open>
  Most callers of \<open>myproc\<close> use its fields at once; on a hart without a process the
  null pointer faults.
\<close>

definition cur :: "(nat, 'z memst_scheme) km" where
  "cur = kbind myproc (\<lambda>p. case p of None \<Rightarrow> kpanic ''kerneltrap'' | Some i \<Rightarrow> kret i)"

lemma cpu_proc_push [simp]: "cpu_proc (mycpu (push_off l)) = cpu_proc (mycpu l)"
  by (simp add: push_off_def lk_defs Let_def)

lemma myproc_ok [simp]:
  "lk_wf (lks s) \<Longrightarrow> myproc s = Ok (cpu_proc (mycpu (lks s))) (s\<lparr>lks := touch (lks s)\<rparr>)"
  by (simp add: myproc_def pop_push)

lemma cur_ok [simp]:
  "lk_wf (lks s) \<Longrightarrow> cpu_proc (mycpu (lks s)) = Some p \<Longrightarrow>
   cur s = Ok p (s\<lparr>lks := touch (lks s)\<rparr>)"
  by (simp add: cur_def)

lemma cur_OkD: "cur s = Ok p t \<Longrightarrow> cpu_proc (mycpu (lks s)) = Some p \<and> (\<exists>l. t = s\<lparr>lks := l\<rparr>)"
  by (auto simp: cur_def myproc_def kbind_eq_Ok klift_eq_Ok split: option.splits)

lemma wlp_cur [wlp_intros]:
  "(\<And>p l. cpu_proc (mycpu (lks s)) = Some p \<Longrightarrow> Q p (s\<lparr>lks := l\<rparr>)) \<Longrightarrow> wlp cur Q s"
  by (auto simp: wlp_iff dest!: cur_OkD)

section \<open>What the accessors leave alone\<close>

lemma keeps_mem_acc [keeps_rules]:
  "keeps f (ld64 a)"
  "beyond_mem f \<Longrightarrow> keeps f (st64 a v)"
  "beyond_mem f \<Longrightarrow> keeps f (kmemset a c n)"
  "beyond_mem f \<Longrightarrow> keeps f (kmemmove a b n)"
  "beyond_mem f \<Longrightarrow> keeps f (st_bytes a bs)"
  "beyond_mem f \<Longrightarrow> keeps f (on_lks g)"
  by (simp_all add: keeps_def beyond_mem_def)

lemma keeps_proc_acc [keeps_rules]:
  "keeps f (get_proc p g)"
  "keeps f (get_csr h)"
  "keeps f (get_tf p r)"
  "beyond_mem f \<Longrightarrow> keeps f (set_tf p r v)"
  by (simp_all add: keeps_def beyond_mem_def)

lemma keeps_deref64 [keeps_rules]: "keeps f (deref64 a)"
  unfolding deref64_def by (intro keeps_rules)

lemma keeps_klift_lks [keeps_rules]:
  "beyond_mem f \<Longrightarrow> keeps f (klift lks (\<lambda>l s. s\<lparr>lks := l\<rparr>) m)"
  by (auto simp: keeps_def klift_eq_Ok beyond_mem_def)

lemma keeps_myproc [keeps_rules]: "beyond_mem f \<Longrightarrow> keeps f myproc"
  unfolding myproc_def by (intro keeps_rules)

lemma keeps_cur [keeps_rules]: "beyond_mem f \<Longrightarrow> keeps f cur"
  unfolding cur_def by (intro keeps_rules)

lemma beyond_mem_procst [simp]:
  "beyond_mem procs" "beyond_mem nextpid" "beyond_mem initproc" "beyond_mem ticks"
  "beyond_mem kernel_pagetable" "beyond_mem csr" "beyond_mem ksym" "beyond_mem rounds"
  "beyond_mem k_end"
  by (simp_all add: beyond_mem_def)

end
