(* ===== verification/Rely.thy ===== *)
theory Rely
  imports Kstate
begin

text \<open>
  Invariants under interference. A kernel thread that gives up its hart in \<open>swtch\<close> finds an
  arbitrary state when it goes on; all it may rely on is the invariant. \<open>rg I m Q s\<close> says that
  the run of \<open>m\<close> from \<open>s\<close> satisfies \<open>I\<close> whenever it gives up the hart, and ends with \<open>Q\<close>, for every
  behaviour of the other threads that keeps \<open>I\<close>.
\<close>

primrec rgo :: "('s \<Rightarrow> bool) \<Rightarrow> ('a \<Rightarrow> 's \<Rightarrow> bool) \<Rightarrow> ('a, 's) kout \<Rightarrow> bool" where
  "rgo I Q (Ok a t) = Q a t"
| "rgo I Q (Panic msg) = True"
| "rgo I Q Spin = True"
| "rgo I Q (Swtch t k) = (I t \<and> (\<forall>u. I u \<longrightarrow> rgo I Q (k u)))"

definition rg :: "('s \<Rightarrow> bool) \<Rightarrow> ('a, 's) km \<Rightarrow> ('a \<Rightarrow> 's \<Rightarrow> bool) \<Rightarrow> 's \<Rightarrow> bool" where
  "rg I m Q s = rgo I Q (m s)"

definition maintains :: "('s \<Rightarrow> bool) \<Rightarrow> ('a, 's) km \<Rightarrow> bool" where
  "maintains I m \<longleftrightarrow> (\<forall>s. I s \<longrightarrow> rg I m (\<lambda>_. I) s)"

named_theorems rg_intros \<open>introduction rules for rg\<close>
named_theorems mt_rules \<open>rules for maintains\<close>
named_theorems nosw_rules \<open>routines that do not give up the hart\<close>

section \<open>Rules\<close>

lemma rgo_bind: "rgo I Q (kbindo x f) = rgo I (\<lambda>a t. rgo I Q (f a t)) x"
  by (induction x) auto

lemma rgo_conseq: "rgo I Q x \<Longrightarrow> (\<And>a t. Q a t \<Longrightarrow> R a t) \<Longrightarrow> rgo I R x"
  by (induction x) auto

lemma rg_conseq: "rg I m Q s \<Longrightarrow> (\<And>a t. Q a t \<Longrightarrow> R a t) \<Longrightarrow> rg I m R s"
  unfolding rg_def by (rule rgo_conseq)

lemma rg_bindI [rg_intros]: "rg I m (\<lambda>a. rg I (f a) Q) s \<Longrightarrow> rg I (kbind m f) Q s"
  by (simp add: rg_def [abs_def] kbind_def rgo_bind)

lemma rg_retI [rg_intros]: "Q a s \<Longrightarrow> rg I (kret a) Q s"
  by (simp add: rg_def)

lemma rg_getI [rg_intros]: "Q (f s) s \<Longrightarrow> rg I (kget f) Q s"
  by (simp add: rg_def)

lemma rg_modI [rg_intros]: "Q () (f s) \<Longrightarrow> rg I (kmod f) Q s"
  by (simp add: rg_def)

lemma rg_panicI [rg_intros]: "rg I (kpanic e) Q s"
  by (simp add: rg_def)

lemma rg_ifI [rg_intros]:
  "(b \<Longrightarrow> rg I m Q s) \<Longrightarrow> (\<not> b \<Longrightarrow> rg I n Q s) \<Longrightarrow> rg I (if b then m else n) Q s"
  by simp

lemma rg_whenI [rg_intros]:
  "(b \<Longrightarrow> rg I m Q s) \<Longrightarrow> (\<not> b \<Longrightarrow> Q () s) \<Longrightarrow> rg I (kwhen b m) Q s"
  by (cases b) (simp_all add: rg_def)

lemma rg_maintains: "maintains I m \<Longrightarrow> I s \<Longrightarrow> (\<And>a t. I t \<Longrightarrow> Q a t) \<Longrightarrow> rg I m Q s"
  unfolding maintains_def by (blast intro: rg_conseq)

lemma maintainsI: "(\<And>s. I s \<Longrightarrow> rg I m (\<lambda>_. I) s) \<Longrightarrow> maintains I m"
  by (simp add: maintains_def)

lemma maintainsD: "maintains I m \<Longrightarrow> I s \<Longrightarrow> rg I m (\<lambda>_. I) s"
  by (simp add: maintains_def)

lemma mt_ret [mt_rules]: "maintains I (kret a)"
  by (simp add: maintains_def rg_def)

lemma mt_get [mt_rules]: "maintains I (kget f)"
  by (simp add: maintains_def rg_def)

lemma mt_mod [mt_rules]: "(\<And>s. I s \<Longrightarrow> I (f s)) \<Longrightarrow> maintains I (kmod f)"
  by (simp add: maintains_def rg_def)

lemma mt_kpanic [mt_rules]: "maintains I (kpanic e)"
  by (simp add: maintains_def rg_def)

lemma mt_stop [mt_rules]: "maintains I (\<lambda>s. Panic e)"
  by (simp add: maintains_def rg_def)

lemma mt_spin [mt_rules]: "maintains I (\<lambda>s. Spin)"
  by (simp add: maintains_def rg_def)

lemma mt_bind [mt_rules]:
  "maintains I m \<Longrightarrow> (\<And>a. maintains I (f a)) \<Longrightarrow> maintains I (kbind m f)"
  by (intro maintainsI rg_bindI) (blast intro: rg_maintains maintainsD)

lemma mt_if [mt_rules]:
  "(b \<Longrightarrow> maintains I m) \<Longrightarrow> (\<not> b \<Longrightarrow> maintains I n) \<Longrightarrow> maintains I (if b then m else n)"
  by simp

lemma mt_when [mt_rules]: "(b \<Longrightarrow> maintains I m) \<Longrightarrow> maintains I (kwhen b m)"
  by (cases b) (simp_all add: mt_ret)

lemma mt_case_option [mt_rules]:
  "maintains I m \<Longrightarrow> (\<And>x. maintains I (n x)) \<Longrightarrow> maintains I (case y of None \<Rightarrow> m | Some x \<Rightarrow> n x)"
  by (cases y) simp_all

lemma mt_case_sum [mt_rules]:
  "(\<And>x. maintains I (m x)) \<Longrightarrow> (\<And>x. maintains I (n x)) \<Longrightarrow>
   maintains I (case y of Inl x \<Rightarrow> m x | Inr x \<Rightarrow> n x)"
  by (cases y) simp_all

lemma mt_case_prod [mt_rules]:
  "(\<And>x y. maintains I (m x y)) \<Longrightarrow> maintains I (case z of (x, y) \<Rightarrow> m x y)"
  by (cases z) simp_all

lemma mt_case_list [mt_rules]:
  "maintains I m \<Longrightarrow> (\<And>x xs. maintains I (n x xs)) \<Longrightarrow>
   maintains I (case y of [] \<Rightarrow> m | x # xs \<Rightarrow> n x xs)"
  by (cases y) simp_all

lemma mt_for [mt_rules]: "(\<And>i. maintains I (body i)) \<Longrightarrow> maintains I (kfor is body)"
  by (induction "is") (auto intro!: mt_rules)

lemma mt_for_in: "(\<And>i. i \<in> set is \<Longrightarrow> maintains I (body i)) \<Longrightarrow> maintains I (kfor is body)"
  by (induction "is") (auto intro!: mt_rules)

lemma mt_scan [mt_rules]: "(\<And>i. maintains I (body i)) \<Longrightarrow> maintains I (kscan is body)"
  by (induction "is") (auto intro!: mt_rules)

lemma mt_loop [mt_rules]: "(\<And>i. maintains I (body i)) \<Longrightarrow> maintains I (kloop n body i)"
  by (induction n arbitrary: i) (auto intro!: mt_rules)

lemma mt_state_loop [mt_rules]:
  "(\<And>i. maintains I (body i)) \<Longrightarrow> maintains I (\<lambda>s. kloop (n s) body i s)"
  using mt_loop [of I body] by (simp add: maintains_def rg_def)

lemma mt_if_state [mt_rules]:
  "maintains I m \<Longrightarrow> maintains I n \<Longrightarrow> maintains I (\<lambda>s. if b s then m s else n s)"
  by (simp add: maintains_def rg_def)

lemma mt_read_state: "(\<And>x. maintains I (m x)) \<Longrightarrow> maintains I (\<lambda>s. m (f s) s)"
  by (simp add: maintains_def rg_def)

text \<open>A loop whose result has a property of its own.\<close>

lemma rg_loop:
  assumes "\<And>i s. I s \<Longrightarrow> rg I (body i) (\<lambda>x t. case x of Inl j \<Rightarrow> I t | Inr r \<Rightarrow> Q r t) s" and "I s"
  shows "rg I (kloop n body i) Q s"
  using assms(2)
proof (induction n arbitrary: i s)
  case 0
  then show ?case by (simp add: rg_def)
next
  case (Suc n)
  from assms(1) [OF Suc.prems, of i] show ?case
    unfolding kloop.simps
    by (intro rg_bindI) (erule rg_conseq, auto split: sum.splits intro: Suc.IH rg_retI)
qed

section \<open>Routines that do not give up the hart\<close>

definition nosw :: "('a, 's) km \<Rightarrow> bool" where
  "nosw m \<longleftrightarrow> (\<forall>s t k. m s \<noteq> Swtch t k)"

lemma rg_nosw: "nosw m \<Longrightarrow> wlp m Q s \<Longrightarrow> rg I m Q s"
  by (cases "m s") (simp_all add: rg_def wlp_def nosw_def)

lemma mt_keeps:
  assumes "nosw m" and "keeps f m" and "\<And>s t. f t = f s \<Longrightarrow> I s \<Longrightarrow> I t"
  shows "maintains I m"
  using assms(3) by (intro maintainsI rg_nosw [OF assms(1)] wlp_keeps [OF assms(2)]) metis

lemma keeps_state_loop: "(\<And>i. keeps f (body i)) \<Longrightarrow> keeps f (\<lambda>s. kloop (n s) body i s)"
  using keeps_loop [of f body] by (simp add: keeps_def)

lemma rg_keeps: "nosw m \<Longrightarrow> keeps f m \<Longrightarrow> (\<And>a t. f t = f s \<Longrightarrow> Q a t) \<Longrightarrow> rg I m Q s"
  by (blast intro: rg_nosw wlp_keeps)

lemma wlp_any: "(\<And>a t. Q a t) \<Longrightarrow> wlp m Q s"
  by (simp add: wlp_iff)

lemma mt_bind_val:
  assumes "nosw m" and "maintains I m" and "\<And>s. wlp m (\<lambda>a _. P a) s" and "\<And>a. P a \<Longrightarrow> maintains I (f a)"
  shows "maintains I (kbind m f)"
proof (intro maintainsI rg_bindI rg_nosw [OF assms(1)])
  fix s assume "I s"
  show "wlp m (\<lambda>a. rg I (f a) (\<lambda>_. I)) s"
    using assms(3) [of s] maintainsD [OF assms(2) \<open>I s\<close>] maintainsD [OF assms(4)]
    by (auto simp: wlp_iff rg_def)
qed

lemma nosw_simple [nosw_rules]:
  "nosw (kret a)" "nosw (kget f)" "nosw (kmod g)" "nosw (kpanic e)" "nosw (\<lambda>s. Spin)" "nosw (\<lambda>s. Panic e)"
  by (simp_all add: nosw_def)

lemma nosw_bind [nosw_rules]: "nosw m \<Longrightarrow> (\<And>a. nosw (f a)) \<Longrightarrow> nosw (kbind m f)"
  unfolding nosw_def
proof (intro allI)
  fix s t k
  assume m: "\<forall>s t k. m s \<noteq> Swtch t k" and f: "\<And>a. \<forall>s t k. f a s \<noteq> Swtch t k"
  show "kbind m f s \<noteq> Swtch t k" using m f by (cases "m s") simp_all
qed

lemma nosw_if [nosw_rules]:
  "(b \<Longrightarrow> nosw m) \<Longrightarrow> (\<not> b \<Longrightarrow> nosw n) \<Longrightarrow> nosw (if b then m else n)"
  by simp

lemma nosw_if_state [nosw_rules]: "nosw m \<Longrightarrow> nosw n \<Longrightarrow> nosw (\<lambda>s. if b s then m s else n s)"
  by (simp add: nosw_def)

lemma nosw_when [nosw_rules]: "nosw m \<Longrightarrow> nosw (kwhen b m)"
  by (cases b) (simp_all add: nosw_simple)

lemma nosw_case [nosw_rules]:
  "nosw m \<Longrightarrow> (\<And>x. nosw (n x)) \<Longrightarrow> nosw (case y of None \<Rightarrow> m | Some x \<Rightarrow> n x)"
  "(\<And>x. nosw (l x)) \<Longrightarrow> (\<And>x. nosw (r x)) \<Longrightarrow> nosw (case z of Inl x \<Rightarrow> l x | Inr x \<Rightarrow> r x)"
  "(\<And>x y. nosw (p x y)) \<Longrightarrow> nosw (case w of (x, y) \<Rightarrow> p x y)"
  "nosw m \<Longrightarrow> (\<And>x xs. nosw (c x xs)) \<Longrightarrow> nosw (case v of [] \<Rightarrow> m | x # xs \<Rightarrow> c x xs)"
  by (simp_all split: option.split sum.split prod.split list.split)

lemma nosw_for [nosw_rules]: "(\<And>i. nosw (body i)) \<Longrightarrow> nosw (kfor is body)"
  by (induction "is") (auto intro!: nosw_rules)

lemma nosw_scan [nosw_rules]: "(\<And>i. nosw (body i)) \<Longrightarrow> nosw (kscan is body)"
  by (induction "is") (auto intro!: nosw_rules)

lemma nosw_loop [nosw_rules]: "(\<And>i. nosw (body i)) \<Longrightarrow> nosw (kloop n body i)"
  by (induction n arbitrary: i) (auto intro!: nosw_rules)

lemma nosw_state_loop [nosw_rules]:
  "(\<And>i. nosw (body i)) \<Longrightarrow> nosw (\<lambda>s. kloop (n s) body i s)"
  using nosw_loop [of body] by (simp add: nosw_def)

lemma nosw_pop_off: "nosw pop_off"
  by (simp add: nosw_def pop_off_def Let_def)

lemma nosw_klift [nosw_rules]: "nosw m \<Longrightarrow> nosw (klift get put m)"
  unfolding nosw_def
proof (intro allI)
  fix s t k
  assume "\<forall>s t k. m s \<noteq> Swtch t k"
  then show "klift get put m s \<noteq> Swtch t k" by (cases "m (get s)") (simp_all add: klift_def)
qed

lemma nosw_lk [nosw_rules]: "nosw (acquire_lk lk)" "nosw (release_lk lk)" "nosw pop_off"
  using nosw_pop_off by (auto simp: nosw_def acquire_lk_def release_lk_def Let_def)

lemma nosw_acquire [nosw_rules]: "nosw (acquire lk)" "nosw (release lk)"
  unfolding acquire_def release_def by (intro nosw_rules)+

lemma nosw_acc [nosw_rules]:
  "nosw (ld64 a)" "nosw (st64 a v)" "nosw (kmemset a c n)" "nosw (kmemmove a b n)" "nosw (st_bytes a bs)"
  "nosw (set_proc p f)" "nosw (get_proc p g)" "nosw (get_tf p r)" "nosw (set_tf p r w)" "nosw (set_csr h)"
  "nosw (get_csr j)" "nosw (on_lks q)" "nosw (deref64 a)"
  by (simp_all add: nosw_simple deref64_def)

lemma nosw_myproc [nosw_rules]: "nosw myproc"
  unfolding myproc_def by (intro nosw_rules)

lemma nosw_cur [nosw_rules]: "nosw cur"
  unfolding cur_def by (intro nosw_rules)

lemma rg_acquire [rg_intros]: "(\<And>l. Q () (s\<lparr>lks := l\<rparr>)) \<Longrightarrow> rg I (acquire lk) Q s"
  by (rule rg_nosw [OF nosw_acquire(1)]) (rule wlp_acquire)

lemma rg_release [rg_intros]: "(\<And>l. Q () (s\<lparr>lks := l\<rparr>)) \<Longrightarrow> rg I (release lk) Q s"
  by (rule rg_nosw [OF nosw_acquire(2)]) (rule wlp_release)

end
