(* ===== verification/Vm.thy ===== *)
theory Vm
  imports Kstate
begin

text \<open>
  Virtual memory, \<open>kernel/vm.c\<close>: Sv39 page tables in physical memory. The theory
  models the page-table walk and everything built on it, gives page tables a
  meaning as a map from virtual pages to entries, and shows that \<open>walk\<close> and
  \<open>mappages\<close> implement lookup and update of that map.
\<close>

section \<open>Page-table entries\<close>

text \<open>From \<open>kernel/riscv.h\<close> and \<open>kernel/memlayout.h\<close>.\<close>

abbreviation MAXVA :: u64 where "MAXVA \<equiv> 0x4000000000"
abbreviation PTE_V :: u64 where "PTE_V \<equiv> 1"
abbreviation PTE_R :: u64 where "PTE_R \<equiv> 2"
abbreviation PTE_W :: u64 where "PTE_W \<equiv> 4"
abbreviation PTE_X :: u64 where "PTE_X \<equiv> 8"
abbreviation PTE_U :: u64 where "PTE_U \<equiv> 0x10"
abbreviation PTE_A :: u64 where "PTE_A \<equiv> 0x40"
abbreviation PTE_D :: u64 where "PTE_D \<equiv> 0x80"
abbreviation PTE_THEAD_MAEE :: u64 where "PTE_THEAD_MAEE \<equiv> 0x7000000000000000"
abbreviation PTE_THEAD_SO :: u64 where "PTE_THEAD_SO \<equiv> 0x8000000000000000"
abbreviation PTE_IO :: u64 where "PTE_IO \<equiv> PTE_R OR PTE_W OR PTE_THEAD_SO"
abbreviation PPN_MASK :: u64 where "PPN_MASK \<equiv> 0x003FFFFFFFFFFC00"

abbreviation UART0 :: u64 where "UART0 \<equiv> 0x91400000"
abbreviation PLIC :: u64 where "PLIC \<equiv> 0x0f00000000"
abbreviation TRAMPOLINE :: u64 where "TRAMPOLINE \<equiv> MAXVA - PGSIZE"
abbreviation TRAPFRAME :: u64 where "TRAPFRAME \<equiv> TRAMPOLINE - PGSIZE"

definition KSTACK :: "nat \<Rightarrow> u64" where
  "KSTACK p = TRAMPOLINE - (of_nat p + 1) * 2 * PGSIZE"

definition PA2PTE :: "u64 \<Rightarrow> u64" where
  "PA2PTE pa = push_bit 10 (drop_bit 12 pa)"

definition PTE2PA :: "u64 \<Rightarrow> u64" where
  "PTE2PA pte = push_bit 12 (drop_bit 10 pte) AND 0x00FFFFFFFFFFFF00"

definition PX :: "nat \<Rightarrow> u64 \<Rightarrow> u64" where
  "PX level va = drop_bit (12 + 9 * level) va AND 0x1FF"

definition MAKE_SATP :: "u64 \<Rightarrow> u64" where
  "MAKE_SATP pt = 0x8000000000000000 OR drop_bit 12 pt"

definition has :: "u64 \<Rightarrow> u64 \<Rightarrow> bool" where
  "has pte flag \<longleftrightarrow> pte AND flag \<noteq> 0"

section \<open>The operations of vm.c\<close>

text \<open>The levels that are left to descend; at level 0 the entry itself is the result.\<close>

primrec walk_from :: "nat \<Rightarrow> u64 \<Rightarrow> u64 \<Rightarrow> bool \<Rightarrow> (u64, 'z memst_scheme) km" where
  "walk_from 0 pt va alloc = kret (pt + 8 * PX 0 va)"
| "walk_from (Suc l) pt va alloc =
     kbind (ld64 (pt + 8 * PX (Suc l) va)) (\<lambda>pte.
       if has pte PTE_V then walk_from l (PTE2PA pte) va alloc
       else if \<not> alloc then kret 0
       else kbind kalloc (\<lambda>pg.
         if pg = 0 then kret 0
         else kthen (kmemset pg 0 4096)
             (kthen (st64 (pt + 8 * PX (Suc l) va) (PA2PTE pg OR PTE_V))
              (walk_from l pg va alloc))))"

definition walk :: "u64 \<Rightarrow> u64 \<Rightarrow> bool \<Rightarrow> (u64, 'z memst_scheme) km" where
  "walk pt va alloc = (if MAXVA \<le> va then kpanic ''walk'' else walk_from 2 pt va alloc)"

definition mappages_body ::
  "u64 \<Rightarrow> u64 \<Rightarrow> u64 \<Rightarrow> u64 \<times> u64 \<Rightarrow> (u64 \<times> u64 + int, 'z memst_scheme) km" where
  "mappages_body pt perm lst = (\<lambda>(a, pa).
     kbind (walk pt a True) (\<lambda>pte.
       if pte = 0 then kret (Inr (- 1))
       else kbind (ld64 pte) (\<lambda>e.
         if has e PTE_V then kpanic ''mappages: remap''
         else kthen (st64 pte (PA2PTE pa OR perm OR PTE_V))
           (kret (if a = lst then Inr 0 else Inl (a + PGSIZE, pa + PGSIZE))))))"

definition mappages :: "u64 \<Rightarrow> u64 \<Rightarrow> u64 \<Rightarrow> u64 \<Rightarrow> u64 \<Rightarrow> (int, 'z memst_scheme) km" where
  "mappages pt va sz pa perm =
     (if va mod PGSIZE \<noteq> 0 then kpanic ''mappages: va not aligned''
      else if sz mod PGSIZE \<noteq> 0 then kpanic ''mappages: size not aligned''
      else if sz = 0 then kpanic ''mappages: size''
      else kloop (unat sz div 4096 + 1) (mappages_body pt perm (va + sz - PGSIZE)) (va, pa))"

definition kvmmap :: "u64 \<Rightarrow> u64 \<Rightarrow> u64 \<Rightarrow> u64 \<Rightarrow> u64 \<Rightarrow> (unit, 'z memst_scheme) km" where
  "kvmmap kpgtbl va pa sz perm =
     kbind (mappages kpgtbl va sz pa perm) (\<lambda>r.
       if r \<noteq> 0 then kpanic ''kvmmap'' else kret ())"

definition proc_mapstacks :: "u64 \<Rightarrow> (unit, 'z procst_scheme) km" where
  "proc_mapstacks kpgtbl =
     kfor [0..<NPROC] (\<lambda>p.
       kbind kalloc (\<lambda>pa.
         if pa = 0 then kpanic ''kalloc''
         else kthen (set_proc p (\<lambda>q. q\<lparr>p_kstack := KSTACK p\<rparr>))
           (kvmmap kpgtbl (KSTACK p) pa PGSIZE
              (PTE_R OR PTE_W OR PTE_THEAD_MAEE OR PTE_A OR PTE_D))))"

definition kvmmake :: "(u64, 'z procst_scheme) km" where
  "kvmmake =
     kbind kalloc (\<lambda>kpgtbl.
     kthen (kmemset kpgtbl 0 4096)
    (kthen (kvmmap kpgtbl UART0 UART0 PGSIZE (PTE_R OR PTE_W OR PTE_A OR PTE_D OR PTE_IO))
    (kthen (kvmmap kpgtbl PLIC PLIC 0x400000 (PTE_R OR PTE_W OR PTE_A OR PTE_D OR PTE_IO))
    (kbind (kget (\<lambda>s. sym_etext (ksym s))) (\<lambda>etext.
     kthen (kvmmap kpgtbl KERNBASE KERNBASE (etext - KERNBASE)
              (PTE_R OR PTE_X OR PTE_A OR PTE_THEAD_MAEE))
    (kthen (kvmmap kpgtbl etext etext (PHYSTOP - etext)
              (PTE_R OR PTE_W OR PTE_A OR PTE_D OR PTE_THEAD_MAEE))
    (kbind (kget (\<lambda>s. sym_trampoline (ksym s))) (\<lambda>trampoline.
     kthen (kvmmap kpgtbl TRAMPOLINE trampoline PGSIZE (PTE_R OR PTE_X OR PTE_A))
    (kthen (proc_mapstacks kpgtbl)
     (kret kpgtbl))))))))))"

definition kvminit :: "(unit, 'z procst_scheme) km" where
  "kvminit = kbind kvmmake (\<lambda>pt. kmod (\<lambda>s. s\<lparr>kernel_pagetable := pt\<rparr>))"

definition kvminithart :: "(unit, 'z procst_scheme) km" where
  "kvminithart =
     kbind (kget kernel_pagetable) (\<lambda>pt. set_csr (\<lambda>c. c\<lparr>csr_satp := MAKE_SATP pt\<rparr>))"

definition uvmunmap :: "u64 \<Rightarrow> u64 \<Rightarrow> u64 \<Rightarrow> bool \<Rightarrow> (unit, 'z memst_scheme) km" where
  "uvmunmap pt va npages do_free =
     (if va mod PGSIZE \<noteq> 0 then kpanic ''uvmunmap: not aligned''
      else kloop (unat npages + 1) (\<lambda>a.
        if a < va + npages * PGSIZE then
          kbind (walk pt a False) (\<lambda>pte.
            if pte = 0 then kret (Inl (a + PGSIZE))
            else kbind (ld64 pte) (\<lambda>e.
              if \<not> has e PTE_V then kret (Inl (a + PGSIZE))
              else kthen (kwhen do_free (kfree (PTE2PA e)))
                  (kthen (st64 pte 0)
                   (kret (Inl (a + PGSIZE))))))
        else kret (Inr ())) va)"

text \<open>
  The recursion of \<open>freewalk\<close> follows the entries it reads; the first argument
  bounds its depth. There are fewer than 33280 physical pages below \<open>PHYSTOP\<close>.
\<close>

primrec freewalk_at :: "nat \<Rightarrow> u64 \<Rightarrow> (unit, 'z memst_scheme) km" where
  "freewalk_at 0 pt = (\<lambda>s. Spin)"
| "freewalk_at (Suc d) pt =
     kthen (kfor [0..<512] (\<lambda>i.
       kbind (ld64 (pt + 8 * of_nat i)) (\<lambda>pte.
         if has pte PTE_V \<and> \<not> has pte (PTE_R OR PTE_W OR PTE_X) then
           kthen (freewalk_at d (PTE2PA pte)) (st64 (pt + 8 * of_nat i) 0)
         else if has pte PTE_V then kpanic ''freewalk: leaf''
         else kret ())))
     (kfree pt)"

definition freewalk :: "u64 \<Rightarrow> (unit, 'z memst_scheme) km" where
  "freewalk pt = freewalk_at 33280 pt"

definition uvmfree :: "u64 \<Rightarrow> u64 \<Rightarrow> (unit, 'z memst_scheme) km" where
  "uvmfree pt sz =
     kthen (kwhen (0 < sz) (uvmunmap pt 0 (PGROUNDUP sz div PGSIZE) True)) (freewalk pt)"

definition uvmcreate :: "(u64, 'z memst_scheme) km" where
  "uvmcreate = kbind kalloc (\<lambda>pt.
     if pt = 0 then kret 0 else kthen (kmemset pt 0 4096) (kret pt))"

text \<open>\<open>npages\<close> is an \<open>int\<close>: the count is cut to 32 bits and sign-extended again.\<close>

definition uvmdealloc :: "u64 \<Rightarrow> u64 \<Rightarrow> u64 \<Rightarrow> (u64, 'z memst_scheme) km" where
  "uvmdealloc pt oldsz newsz =
     (if oldsz \<le> newsz then kret oldsz
      else kthen (kwhen (PGROUNDUP newsz < PGROUNDUP oldsz)
             (let npages = ucast ((PGROUNDUP oldsz - PGROUNDUP newsz) div PGSIZE) :: u32
              in uvmunmap pt (PGROUNDUP newsz) (scast npages) True))
        (kret newsz))"

definition uvmalloc :: "u64 \<Rightarrow> u64 \<Rightarrow> u64 \<Rightarrow> u64 \<Rightarrow> (u64, 'z memst_scheme) km" where
  "uvmalloc pt oldsz0 newsz xperm =
     (if newsz < oldsz0 then kret oldsz0
      else
        (let oldsz = PGROUNDUP oldsz0
         in kloop (unat newsz div 4096 + 2) (\<lambda>a.
              if a < newsz then
                kbind kalloc (\<lambda>pg.
                  if pg = 0 then kbind (uvmdealloc pt a oldsz) (\<lambda>_. kret (Inr 0))
                  else
                    kthen (kmemset pg 0 4096)
                   (kbind (mappages pt a PGSIZE pg
                            (PTE_R OR PTE_U OR xperm OR PTE_A OR PTE_D OR PTE_THEAD_MAEE)) (\<lambda>r.
                      if r \<noteq> 0 then
                        kthen (kfree pg)
                       (kbind (uvmdealloc pt a oldsz) (\<lambda>_. kret (Inr 0)))
                      else kret (Inl (a + PGSIZE)))))
              else kret (Inr newsz)) oldsz))"

definition uvminit :: "u64 \<Rightarrow> u8 list \<Rightarrow> (unit, 'z memst_scheme) km" where
  "uvminit pt src =
     (if 4096 \<le> length src then kpanic ''uvminit: more than a page''
      else kbind kalloc (\<lambda>pg.
        kthen (kmemset pg 0 4096)
       (kbind (mappages pt 0 PGSIZE pg
                (PTE_W OR PTE_R OR PTE_X OR PTE_U OR PTE_A OR PTE_D OR PTE_THEAD_MAEE)) (\<lambda>_.
        st_bytes pg src))))"

definition uvmclear :: "u64 \<Rightarrow> u64 \<Rightarrow> (unit, 'z memst_scheme) km" where
  "uvmclear pt va =
     kbind (walk pt va False) (\<lambda>pte.
       if pte = 0 then kpanic ''uvmclear''
       else kbind (ld64 pte) (\<lambda>e. st64 pte (e AND NOT PTE_U)))"

definition uvmcopy :: "u64 \<Rightarrow> u64 \<Rightarrow> u64 \<Rightarrow> (int, 'z memst_scheme) km" where
  "uvmcopy old new sz =
     kloop (unat sz div 4096 + 2) (\<lambda>i.
       if i < sz then
         kbind (walk old i False) (\<lambda>pte.
           if pte = 0 then kpanic ''uvmcopy: pte should exist''
           else kbind (ld64 pte) (\<lambda>e.
             if \<not> has e PTE_V then kpanic ''uvmcopy: page not present''
             else kbind kalloc (\<lambda>pg.
               if pg = 0 then
                 kthen (uvmunmap new 0 (i div PGSIZE) True) (kret (Inr (- 1)))
               else
                 kthen (kmemmove pg (PTE2PA e) 4096)
                (kbind (mappages new i PGSIZE pg (e AND NOT PPN_MASK)) (\<lambda>r.
                   if r \<noteq> 0 then
                     kthen (kfree pg)
                    (kthen (uvmunmap new 0 (i div PGSIZE) True) (kret (Inr (- 1))))
                   else kret (Inl (i + PGSIZE)))))))
       else kret (Inr 0)) 0"

definition walkaddr :: "u64 \<Rightarrow> u64 \<Rightarrow> (u64, 'z memst_scheme) km" where
  "walkaddr pt va =
     (if MAXVA \<le> va then kret 0
      else kbind (walk pt va False) (\<lambda>pte.
        if pte = 0 then kret 0
        else kbind (ld64 pte) (\<lambda>e.
          if \<not> has e PTE_V then kret 0
          else if \<not> has e PTE_U then kret 0
          else kret (PTE2PA e))))"

definition ismapped :: "u64 \<Rightarrow> u64 \<Rightarrow> (bool, 'z memst_scheme) km" where
  "ismapped pt va =
     kbind (walk pt va False) (\<lambda>pte.
       if pte = 0 then kret False
       else kbind (ld64 pte) (\<lambda>e. if has e PTE_V then kret True else kret False))"

definition vmfault :: "u64 \<Rightarrow> u64 \<Rightarrow> (u64, 'z procst_scheme) km" where
  "vmfault pt va =
     kbind cur (\<lambda>p.
     kbind (get_proc p p_sz) (\<lambda>sz.
       if sz \<le> va then kret 0
       else
         (let va0 = PGROUNDDOWN va
          in kbind (ismapped pt va0) (\<lambda>mapped.
               if mapped then kret 0
               else kbind kalloc (\<lambda>pg.
                 if pg = 0 then kret 0
                 else
                   kthen (kmemset pg 0 4096)
                  (kbind (get_proc p p_pagetable) (\<lambda>ppt.
                   kbind (mappages ppt va0 PGSIZE pg
                           (PTE_W OR PTE_U OR PTE_R OR PTE_A OR PTE_D OR PTE_THEAD_MAEE)) (\<lambda>r.
                     if r \<noteq> 0 then kthen (kfree pg) (kret 0)
                     else kret pg))))))))"

text \<open>Copying between the kernel and user memory; kernel buffers are lists of bytes.\<close>

definition user_page :: "u64 \<Rightarrow> u64 \<Rightarrow> (u64, 'z procst_scheme) km" where
  "user_page pt va0 =
     kbind (walkaddr pt va0) (\<lambda>pa. if pa = 0 then vmfault pt va0 else kret pa)"

definition copyout :: "u64 \<Rightarrow> u64 \<Rightarrow> u8 list \<Rightarrow> (int, 'z procst_scheme) km" where
  "copyout pt dstva0 src0 =
     kloop (length src0 + 1) (\<lambda>(dstva, src).
       if src = [] then kret (Inr 0)
       else
         (let va0 = PGROUNDDOWN dstva
          in if MAXVA \<le> va0 then kret (Inr (- 1))
             else kbind (user_page pt va0) (\<lambda>pa0.
               if pa0 = 0 then kret (Inr (- 1))
               else kbind (walk pt va0 False) (\<lambda>pte.
                    kbind (deref64 pte) (\<lambda>e.
                      if \<not> has e PTE_W then kret (Inr (- 1))
                      else
                        (let n = min (4096 - unat (dstva - va0)) (length src)
                         in kthen (st_bytes (pa0 + (dstva - va0)) (take n src))
                            (kret (Inl (va0 + PGSIZE, drop n src)))))))))
       (dstva0, src0)"

text \<open>The result is the return value with the bytes stored at \<open>dst\<close>, also when it fails half way.\<close>

definition copyin :: "u64 \<Rightarrow> u64 \<Rightarrow> u64 \<Rightarrow> (int \<times> u8 list, 'z procst_scheme) km" where
  "copyin pt srcva0 len0 =
     kloop (unat len0 + 1) (\<lambda>(srcva, len, dst).
       if len = 0 then kret (Inr (0, dst))
       else
         (let va0 = PGROUNDDOWN srcva
          in kbind (user_page pt va0) (\<lambda>pa0.
               if pa0 = 0 then kret (Inr (- 1, dst))
               else
                 (let n = min (PGSIZE - (srcva - va0)) len
                  in kbind (kget (\<lambda>s. read_bytes (mem s) (pa0 + (srcva - va0)) (unat n))) (\<lambda>bs.
                     kret (Inl (va0 + PGSIZE, len - n, dst @ bs)))))))
       (srcva0, len0, [])"

text \<open>The inner loop of \<open>copyinstr\<close>: bytes up to a null byte or the end of the page.\<close>

primrec str_bytes :: "pmem \<Rightarrow> u64 \<Rightarrow> nat \<Rightarrow> u8 list \<times> bool" where
  "str_bytes m p 0 = ([], False)"
| "str_bytes m p (Suc n) =
     (if m p = 0 then ([0], True)
      else case str_bytes m (p + 1) n of (bs, got_null) \<Rightarrow> (m p # bs, got_null))"

definition copyinstr :: "u64 \<Rightarrow> u64 \<Rightarrow> u64 \<Rightarrow> (int \<times> u8 list, 'z memst_scheme) km" where
  "copyinstr pt srcva0 max0 =
     kloop (unat max0 + 1) (\<lambda>(srcva, mx, dst, got_null).
       if got_null then kret (Inr (0, dst))
       else if mx = 0 then kret (Inr (- 1, dst))
       else
         (let va0 = PGROUNDDOWN srcva
          in if MAXVA \<le> va0 then kret (Inr (- 1, dst))
             else kbind (walk pt va0 False) (\<lambda>pte.
               if pte = 0 then kret (Inr (- 1, dst))
               else kbind (ld64 pte) (\<lambda>e.
                 if \<not> has e PTE_V \<or> \<not> has e PTE_U then kret (Inr (- 1, dst))
                 else
                   (let n = min (PGSIZE - (srcva - va0)) mx
                    in kbind (kget (\<lambda>s. str_bytes (mem s) (PTE2PA e + (srcva - va0)) (unat n)))
                       (\<lambda>(bs, g). kret (Inl (va0 + PGSIZE,
                          mx - of_nat (length bs - (if g then 1 else 0)), dst @ bs, g))))))))
       (srcva0, max0, [], False)"

section \<open>What the memory routines leave alone\<close>

lemma keeps_walk_from [keeps_rules]: "beyond_mem f \<Longrightarrow> keeps f (walk_from l pt va alloc)"
  by (induction l arbitrary: pt) (auto intro!: keeps_rules)

lemma keeps_walk [keeps_rules]: "beyond_mem f \<Longrightarrow> keeps f (walk pt va alloc)"
  unfolding walk_def by (intro keeps_rules)

lemma keeps_mappages [keeps_rules]: "beyond_mem f \<Longrightarrow> keeps f (mappages pt va sz pa perm)"
  unfolding mappages_def mappages_body_def by (intro keeps_rules)

lemma keeps_uvmunmap [keeps_rules]: "beyond_mem f \<Longrightarrow> keeps f (uvmunmap pt va n d)"
  unfolding uvmunmap_def by (intro keeps_rules)

lemma keeps_freewalk_at [keeps_rules]: "beyond_mem f \<Longrightarrow> keeps f (freewalk_at d pt)"
  by (induction d arbitrary: pt) (auto intro!: keeps_rules)

lemma keeps_uvmfree [keeps_rules]: "beyond_mem f \<Longrightarrow> keeps f (uvmfree pt sz)"
  unfolding uvmfree_def freewalk_def by (intro keeps_rules)

lemma keeps_uvmcreate [keeps_rules]: "beyond_mem f \<Longrightarrow> keeps f uvmcreate"
  unfolding uvmcreate_def by (intro keeps_rules)

lemma keeps_uvmdealloc [keeps_rules]: "beyond_mem f \<Longrightarrow> keeps f (uvmdealloc pt a b)"
  unfolding uvmdealloc_def Let_def by (intro keeps_rules)

lemma keeps_uvmalloc [keeps_rules]: "beyond_mem f \<Longrightarrow> keeps f (uvmalloc pt a b x)"
  unfolding uvmalloc_def Let_def by (intro keeps_rules)

lemma keeps_uvmcopy [keeps_rules]: "beyond_mem f \<Longrightarrow> keeps f (uvmcopy a b n)"
  unfolding uvmcopy_def by (intro keeps_rules)

lemma keeps_uvmclear [keeps_rules]: "beyond_mem f \<Longrightarrow> keeps f (uvmclear pt va)"
  unfolding uvmclear_def by (intro keeps_rules)

lemma keeps_walkaddr [keeps_rules]: "beyond_mem f \<Longrightarrow> keeps f (walkaddr pt va)"
  unfolding walkaddr_def by (intro keeps_rules)

lemma keeps_ismapped [keeps_rules]: "beyond_mem f \<Longrightarrow> keeps f (ismapped pt va)"
  unfolding ismapped_def by (intro keeps_rules)

lemma keeps_vmfault [keeps_rules]: "beyond_mem f \<Longrightarrow> keeps f (vmfault pt va)"
  unfolding vmfault_def Let_def by (intro keeps_rules)

lemma keeps_copyout [keeps_rules]: "beyond_mem f \<Longrightarrow> keeps f (copyout pt va bs)"
  unfolding copyout_def user_page_def Let_def by (intro keeps_rules)

lemma keeps_copyin [keeps_rules]: "beyond_mem f \<Longrightarrow> keeps f (copyin pt va n)"
  unfolding copyin_def user_page_def Let_def by (intro keeps_rules)

lemma keeps_copyinstr [keeps_rules]: "beyond_mem f \<Longrightarrow> keeps f (copyinstr pt va n)"
  unfolding copyinstr_def Let_def by (intro keeps_rules)

section \<open>Encoding of entries\<close>

lemma bit_PTE2PA: "bit (PTE2PA e) k \<longleftrightarrow> 12 \<le> k \<and> k < 56 \<and> bit e (k - 2)"
proof -
  have "(0x00FFFFFFFFFFFF00 :: u64) = push_bit 8 (mask 48)"
    by (simp add: mask_eq_exp_minus_1)
  then have "PTE2PA e = push_bit 12 (drop_bit 10 e) AND push_bit 8 (mask 48)"
    by (simp only: PTE2PA_def)
  then show ?thesis by (auto simp: bit_simps)
qed

lemma bit_PA2PTE: "bit (PA2PTE a) k \<longleftrightarrow> 10 \<le> k \<and> k < 62 \<and> bit a (k + 2)"
  using bit_imp_le_length [of a "k + 2"] by (auto simp: PA2PTE_def bit_simps)

lemma PPN_MASK_eq: "PPN_MASK = push_bit 10 (mask 44)"
  by (simp add: mask_eq_exp_minus_1)

lemma no_ppn_bit:
  assumes "p AND PPN_MASK = 0" and "10 \<le> k" and "k < 54"
  shows "\<not> bit p k"
proof -
  have "\<not> bit (p AND push_bit 10 (mask 44)) k"
    using assms(1) unfolding PPN_MASK_eq by simp
  with assms(2,3) show ?thesis by (auto simp: bit_simps)
qed

text \<open>An address that an entry can hold: page-aligned, below \<open>2 ^ 56\<close>.\<close>

definition pa_ok :: "u64 \<Rightarrow> bool" where
  "pa_ok a \<longleftrightarrow> aligned a \<and> a < 2 ^ 56"

lemma pa_ok_bits: "pa_ok a \<Longrightarrow> bit a k \<Longrightarrow> 12 \<le> k \<and> k < 56"
proof -
  assume a: "pa_ok a" and b: "bit a k"
  have "take_bit 12 a = 0"
    using a by (simp add: pa_ok_def aligned_def take_bit_eq_mod)
  with b have "12 \<le> k"
    by (metis bit_take_bit_iff bit_0_eq bot_apply bot_bool_def not_le)
  moreover have "take_bit 56 a = a"
    using a by (simp add: pa_ok_def take_bit_eq_mod word_mod_less_divisor mod_word_self
      word_less_nat_alt unat_mod_distrib word_unat_eq_iff)
  with b have "k < 56"
    by (metis bit_take_bit_iff)
  ultimately show ?thesis by simp
qed

lemma PTE2PA_PA2PTE:
  assumes "pa_ok a" and "perm AND PPN_MASK = 0"
  shows "PTE2PA (PA2PTE a OR perm OR PTE_V) = a"
proof (rule bit_word_eqI)
  fix k
  show "bit (PTE2PA (PA2PTE a OR perm OR PTE_V)) k = bit a k"
  proof (cases "12 \<le> k \<and> k < 56")
    case True
    then have "k - 2 + 2 = k" "10 \<le> k - 2" "k - 2 < 54" by linarith+
    with True no_ppn_bit [OF assms(2), of "k - 2"] show ?thesis
      by (auto simp: bit_PTE2PA bit_PA2PTE bit_or_iff bit_1_iff simp del: add_2_eq_Suc')
  next
    case False
    with pa_ok_bits [OF assms(1), of k] show ?thesis by (auto simp: bit_PTE2PA)
  qed
qed

lemma pte_flags:
  "(PA2PTE a OR perm OR PTE_V) AND NOT PPN_MASK = (perm OR PTE_V) AND NOT PPN_MASK"
  if "pa_ok a"
proof (rule bit_word_eqI)
  fix k :: nat
  have "\<not> (bit (PA2PTE a) k \<and> \<not> bit (push_bit 10 (mask 44) :: u64) k)"
    if "k < 64"
    using pa_ok_bits [OF \<open>pa_ok a\<close>, of "k + 2"] that by (auto simp: bit_PA2PTE bit_simps)
  then show "k < LENGTH(64) \<Longrightarrow>
      bit ((PA2PTE a OR perm OR PTE_V) AND NOT PPN_MASK) k =
      bit ((perm OR PTE_V) AND NOT PPN_MASK) k"
    unfolding PPN_MASK_eq bit_and_iff bit_not_iff bit_or_iff by auto
qed

lemma PX_less: "PX l va < 512"
proof -
  have "PX l va = take_bit 9 (drop_bit (12 + 9 * l) va)"
    unfolding PX_def take_bit_eq_mask by (simp add: mask_eq_exp_minus_1)
  also have "\<dots> < 512"
    by (simp add: take_bit_eq_mod word_mod_less_divisor)
  finally show ?thesis .
qed

section \<open>The meaning of a page table\<close>

text \<open>
  \<open>leaf l m pt va\<close> is the address of the entry for \<open>va\<close> below the level-\<open>l\<close> table
  \<open>pt\<close>, or 0; \<open>pte_at\<close> is the entry itself, 0 where a table is missing.
\<close>

primrec leaf :: "nat \<Rightarrow> pmem \<Rightarrow> u64 \<Rightarrow> u64 \<Rightarrow> u64" where
  "leaf 0 m pt va = pt + 8 * PX 0 va"
| "leaf (Suc l) m pt va =
     (let e = read64 m (pt + 8 * PX (Suc l) va)
      in if has e PTE_V then leaf l m (PTE2PA e) va else 0)"

primrec pte_at :: "nat \<Rightarrow> pmem \<Rightarrow> u64 \<Rightarrow> u64 \<Rightarrow> u64" where
  "pte_at 0 m pt va = read64 m (pt + 8 * PX 0 va)"
| "pte_at (Suc l) m pt va =
     (let e = read64 m (pt + 8 * PX (Suc l) va)
      in if has e PTE_V then pte_at l m (PTE2PA e) va else 0)"

text \<open>The tables below a table, and the pages a page table occupies.\<close>

definition kids :: "pmem \<Rightarrow> u64 \<Rightarrow> u64 set" where
  "kids m pt = {i. i < 512 \<and> has (read64 m (pt + 8 * i)) PTE_V}"

definition kid :: "pmem \<Rightarrow> u64 \<Rightarrow> u64 \<Rightarrow> u64" where
  "kid m pt i = PTE2PA (read64 m (pt + 8 * i))"

primrec pages_of :: "nat \<Rightarrow> pmem \<Rightarrow> u64 \<Rightarrow> u64 set" where
  "pages_of 0 m pt = {pt}"
| "pages_of (Suc l) m pt = insert pt (\<Union>i \<in> kids m pt. pages_of l m (kid m pt i))"

text \<open>A page table is well formed when its pages are real pages and form a tree.\<close>

primrec pt_wf :: "nat \<Rightarrow> pmem \<Rightarrow> u64 \<Rightarrow> bool" where
  "pt_wf 0 m pt \<longleftrightarrow> aligned pt \<and> pt \<noteq> 0"
| "pt_wf (Suc l) m pt \<longleftrightarrow> aligned pt \<and> pt \<noteq> 0 \<and>
     (\<forall>i \<in> kids m pt. pt_wf l m (kid m pt i) \<and> pt \<notin> pages_of l m (kid m pt i)) \<and>
     (\<forall>i \<in> kids m pt. \<forall>j \<in> kids m pt. i \<noteq> j \<longrightarrow>
        pages_of l m (kid m pt i) \<inter> pages_of l m (kid m pt j) = {})"

text \<open>\<open>m'\<close> differs from \<open>m\<close> only inside the pages of \<open>P\<close>; \<open>page_same\<close>: not in page \<open>p\<close>.\<close>

definition only_in :: "u64 set \<Rightarrow> pmem \<Rightarrow> pmem \<Rightarrow> bool" where
  "only_in P m m' \<longleftrightarrow> (\<forall>x. (\<forall>p \<in> P. 4096 \<le> unat (x - p)) \<longrightarrow> m' x = m x)"

definition page_same :: "u64 \<Rightarrow> pmem \<Rightarrow> pmem \<Rightarrow> bool" where
  "page_same p m m' \<longleftrightarrow> (\<forall>i < 4096. m' (p + of_nat i) = m (p + of_nat i))"

lemma only_in_refl [simp]: "only_in P m m"
  by (simp add: only_in_def)

lemma only_in_trans: "only_in P m m' \<Longrightarrow> only_in P m' m'' \<Longrightarrow> only_in P m m''"
  by (simp add: only_in_def)

lemma only_in_mono: "only_in P m m' \<Longrightarrow> P \<subseteq> Q \<Longrightarrow> only_in Q m m'"
  by (auto simp: only_in_def)

lemma only_in_single: "same_outside p m m' \<Longrightarrow> only_in {p} m m'"
  by (simp add: only_in_def same_outside_def)

lemma only_in_page_same:
  assumes "only_in P m m'" and "\<forall>q \<in> P. aligned q" and "aligned p" and "p \<notin> P"
  shows "page_same p m m'"
  unfolding page_same_def
proof (intro allI impI)
  fix i :: nat
  assume "i < 4096"
  then have "\<forall>q \<in> P. 4096 \<le> unat (p + of_nat i - q)"
    using assms page_disjoint by metis
  with assms(1) show "m' (p + of_nat i) = m (p + of_nat i)" by (simp add: only_in_def)
qed

lemma unat_8_PX: "i < (512 :: u64) \<Longrightarrow> unat (8 * i) = 8 * unat i"
  by (simp add: word_less_nat_alt unat_word_ariths)

lemma read64_page_same:
  assumes "page_same p m m'" and "i < 512"
  shows "read64 m' (p + 8 * i) = read64 m (p + 8 * i)"
proof -
  have "m' (p + 8 * i + of_nat j) = m (p + 8 * i + of_nat j)" if "j < 8" for j
  proof -
    have "unat i < 512" using assms(2) by (simp add: word_less_nat_alt)
    then have "8 * unat i + j < 4096" using that by simp
    moreover have "p + 8 * i + of_nat j = p + of_nat (8 * unat i + j)" by simp
    ultimately show ?thesis using assms(1) unfolding page_same_def by metis
  qed
  then have "read_bytes m' (p + 8 * i) 8 = read_bytes m (p + 8 * i) 8"
    by (intro nth_equalityI) simp_all
  then show ?thesis by (simp add: read64_def)
qed

lemma kids_page_same:
  assumes "page_same p m m'"
  shows "kids m' p = kids m p" and "\<And>i. i \<in> kids m p \<Longrightarrow> kid m' p i = kid m p i"
  using read64_page_same [OF assms] by (auto simp: kids_def kid_def)

lemma root_in_pages [simp]: "pt \<in> pages_of l m pt"
  by (cases l) simp_all

lemma PX_kids: "PX l va \<in> kids m pt \<longleftrightarrow> has (read64 m (pt + 8 * PX l va)) PTE_V"
  by (simp add: kids_def PX_less)

text \<open>What a page table means depends on its own pages only.\<close>

lemma pt_frame:
  assumes "\<forall>p \<in> pages_of l m pt. page_same p m m'"
  shows "pages_of l m' pt = pages_of l m pt \<and> pt_wf l m' pt = pt_wf l m pt \<and>
    pte_at l m' pt = pte_at l m pt \<and> leaf l m' pt = leaf l m pt"
  using assms
proof (induction l arbitrary: pt)
  case 0
  then show ?case
    using read64_page_same [of pt m m' "PX 0 _"] by (auto simp: PX_less fun_eq_iff)
next
  case (Suc l)
  have root: "page_same pt m m'" using Suc.prems by simp
  note k = kids_page_same [OF root]
  have sub: "pages_of l m' (kid m pt i) = pages_of l m (kid m pt i)"
    "pt_wf l m' (kid m pt i) = pt_wf l m (kid m pt i)"
    "pte_at l m' (kid m pt i) = pte_at l m (kid m pt i)"
    "leaf l m' (kid m pt i) = leaf l m (kid m pt i)"
    if "i \<in> kids m pt" for i
    using Suc.IH [of "kid m pt i"] Suc.prems that by auto
  have r: "read64 m' (pt + 8 * PX (Suc l) va) = read64 m (pt + 8 * PX (Suc l) va)" for va
    by (rule read64_page_same [OF root PX_less])
  have "pte_at (Suc l) m' pt va = pte_at (Suc l) m pt va" for va
    using sub(3) [of "PX (Suc l) va"] by (simp add: r Let_def kid_def PX_kids)
  moreover have "leaf (Suc l) m' pt va = leaf (Suc l) m pt va" for va
    using sub(4) [of "PX (Suc l) va"] by (simp add: r Let_def kid_def PX_kids)
  ultimately show ?case
    using k sub by (auto simp: fun_eq_iff)
qed

text \<open>
  Replacing the table below entry \<open>i\<close> of a well-formed table, by one that shares
  no page with the rest.
\<close>

lemma pt_update_kid:
  fixes m m' :: pmem and pt i c :: u64 and l :: nat
  defines "rest \<equiv> {j \<in> kids m pt. j \<noteq> i}"
  assumes wf: "pt_wf (Suc l) m pt" and i: "i < 512"
    and ent: "has (read64 m' (pt + 8 * i)) PTE_V" "kid m' pt i = c"
    and others: "\<And>j. j < 512 \<Longrightarrow> j \<noteq> i \<Longrightarrow> read64 m' (pt + 8 * j) = read64 m (pt + 8 * j)"
    and same: "\<And>j p. j \<in> rest \<Longrightarrow> p \<in> pages_of l m (kid m pt j) \<Longrightarrow> page_same p m m'"
    and cwf: "pt_wf l m' c" "pt \<notin> pages_of l m' c"
    and disj: "\<And>j. j \<in> rest \<Longrightarrow> pages_of l m' c \<inter> pages_of l m (kid m pt j) = {}"
  shows "pt_wf (Suc l) m' pt \<and>
    pages_of (Suc l) m' pt = insert pt (pages_of l m' c \<union> (\<Union>j \<in> rest. pages_of l m (kid m pt j))) \<and>
    (\<forall>va. pte_at (Suc l) m' pt va =
       (if PX (Suc l) va = i then pte_at l m' c va else pte_at (Suc l) m pt va)) \<and>
    (\<forall>va. leaf (Suc l) m' pt va =
       (if PX (Suc l) va = i then leaf l m' c va else leaf (Suc l) m pt va))"
proof -
  have kids': "kids m' pt = insert i rest"
    using ent(1) i others by (auto simp: kids_def rest_def)
  have kid': "kid m' pt j = kid m pt j" if "j \<in> rest" for j
    using that others by (auto simp: kids_def rest_def kid_def)
  have fr: "pages_of l m' (kid m pt j) = pages_of l m (kid m pt j) \<and>
      pt_wf l m' (kid m pt j) = pt_wf l m (kid m pt j) \<and>
      pte_at l m' (kid m pt j) = pte_at l m (kid m pt j) \<and>
      leaf l m' (kid m pt j) = leaf l m (kid m pt j)" if "j \<in> rest" for j
    using same that by (intro pt_frame) blast
  have wfr: "pt_wf l m (kid m pt j)" "pt \<notin> pages_of l m (kid m pt j)" if "j \<in> rest" for j
    using wf that by (auto simp: rest_def)
  have pages: "pages_of (Suc l) m' pt =
      insert pt (pages_of l m' c \<union> (\<Union>j \<in> rest. pages_of l m (kid m pt j)))"
    using kids' kid' fr ent(2) by auto
  have disj': "pages_of l m' (kid m' pt a) \<inter> pages_of l m' (kid m' pt b) = {}"
    if "a \<in> kids m' pt" "b \<in> kids m' pt" "a \<noteq> b" for a b
  proof -
    have "a \<in> rest \<Longrightarrow> b \<in> rest \<Longrightarrow> pages_of l m (kid m pt a) \<inter> pages_of l m (kid m pt b) = {}"
      using wf that(3) by (simp add: rest_def)
    moreover have "a \<in> rest \<and> b \<in> rest \<or> a = i \<and> b \<in> rest \<or> a \<in> rest \<and> b = i"
      using that kids' by auto
    ultimately show ?thesis
      using kid' [of a] kid' [of b] fr [of a] fr [of b] ent(2) disj [of a] disj [of b]
      by (elim disjE conjE) (simp_all add: Int_commute)
  qed
  have "pt_wf (Suc l) m' pt"
    using wf kids' kid' fr wfr cwf ent(2) disj' by auto
  moreover have "pte_at (Suc l) m' pt va =
      (if PX (Suc l) va = i then pte_at l m' c va else pte_at (Suc l) m pt va)"
    "leaf (Suc l) m' pt va =
      (if PX (Suc l) va = i then leaf l m' c va else leaf (Suc l) m pt va)" for va
    using ent others [OF PX_less, of "Suc l" va] fr [of "PX (Suc l) va"]
      PX_kids [of "Suc l" va m pt] by (auto simp: kid_def Let_def rest_def)
  ultimately show ?thesis using pages by blast
qed

lemma read64_other_entry:
  assumes "i < 512" and "j < 512" and "i \<noteq> j"
  shows "read64 (write64 (pt + 8 * i) v m) (pt + 8 * j) = read64 m (pt + 8 * j)"
proof -
  obtain I J where IJ: "I = unat i" "J = unat j" by simp
  then have b: "I < 512" "J < 512" "I \<noteq> J" using assms by (simp_all add: word_less_nat_alt)
  have "8 \<le> unat (pt + 8 * j + of_nat k - (pt + 8 * i))" if "k < 8" for k
  proof -
    define x y :: u64 where "x = of_nat (8 * J + k)" and "y = of_nat (8 * I)"
    have "unat x = 8 * J + k" "unat y = 8 * I"
      unfolding x_def y_def unat_of_nat using b that by (simp_all add: take_bit_nat_eq_self)
    then have "8 \<le> unat (x - y)"
      using b that by (auto simp: unat_sub_if')
    moreover have "pt + 8 * j + of_nat k - (pt + 8 * i) = x - y"
      by (simp add: x_def y_def IJ)
    ultimately show ?thesis by simp
  qed
  then have "read_bytes (write64 (pt + 8 * i) v m) (pt + 8 * j) 8 = read_bytes m (pt + 8 * j) 8"
    unfolding write64_def by (intro read_write_bytes_disjoint) (simp add: algebra_simps)
  then show ?thesis by (simp add: read64_def)
qed

lemma pt_wf_pages: "pt_wf l m pt \<Longrightarrow> p \<in> pages_of l m pt \<Longrightarrow> aligned p \<and> p \<noteq> 0"
  by (induction l arbitrary: pt) auto

lemma has_0 [simp]: "\<not> has 0 f"
  by (simp add: has_def)

lemma zero_table:
  assumes "\<forall>i < 4096. m (pt + of_nat i) = 0" and "aligned pt" and "pt \<noteq> 0"
  shows "pt_wf l m pt \<and> pages_of l m pt = {pt} \<and> pte_at l m pt = (\<lambda>_. 0)"
proof -
  have "page_same pt (\<lambda>_. 0) m" using assms(1) by (simp add: page_same_def)
  then have z: "read64 m (pt + 8 * i) = 0" if "i < 512" for i
    using read64_page_same [of pt "\<lambda>_. 0" m i] that by simp
  then have "kids m pt = {}" by (auto simp: kids_def)
  with z assms(2,3) show ?thesis by (cases l) (simp_all add: PX_less fun_eq_iff)
qed

section \<open>Steps of the allocator\<close>

text \<open>
  A run of a memory routine changes memory, the free list and, through the
  allocator's lock, at most the \<open>intena\<close> flag of the hart.
\<close>

definition mem_step :: "'z memst_scheme \<Rightarrow> 'z memst_scheme \<Rightarrow> bool" where
  "mem_step s t \<longleftrightarrow> t = s\<lparr>lks := lks t, mem := mem t, freelist := freelist t\<rparr> \<and>
     (lks t = lks s \<or> lks t = touch (lks s))"

lemma mem_step_refl [simp]: "mem_step s s"
  by (simp add: mem_step_def)

lemma mem_step_mem [simp]: "mem_step s (s\<lparr>mem := m\<rparr>)"
  by (simp add: mem_step_def)

lemma mem_step_trans:
  assumes "mem_step s t" and "mem_step t u"
  shows "mem_step s u"
proof -
  obtain l m f where t: "t = s\<lparr>lks := l, mem := m, freelist := f\<rparr>" "l = lks s \<or> l = touch (lks s)"
    using assms(1) unfolding mem_step_def by blast
  obtain l' m' f' where u: "u = t\<lparr>lks := l', mem := m', freelist := f'\<rparr>" "l' = l \<or> l' = touch l"
    using assms(2) t unfolding mem_step_def by fastforce
  show ?thesis using t u by (auto simp: mem_step_def)
qed

lemma flist_same:
  assumes "\<forall>x \<in> set xs. page_same x m m'"
  shows "flist m' a xs = flist m a xs"
  using assms
proof (induction xs arbitrary: a)
  case Nil
  then show ?case by simp
next
  case (Cons x xs)
  have "read64 m' x = read64 m x"
    using read64_page_same [of x m m' 0] Cons.prems by simp
  with Cons show ?case by simp
qed

lemma kpool_pages: "kpool s fl \<Longrightarrow> p \<in> set fl \<Longrightarrow> aligned p \<and> p \<noteq> 0 \<and> pa_ok p \<and> page_ok (k_end s) p"
proof -
  assume "kpool s fl" and "p \<in> set fl"
  then have p: "page_ok (k_end s) p" "0 < k_end s" by (auto simp: kpool_def kmem_inv_def)
  then have "p < 2 ^ 56" by (simp add: page_ok_def word_less_nat_alt)
  with p show ?thesis using page_ok_nonzero by (auto simp: pa_ok_def page_ok_def)
qed

lemma kpool_mem:
  assumes "kpool s fl" and "only_in P (mem s) m" and "\<forall>p \<in> P. aligned p" and "P \<inter> set fl = {}"
  shows "kpool (s\<lparr>mem := m\<rparr>) fl"
proof -
  have "\<forall>x \<in> set fl. page_same x (mem s) m"
    using only_in_page_same [OF assms(2,3)] kpool_pages [OF assms(1)] assms(4) by blast
  with assms(1) show ?thesis
    by (simp add: kpool_def kmem_inv_def flist_same)
qed

lemma kalloc_pool:
  assumes "kpool s (p # fl)"
  obtains t where "kalloc s = Ok p t" and "kpool t fl" and "only_in {p} (mem s) (mem t)"
    and "mem_step s t"
proof -
  let ?t = "s\<lparr>lks := touch (lks s), freelist := read64 (mem s) p, mem := memset p 5 4096 (mem s)\<rparr>"
  have l: "lk_free LKmem s" using assms by (simp add: kpool_def)
  have p: "freelist s = p" using assms by (simp add: kpool_def kmem_inv_def)
  moreover have "p \<noteq> 0" using kpool_pages [OF assms, of p] by simp
  ultimately have r: "kalloc s = Ok p ?t" using kalloc_ok [OF l] by simp
  obtain u where "kalloc s = Ok p u" "kmem_inv u fl" "lk_free LKmem u"
    using kalloc_inv_Cons [of s p fl] assms by (auto simp: kpool_def)
  with r have "kpool ?t fl" by (simp add: kpool_def)
  with r show thesis using that [of ?t] by (simp add: only_in_single mem_step_def)
qed

lemma kalloc_empty:
  assumes "kpool s []"
  obtains t where "kalloc s = Ok 0 t" and "kpool t []" and "mem t = mem s" and "mem_step s t"
proof -
  have "lk_free LKmem s" "kmem_inv s []" using assms by (simp_all add: kpool_def)
  then show thesis
    using that [of "s\<lparr>lks := touch (lks s)\<rparr>"] kalloc_inv_Nil [of s] assms
    by (simp add: kpool_def kmem_inv_def mem_step_def)
qed

section \<open>walk finds the entry and keeps the map\<close>

text \<open>
  What a run of a routine that may add tables below \<open>pt\<close> leaves: it took the pages
  \<open>taken\<close> from the front of the free list, changed only them and the tables, and the
  table is still a tree, all of whose entries read as before.
\<close>

definition pt_grow :: "nat \<Rightarrow> u64 \<Rightarrow> u64 list \<Rightarrow> u64 list \<Rightarrow> 'z memst_scheme \<Rightarrow> 'z memst_scheme \<Rightarrow> bool" where
  "pt_grow l pt taken fl s t \<longleftrightarrow>
     kpool t fl \<and> mem_step s t \<and> pt_wf l (mem t) pt \<and>
     pages_of l (mem t) pt \<subseteq> pages_of l (mem s) pt \<union> set taken \<and>
     only_in (pages_of l (mem s) pt \<union> set taken) (mem s) (mem t)"

lemma pt_grow_kid:
  assumes wf: "pt_wf (Suc l) (mem s) pt" and i: "i \<in> kids (mem s) pt"
    and fl: "kpool s (taken @ fl)" "set (taken @ fl) \<inter> pages_of (Suc l) (mem s) pt = {}"
    and g: "pt_grow l (kid (mem s) pt i) taken fl s t"
  shows "pt_grow (Suc l) pt taken fl s t \<and>
    (\<forall>va. pte_at (Suc l) (mem t) pt va =
       (if PX (Suc l) va = i then pte_at l (mem t) (kid (mem s) pt i) va
        else pte_at (Suc l) (mem s) pt va)) \<and>
    (\<forall>va. leaf (Suc l) (mem t) pt va =
       (if PX (Suc l) va = i then leaf l (mem t) (kid (mem s) pt i) va
        else leaf (Suc l) (mem s) pt va))"
proof -
  let ?c = "kid (mem s) pt i"
  let ?P = "pages_of l (mem s) ?c \<union> set taken"
  have g': "pt_wf l (mem t) ?c" "pages_of l (mem t) ?c \<subseteq> ?P" "only_in ?P (mem s) (mem t)"
    using g by (auto simp: pt_grow_def)
  have sub: "pages_of l (mem s) (kid (mem s) pt j) \<subseteq> pages_of (Suc l) (mem s) pt"
    if "j \<in> kids (mem s) pt" for j using that by auto
  have al: "\<forall>q \<in> ?P. aligned q"
    using pt_wf_pages [OF wf] kpool_pages [OF fl(1)] sub [OF i] by (auto simp del: pages_of.simps)
  have out: "page_same q (mem s) (mem t)" if "q \<in> pages_of (Suc l) (mem s) pt" "q \<notin> pages_of l (mem s) ?c" for q
    using only_in_page_same [OF g'(3) al, of q] pt_wf_pages [OF wf that(1)] that fl(2) by auto
  have root: "page_same pt (mem s) (mem t)"
    using out [of pt] wf i by simp
  have dk: "pages_of l (mem s) ?c \<inter> pages_of l (mem s) (kid (mem s) pt j) = {}"
    if "j \<in> kids (mem s) pt" "j \<noteq> i" for j
    using wf i that by auto
  have upd: "pt_wf (Suc l) (mem t) pt \<and>
    pages_of (Suc l) (mem t) pt = insert pt (pages_of l (mem t) ?c \<union>
      (\<Union>j \<in> {j \<in> kids (mem s) pt. j \<noteq> i}. pages_of l (mem s) (kid (mem s) pt j))) \<and>
    (\<forall>va. pte_at (Suc l) (mem t) pt va =
       (if PX (Suc l) va = i then pte_at l (mem t) ?c va else pte_at (Suc l) (mem s) pt va)) \<and>
    (\<forall>va. leaf (Suc l) (mem t) pt va =
       (if PX (Suc l) va = i then leaf l (mem t) ?c va else leaf (Suc l) (mem s) pt va))"
  proof (rule pt_update_kid [OF wf])
    show "i < 512" using i by (simp add: kids_def)
    then show "has (read64 (mem t) (pt + 8 * i)) PTE_V" "kid (mem t) pt i = ?c"
      using i read64_page_same [OF root] by (simp_all add: kids_def kid_def)
    show "read64 (mem t) (pt + 8 * j) = read64 (mem s) (pt + 8 * j)" if "j < 512" for j
      using read64_page_same [OF root that] .
    show "page_same q (mem s) (mem t)"
      if "j \<in> {j \<in> kids (mem s) pt. j \<noteq> i}" "q \<in> pages_of l (mem s) (kid (mem s) pt j)" for j q
      using out [of q] that dk sub by blast
    show "pt_wf l (mem t) ?c" by (rule g'(1))
    show "pt \<notin> pages_of l (mem t) ?c" using g'(2) wf i fl(2) by auto
    show "pages_of l (mem t) ?c \<inter> pages_of l (mem s) (kid (mem s) pt j) = {}"
      if "j \<in> {j \<in> kids (mem s) pt. j \<noteq> i}" for j
      using g'(2) dk [of j] that fl(2) by auto
  qed
  have "pt_grow (Suc l) pt taken fl s t"
    using g upd g'(2) i only_in_mono [OF g'(3), of "pages_of (Suc l) (mem s) pt \<union> set taken"]
    unfolding pt_grow_def by auto
  with upd show ?thesis by blast
qed

lemma pt_grow_trans:
  assumes "pt_grow l pt tk1 (tk2 @ fl) s t" and "pt_grow l pt tk2 fl t u"
  shows "pt_grow l pt (tk1 @ tk2) fl s u"
proof -
  let ?P = "pages_of l (mem s) pt \<union> set (tk1 @ tk2)"
  have "only_in ?P (mem s) (mem t)" "only_in ?P (mem t) (mem u)"
    using assms by (auto simp: pt_grow_def elim!: only_in_mono)
  then have "only_in ?P (mem s) (mem u)" by (rule only_in_trans)
  moreover have "mem_step s u"
    using assms mem_step_trans unfolding pt_grow_def by blast
  ultimately show ?thesis using assms unfolding pt_grow_def by auto
qed

lemma has_V: "has e PTE_V \<longleftrightarrow> bit e 0"
  using and_exp_eq_0_iff_not_bit [of e 0] by (simp add: has_def)

lemma has_V_or [simp]: "has (a OR PTE_V) PTE_V" "has (a OR b OR PTE_V) PTE_V"
  by (simp_all add: has_V bit_or_iff)

lemma only_in_write64:
  assumes "i < 512"
  shows "only_in {pt} m (write64 (pt + 8 * i) v m)"
proof -
  have "8 \<le> unat (x - (pt + 8 * i))" if "4096 \<le> unat (x - pt)" for x
  proof (rule ccontr)
    let ?d = "x - (pt + 8 * i)"
    assume "\<not> 8 \<le> unat ?d"
    moreover have "unat i < 512" using assms by (simp add: word_less_nat_alt)
    moreover have "unat (?d + 8 * i) \<le> unat ?d + unat (8 * i)"
      unfolding unat_word_ariths(1) by (rule mod_less_eq_dividend)
    ultimately have "unat (?d + 8 * i) < 4096" using unat_8_PX [OF assms] by simp
    moreover have "?d + 8 * i = x - pt" by simp
    ultimately show False using that by simp
  qed
  then have "\<not> unat (x - (pt + 8 * i)) < 8" if "4096 \<le> unat (x - pt)" for x
    using that by (simp add: not_less)
  then show ?thesis by (simp add: only_in_def write64_def write_bytes_def)
qed

lemma pt_grow_new:
  assumes wf: "pt_wf (Suc l) (mem s) pt" and i: "i < 512" "i \<notin> kids (mem s) pt"
    and fl: "kpool s (p # fl)" "set (p # fl) \<inter> pages_of (Suc l) (mem s) pt = {}"
    and t: "kalloc s = Ok p t" "kpool t fl" "only_in {p} (mem s) (mem t)" "mem_step s t"
    and u: "u = t\<lparr>mem := write64 (pt + 8 * i) (PA2PTE p OR PTE_V) (memset p 0 4096 (mem t))\<rparr>"
  shows "pt_grow (Suc l) pt [p] fl s u \<and> i \<in> kids (mem u) pt \<and> kid (mem u) pt i = p \<and>
    pte_at (Suc l) (mem u) pt = pte_at (Suc l) (mem s) pt"
proof -
  let ?m = "memset p 0 4096 (mem t)"
  have al: "aligned pt" "aligned p" "p \<noteq> 0" "pa_ok p" "p \<noteq> pt"
    using wf kpool_pages [OF fl(1), of p] fl(2) by auto
  have m1: "only_in {p} (mem s) ?m"
    by (rule only_in_trans [OF t(3) only_in_single [OF same_outside_memset]])
  have ent: "read64 (mem u) (pt + 8 * i) = PA2PTE p OR PTE_V"
    by (simp add: u)
  have dec: "PTE2PA (PA2PTE p OR PTE_V) = p"
    using PTE2PA_PA2PTE [OF al(4), of 0] by simp
  have m2: "only_in {pt} ?m (mem u)"
    using only_in_write64 [OF i(1)] by (simp add: u)
  have m3: "only_in {pt, p} (mem s) (mem u)"
    by (rule only_in_trans [of _ _ ?m]) (rule only_in_mono [OF m1], simp, rule only_in_mono [OF m2], simp)
  have zero: "\<forall>k < 4096. mem u (p + of_nat k) = 0"
  proof -
    have "page_same p ?m (mem u)"
      using only_in_page_same [OF m2, of p] al by auto
    moreover have "?m (p + of_nat k) = 0" if "k < 4096" for k
      using that by (simp add: memset_eq word_less_nat_alt unat_of_nat)
    ultimately show ?thesis by (simp add: page_same_def)
  qed
  note z = zero_table [OF zero al(2,3), of l]
  have out: "page_same q (mem s) (mem u)" if "q \<in> pages_of (Suc l) (mem s) pt" "q \<noteq> pt" for q
    using only_in_page_same [OF m3, of q] pt_wf_pages [OF wf that(1)] al that fl(2) by auto
  have rest: "{j \<in> kids (mem s) pt. j \<noteq> i} = kids (mem s) pt" using i(2) by auto
  have upd: "pt_wf (Suc l) (mem u) pt \<and>
    pages_of (Suc l) (mem u) pt = insert pt (pages_of l (mem u) p \<union>
      (\<Union>j \<in> {j \<in> kids (mem s) pt. j \<noteq> i}. pages_of l (mem s) (kid (mem s) pt j))) \<and>
    (\<forall>va. pte_at (Suc l) (mem u) pt va =
       (if PX (Suc l) va = i then pte_at l (mem u) p va else pte_at (Suc l) (mem s) pt va)) \<and>
    (\<forall>va. leaf (Suc l) (mem u) pt va =
       (if PX (Suc l) va = i then leaf l (mem u) p va else leaf (Suc l) (mem s) pt va))"
  proof (rule pt_update_kid [OF wf i(1)])
    show "has (read64 (mem u) (pt + 8 * i)) PTE_V" "kid (mem u) pt i = p"
      using ent dec by (simp_all add: kid_def)
    show "read64 (mem u) (pt + 8 * j) = read64 (mem s) (pt + 8 * j)" if "j < 512" "j \<noteq> i" for j
      using read64_other_entry [OF i(1) that(1)] that(2)
        read64_page_same [OF only_in_page_same [OF m1, of pt] that(1)] al by (simp add: u)
    show "page_same q (mem s) (mem u)"
      if "j \<in> {j \<in> kids (mem s) pt. j \<noteq> i}" "q \<in> pages_of l (mem s) (kid (mem s) pt j)" for j q
      using out [of q] that wf by auto
    show "pt_wf l (mem u) p" using z by simp
    show "pt \<notin> pages_of l (mem u) p" using z al by simp
    show "pages_of l (mem u) p \<inter> pages_of l (mem s) (kid (mem s) pt j) = {}"
      if "j \<in> {j \<in> kids (mem s) pt. j \<noteq> i}" for j
      using z that fl(2) by auto
  qed
  have "only_in {pt, p} (mem t) (mem u)"
    by (rule only_in_trans [of _ _ ?m])
      (rule only_in_mono [OF only_in_single [OF same_outside_memset]], simp,
       rule only_in_mono [OF m2], simp)
  then have "kpool (t\<lparr>mem := mem u\<rparr>) fl"
    using al fl kpool_def kmem_inv_def by (intro kpool_mem [OF t(2)]) (auto simp: kpool_def kmem_inv_def)
  then have "kpool u fl" by (simp add: u)
  moreover have "mem_step s u" using t(4) mem_step_mem mem_step_trans unfolding u by blast
  moreover have "pte_at (Suc l) (mem s) pt va = 0" if "PX (Suc l) va = i" for va
    using i(2) that PX_kids [of "Suc l" va "mem s" pt] by simp
  ultimately have "pt_grow (Suc l) pt [p] fl s u" and
    "pte_at (Suc l) (mem u) pt va = pte_at (Suc l) (mem s) pt va" for va
    using upd z only_in_mono [OF m3, of "pages_of (Suc l) (mem s) pt \<union> set [p]"]
    unfolding pt_grow_def by (auto simp del: pte_at.simps pt_wf.simps)
  moreover have "i \<in> kids (mem u) pt" "kid (mem u) pt i = p"
    using ent dec i(1) by (simp_all add: kids_def kid_def)
  ultimately show ?thesis by (simp add: fun_eq_iff del: pte_at.simps)
qed

lemma leaf_nonzero: "pt_wf 0 m pt \<Longrightarrow> leaf 0 m pt va \<noteq> 0"
proof
  assume wf: "pt_wf 0 m pt" and z: "leaf 0 m pt va = 0"
  have "unat (PX 0 va) < 512" using PX_less [of 0 va] by (simp add: word_less_nat_alt)
  then have x: "unat (8 * PX 0 va) < 4096" using unat_8_PX [OF PX_less, of 0 va] by simp
  have "4096 dvd unat pt" using wf by (simp add: aligned_unat mod_eq_0_iff_dvd)
  then obtain k where k: "unat pt = 4096 * k" by (elim dvdE)
  have "k \<noteq> 0" using wf k unat_eq_zero [of pt] by (intro notI) simp
  moreover have "k < 4503599627370496" using unat_u64_less [of pt] unfolding k by linarith
  ultimately have b: "4096 \<le> unat pt" "unat pt + unat (8 * PX 0 va) < 18446744073709551616"
    using x unfolding k by linarith+
  then have "unat (pt + 8 * PX 0 va) = unat pt + unat (8 * PX 0 va)"
    unfolding unat_word_ariths(1) by simp
  with z b(1) show False by simp
qed

lemma walk_from_alloc:
  assumes "pt_wf l (mem s) pt" and "kpool s fl" and "set fl \<inter> pages_of l (mem s) pt = {}"
  shows "\<exists>a t taken fl'. walk_from l pt va True s = Ok a t \<and> fl = taken @ fl' \<and>
    pt_grow l pt taken fl' s t \<and> pte_at l (mem t) pt = pte_at l (mem s) pt \<and>
    (if a = 0 then fl' = [] else a = leaf l (mem t) pt va)"
  using assms
proof (induction l arbitrary: pt s fl)
  case 0
  then have "pt_grow 0 pt [] fl s s" by (simp add: pt_grow_def)
  moreover have "leaf 0 (mem s) pt va \<noteq> 0" using 0 by (intro leaf_nonzero)
  ultimately show ?case by fastforce
next
  case (Suc l)
  let ?i = "PX (Suc l) va"
  have down: "\<exists>a t taken fl'. walk_from l (kid (mem u) pt ?i) va True u = Ok a t \<and>
      ufl = taken @ fl' \<and> pt_grow (Suc l) pt taken fl' u t \<and>
      pte_at (Suc l) (mem t) pt = pte_at (Suc l) (mem u) pt \<and>
      (if a = 0 then fl' = [] else a = leaf (Suc l) (mem t) pt va)"
    if u: "pt_wf (Suc l) (mem u) pt" "?i \<in> kids (mem u) pt" "kpool u ufl"
      "set ufl \<inter> pages_of (Suc l) (mem u) pt = {}" for u :: "'a memst_scheme" and ufl
  proof -
    have "set ufl \<inter> pages_of l (mem u) (kid (mem u) pt ?i) = {}" using u by auto
    then obtain a t taken fl' where r: "walk_from l (kid (mem u) pt ?i) va True u = Ok a t"
      "ufl = taken @ fl'" "pt_grow l (kid (mem u) pt ?i) taken fl' u t"
      "pte_at l (mem t) (kid (mem u) pt ?i) = pte_at l (mem u) (kid (mem u) pt ?i)"
      "if a = 0 then fl' = [] else a = leaf l (mem t) (kid (mem u) pt ?i) va"
      using Suc.IH [of u "kid (mem u) pt ?i" ufl] u by auto
    note g = pt_grow_kid [OF u(1,2) u(3) [unfolded r(2)] u(4) [unfolded r(2)] r(3)]
    have "pte_at (Suc l) (mem t) pt v = pte_at (Suc l) (mem u) pt v" for v
    proof (cases "PX (Suc l) v = ?i")
      case True
      then have "pte_at (Suc l) (mem u) pt v = pte_at l (mem u) (kid (mem u) pt ?i) v"
        using u(2) by (simp add: kids_def kid_def)
      with True g r(4) show ?thesis by (simp del: pte_at.simps leaf.simps)
    next
      case False
      with g show ?thesis by (simp del: pte_at.simps leaf.simps)
    qed
    then have "pte_at (Suc l) (mem t) pt = pte_at (Suc l) (mem u) pt" by (rule ext)
    moreover have "leaf (Suc l) (mem t) pt va = leaf l (mem t) (kid (mem u) pt ?i) va"
      using g by (simp del: pte_at.simps leaf.simps)
    ultimately show ?thesis using r(1,2,5) g by metis
  qed
  show ?case
  proof (cases "?i \<in> kids (mem s) pt")
    case True
    then have "walk_from (Suc l) pt va True s = walk_from l (kid (mem s) pt ?i) va True s"
      by (simp add: kids_def kid_def)
    then show ?thesis using down [OF Suc.prems(1) True Suc.prems(2,3)] by (simp only:)
  next
    case inv: False
    then have nv: "\<not> has (read64 (mem s) (pt + 8 * ?i)) PTE_V" by (simp add: PX_kids)
    show ?thesis
    proof (cases fl)
      case Nil
      then obtain t where "kalloc s = Ok 0 t" "kpool t []" "mem t = mem s" "mem_step s t"
        using kalloc_empty Suc.prems(2) by blast
      then have "walk_from (Suc l) pt va True s = Ok 0 t" "pt_grow (Suc l) pt [] [] s t"
        "pte_at (Suc l) (mem t) pt = pte_at (Suc l) (mem s) pt"
        using nv Suc.prems(1) by (simp_all only: walk_from.simps pt_grow_def) auto
      with Nil show ?thesis by (intro exI conjI) (assumption | simp)+
    next
      case (Cons p fl2)
      obtain t where t: "kalloc s = Ok p t" "kpool t fl2" "only_in {p} (mem s) (mem t)" "mem_step s t"
        using kalloc_pool Suc.prems(2) Cons by blast
      define u where "u = t\<lparr>mem := write64 (pt + 8 * ?i) (PA2PTE p OR PTE_V) (memset p 0 4096 (mem t))\<rparr>"
      have prem: "kpool s (p # fl2)" "set (p # fl2) \<inter> pages_of (Suc l) (mem s) pt = {}"
        using Suc.prems(2,3) unfolding Cons .
      have n: "pt_grow (Suc l) pt [p] fl2 s u" "?i \<in> kids (mem u) pt" "kid (mem u) pt ?i = p"
        "pte_at (Suc l) (mem u) pt = pte_at (Suc l) (mem s) pt"
        using pt_grow_new [OF Suc.prems(1) PX_less inv prem t u_def] by blast+
      have "p \<notin> set fl2" using Suc.prems(2) Cons by (simp add: kpool_def kmem_inv_def)
      then have d: "set fl2 \<inter> pages_of (Suc l) (mem u) pt = {}"
        using n(1) prem(2) unfolding pt_grow_def by (auto simp del: pages_of.simps)
      have u: "pt_wf (Suc l) (mem u) pt" "kpool u fl2" using n(1) by (auto simp: pt_grow_def)
      obtain a v taken fl' where r: "walk_from l p va True u = Ok a v"
        "fl2 = taken @ fl'" "pt_grow (Suc l) pt taken fl' u v"
        "pte_at (Suc l) (mem v) pt = pte_at (Suc l) (mem u) pt"
        "if a = 0 then fl' = [] else a = leaf (Suc l) (mem v) pt va"
        using down [OF u(1) n(2) u(2) d] unfolding n(3) by blast
      have "p \<noteq> 0" using kpool_pages [OF Suc.prems(2), of p] Cons by simp
      then have "walk_from (Suc l) pt va True s = Ok a v"
        using nv t(1) r(1) by (simp add: u_def)
      moreover have "pt_grow (Suc l) pt (p # taken) fl' s v"
        using pt_grow_trans [OF n(1) [unfolded r(2)] r(3)] by simp
      moreover have "fl = (p # taken) @ fl'" using Cons r(2) by simp
      moreover have "pte_at (Suc l) (mem v) pt = pte_at (Suc l) (mem s) pt"
        unfolding r(4) n(4) ..
      ultimately show ?thesis using r(5) by blast
    qed
  qed
qed

lemma all_le_Suc: "(\<forall>k \<le> Suc l. P k) \<longleftrightarrow> P (Suc l) \<and> (\<forall>k \<le> l. P k)"
  by (auto simp: le_Suc_eq)

text \<open>Storing into the entry that \<open>walk\<close> found changes the map at that one page.\<close>

lemma pt_store:
  assumes "pt_wf l m pt" and "leaf l m pt va \<noteq> 0" and "m' = write64 (leaf l m pt va) v m"
  shows "pt_wf l m' pt \<and> pages_of l m' pt = pages_of l m pt \<and>
    only_in (pages_of l m pt) m m' \<and> leaf l m' pt = leaf l m pt \<and>
    pte_at l m' pt = (\<lambda>w. if \<forall>k \<le> l. PX k w = PX k va then v else pte_at l m pt w)"
  using assms
proof (induction l arbitrary: pt)
  case 0
  then show ?case
    using only_in_write64 [OF PX_less, of pt m 0 va v] read64_other_entry [OF PX_less PX_less]
    by (auto simp: fun_eq_iff)
next
  case (Suc l)
  let ?i = "PX (Suc l) va"
  let ?c = "kid m pt ?i"
  let ?rest = "{j \<in> kids m pt. j \<noteq> ?i}"
  have v: "has (read64 m (pt + 8 * ?i)) PTE_V" and lf: "leaf (Suc l) m pt va = leaf l m ?c va"
    using Suc.prems(2) by (auto simp: Let_def kid_def split: if_splits)
  have i: "?i \<in> kids m pt" using v by (simp add: PX_kids)
  have cwf: "pt_wf l m ?c" "pt \<notin> pages_of l m ?c" using Suc.prems(1) i by auto
  have ih: "pt_wf l m' ?c" "pages_of l m' ?c = pages_of l m ?c" "only_in (pages_of l m ?c) m m'"
    "leaf l m' ?c = leaf l m ?c"
    "pte_at l m' ?c = (\<lambda>w. if \<forall>k \<le> l. PX k w = PX k va then v else pte_at l m ?c w)"
    using Suc.IH [OF cwf(1)] Suc.prems(2,3) unfolding lf by auto
  have al: "\<forall>q \<in> pages_of l m ?c. aligned q" using pt_wf_pages [OF cwf(1)] by blast
  have root: "page_same pt m m'"
    using only_in_page_same [OF ih(3) al _ cwf(2)] Suc.prems(1) by simp
  have disj: "pages_of l m ?c \<inter> pages_of l m (kid m pt j) = {}" if "j \<in> ?rest" for j
    using Suc.prems(1) i that by auto
  have upd: "pt_wf (Suc l) m' pt \<and>
    pages_of (Suc l) m' pt = insert pt (pages_of l m' ?c \<union> (\<Union>j \<in> ?rest. pages_of l m (kid m pt j))) \<and>
    (\<forall>w. pte_at (Suc l) m' pt w =
       (if PX (Suc l) w = ?i then pte_at l m' ?c w else pte_at (Suc l) m pt w)) \<and>
    (\<forall>w. leaf (Suc l) m' pt w =
       (if PX (Suc l) w = ?i then leaf l m' ?c w else leaf (Suc l) m pt w))"
  proof (rule pt_update_kid [OF Suc.prems(1) PX_less])
    show "has (read64 m' (pt + 8 * ?i)) PTE_V" "kid m' pt ?i = ?c"
      using v read64_page_same [OF root PX_less] by (simp_all add: kid_def)
    show "read64 m' (pt + 8 * j) = read64 m (pt + 8 * j)" if "j < 512" for j
      using read64_page_same [OF root that] .
    show "page_same q m m'" if "j \<in> ?rest" "q \<in> pages_of l m (kid m pt j)" for j q
      using only_in_page_same [OF ih(3) al, of q] pt_wf_pages [of l m "kid m pt j" q]
        Suc.prems(1) disj that by auto
  qed (use ih cwf disj in simp_all)
  have "pages_of (Suc l) m' pt = pages_of (Suc l) m pt"
    using upd ih(2) i by auto
  moreover have "only_in (pages_of (Suc l) m pt) m m'"
    by (rule only_in_mono [OF ih(3)]) (use i in auto)
  moreover have "pte_at (Suc l) m pt w = pte_at l m ?c w" "leaf (Suc l) m pt w = leaf l m ?c w"
    if "PX (Suc l) w = ?i" for w
    using that v by (simp_all add: kid_def)
  ultimately show ?case
    using upd unfolding ih all_le_Suc by (auto simp: fun_eq_iff simp del: pte_at.simps leaf.simps pt_wf.simps pages_of.simps)
qed

lemma walk_step_read:
  "walk_from l pt va False s = Ok (leaf l (mem s) pt va) s"
  by (induction l arbitrary: pt) (simp_all add: Let_def)

lemma pte_at_leaf: "leaf l m pt va \<noteq> 0 \<Longrightarrow> pte_at l m pt va = read64 m (leaf l m pt va)"
  by (induction l arbitrary: pt) (auto simp: Let_def split: if_splits)

lemma pte_at_no_leaf: "0 < l \<Longrightarrow> pt_wf l m pt \<Longrightarrow> leaf l m pt va = 0 \<Longrightarrow> pte_at l m pt va = 0"
proof (induction l arbitrary: pt)
  case (Suc l)
  let ?i = "PX (Suc l) va"
  show ?case
  proof (cases "?i \<in> kids m pt")
    case True
    then have wf: "pt_wf l m (kid m pt ?i)" and lf: "leaf l m (kid m pt ?i) va = 0"
      and eq: "pte_at (Suc l) m pt va = pte_at l m (kid m pt ?i) va"
      using Suc.prems by (auto simp: PX_kids kid_def)
    show ?thesis unfolding eq
      using Suc.IH [OF _ wf lf] leaf_nonzero [of m "kid m pt ?i" va] wf lf
      by (cases l) (auto simp del: pte_at.simps(2))
  qed (simp add: PX_kids)
qed simp

section \<open>mappages updates the map\<close>

lemma bit_PX: "bit (PX l va) k \<longleftrightarrow> k < 9 \<and> bit va (12 + 9 * l + k)"
proof -
  have "PX l va = take_bit 9 (drop_bit (12 + 9 * l) va)"
    unfolding PX_def take_bit_eq_mask by (simp add: mask_eq_exp_minus_1)
  then show ?thesis by (simp add: bit_simps)
qed

lemma MAXVA_bit: "va < MAXVA \<Longrightarrow> bit va k \<Longrightarrow> k < 38"
proof -
  assume a: "va < MAXVA" and b: "bit va k"
  have "take_bit 38 va = va"
    using a by (simp add: take_bit_eq_mod word_unat_eq_iff unat_mod_distrib word_less_nat_alt)
  with b show ?thesis by (metis bit_take_bit_iff)
qed

lemma same_PX:
  assumes "va < MAXVA" and "w < MAXVA"
  shows "(\<forall>k \<le> 2. PX k w = PX k va) \<longleftrightarrow> PGROUNDDOWN w = PGROUNDDOWN va"
proof
  assume eq: "\<forall>k \<le> 2. PX k w = PX k va"
  show "PGROUNDDOWN w = PGROUNDDOWN va"
  proof (rule bit_word_eqI)
    fix j
    have "bit w j = bit va j" if j: "12 \<le> j" "j < 39"
    proof -
      let ?l = "(j - 12) div 9" and ?k = "(j - 12) mod 9"
      have "12 + 9 * ?l + ?k = j" "?k < 9" "?l \<le> 2" using j by simp_all
      then show ?thesis using eq bit_PX [of ?l w ?k] bit_PX [of ?l va ?k] by simp
    qed
    then show "bit (PGROUNDDOWN w) j = bit (PGROUNDDOWN va) j"
      using MAXVA_bit [OF assms(1), of j] MAXVA_bit [OF assms(2), of j]
      by (auto simp: PGROUNDDOWN_eq bit_simps)
  qed
next
  assume eq: "PGROUNDDOWN w = PGROUNDDOWN va"
  have "bit w j = bit va j" if "12 \<le> j" for j
    using arg_cong [OF eq, of "\<lambda>x. bit x j"] that bit_imp_le_length [of w j]
      bit_imp_le_length [of va j]
    by (auto simp: PGROUNDDOWN_eq bit_simps)
  then show "\<forall>k \<le> 2. PX k w = PX k va"
    by (auto intro!: bit_word_eqI simp: bit_PX)
qed

lemma aligned_mult: "aligned a \<Longrightarrow> \<exists>k. unat a = 4096 * k"
  by (auto simp: aligned_unat mod_eq_0_iff_dvd elim!: dvdE)

lemma div_4096_iff: "x div 4096 = k \<longleftrightarrow> 4096 * k \<le> x \<and> x < 4096 * k + 4096" for x k :: nat
proof
  assume "x div 4096 = k"
  then have "x = 4096 * k + x mod 4096" by (metis mult_div_mod_eq)
  moreover have "x mod 4096 < 4096" by simp
  ultimately show "4096 * k \<le> x \<and> x < 4096 * k + 4096" by linarith
next
  assume "4096 * k \<le> x \<and> x < 4096 * k + 4096"
  then obtain r where "x = 4096 * k + r" "r < 4096"
    by (metis add_less_cancel_left le_add_diff_inverse)
  then show "x div 4096 = k" by simp
qed

lemma PGROUNDDOWN_iff:
  assumes "aligned a"
  shows "PGROUNDDOWN w = a \<longleftrightarrow> unat a \<le> unat w \<and> unat w < unat a + 4096"
proof -
  obtain k where k: "unat a = 4096 * k" using aligned_mult [OF assms] by blast
  have "PGROUNDDOWN w = a \<longleftrightarrow> unat (PGROUNDDOWN w) = unat a" by simp
  also have "\<dots> \<longleftrightarrow> unat w div 4096 = k" unfolding unat_PGROUNDDOWN k by auto
  also have "\<dots> \<longleftrightarrow> unat a \<le> unat w \<and> unat w < unat a + 4096"
    unfolding k by (rule div_4096_iff)
  finally show ?thesis .
qed

lemma PGROUNDDOWN_aligned: "aligned a \<Longrightarrow> PGROUNDDOWN a = a"
  by (subst PGROUNDDOWN_iff) simp_all

text \<open>\<open>w\<close> lies in one of the \<open>n\<close> pages from \<open>a\<close> on.\<close>

definition in_pages :: "u64 \<Rightarrow> nat \<Rightarrow> u64 \<Rightarrow> bool" where
  "in_pages a n w \<longleftrightarrow> unat a \<le> unat w \<and> unat w < unat a + 4096 * n"

lemma in_pages_Suc:
  assumes "aligned a" and "unat a + 4096 < 2 ^ 64"
  shows "in_pages a (Suc n) w \<longleftrightarrow> PGROUNDDOWN w = a \<or> in_pages (a + PGSIZE) n w"
  using assms(2) unfolding in_pages_def PGROUNDDOWN_iff [OF assms(1)]
  by (auto simp: unat_word_ariths)

lemma pt_grow_disjoint:
  assumes "pt_grow l pt tk fl s t" and "kpool s (tk @ fl)"
    and "set (tk @ fl) \<inter> pages_of l (mem s) pt = {}"
  shows "set fl \<inter> pages_of l (mem t) pt = {}"
proof -
  have "distinct (tk @ fl)" using assms(2) by (simp add: kpool_def kmem_inv_def)
  then show ?thesis using assms(1,3) unfolding pt_grow_def by auto
qed

lemma pt_grow_store:
  assumes "pt_grow l pt tk fl s t" and "set fl \<inter> pages_of l (mem t) pt = {}"
    and "leaf l (mem t) pt va \<noteq> 0"
  shows "pt_grow l pt tk fl s (t\<lparr>mem := write64 (leaf l (mem t) pt va) v (mem t)\<rparr>)"
proof -
  have t: "pt_wf l (mem t) pt" "kpool t fl" using assms(1) by (simp_all add: pt_grow_def)
  note st = pt_store [OF t(1) assms(3) refl, of v]
  have "kpool (t\<lparr>mem := write64 (leaf l (mem t) pt va) v (mem t)\<rparr>) fl"
    using st pt_wf_pages [OF t(1)] assms(2) by (intro kpool_mem [OF t(2)]) auto
  with st have "pt_grow l pt [] fl t (t\<lparr>mem := write64 (leaf l (mem t) pt va) v (mem t)\<rparr>)"
    by (simp add: pt_grow_def)
  then show ?thesis using pt_grow_trans [of l pt tk "[]" fl s t] assms(1) by simp
qed

lemma mappages_body_ok:
  assumes "pt_wf 2 (mem s) pt" and "kpool s fl" and "set fl \<inter> pages_of 2 (mem s) pt = {}"
    and "a < MAXVA" and "aligned a" and "\<not> has (pte_at 2 (mem s) pt a) PTE_V"
  shows "\<exists>t tk fl'. fl = tk @ fl' \<and> pt_grow 2 pt tk fl' s t \<and>
    (mappages_body pt perm lst (a, pa) s = Ok (Inr (- 1)) t \<and> fl' = [] \<and>
       pte_at 2 (mem t) pt = pte_at 2 (mem s) pt
     \<or> mappages_body pt perm lst (a, pa) s =
         Ok (if a = lst then Inr 0 else Inl (a + PGSIZE, pa + PGSIZE)) t \<and>
       (\<forall>w < MAXVA. pte_at 2 (mem t) pt w =
         (if PGROUNDDOWN w = a then PA2PTE pa OR perm OR PTE_V else pte_at 2 (mem s) pt w)))"
proof -
  obtain x t tk fl' where r: "walk_from 2 pt a True s = Ok x t" "fl = tk @ fl'"
    "pt_grow 2 pt tk fl' s t" "pte_at 2 (mem t) pt = pte_at 2 (mem s) pt"
    "if x = 0 then fl' = [] else x = leaf 2 (mem t) pt a"
    using walk_from_alloc [OF assms(1-3), of a] by blast
  have w: "walk pt a True s = Ok x t" using assms(4) r(1) by (simp add: walk_def)
  show ?thesis
  proof (cases "x = 0")
    case True
    then show ?thesis using w r by (intro exI [of _ t] exI [of _ tk] exI [of _ fl']) (simp add: mappages_body_def)
  next
    case False
    then have x: "x = leaf 2 (mem t) pt a" "leaf 2 (mem t) pt a \<noteq> 0" using r(5) by simp_all
    let ?v = "PA2PTE pa OR perm OR PTE_V"
    let ?u = "t\<lparr>mem := write64 x ?v (mem t)\<rparr>"
    have d: "set fl' \<inter> pages_of 2 (mem t) pt = {}"
      using pt_grow_disjoint [OF r(3)] assms(2,3) r(2) by simp
    have g: "pt_grow 2 pt tk fl' s ?u"
      using pt_grow_store [OF r(3) d x(2)] by (simp add: x(1))
    have wf: "pt_wf 2 (mem t) pt" using r(3) by (simp add: pt_grow_def)
    have "\<not> has (read64 (mem t) x) PTE_V"
      using pte_at_leaf [OF x(2)] assms(6) r(4) x(1) by simp
    then have "mappages_body pt perm lst (a, pa) s =
        Ok (if a = lst then Inr 0 else Inl (a + PGSIZE, pa + PGSIZE)) ?u"
      using w False by (simp add: mappages_body_def)
    moreover have "pte_at 2 (mem ?u) pt w =
        (if PGROUNDDOWN w = a then ?v else pte_at 2 (mem s) pt w)" if "w < MAXVA" for w
      using pt_store [OF wf x(2) refl, of ?v] same_PX [OF assms(4) that]
        PGROUNDDOWN_aligned [OF assms(5)] r(4) by (simp add: x(1))
    ultimately show ?thesis using r(2) g by blast
  qed
qed

lemma mappages_loop:
  assumes "pt_wf 2 (mem s) pt" and "kpool s fl" and "set fl \<inter> pages_of 2 (mem s) pt = {}"
    and "aligned a" and "unat a + 4096 * n < unat MAXVA" and "lst = a + of_nat n * PGSIZE"
    and "n < fuel" and "\<forall>w < MAXVA. in_pages a (Suc n) w \<longrightarrow> \<not> has (pte_at 2 (mem s) pt w) PTE_V"
  shows "\<exists>r t tk fl'. kloop fuel (mappages_body pt perm lst) (a, pa) s = Ok r t \<and>
    fl = tk @ fl' \<and> pt_grow 2 pt tk fl' s t \<and> (r = 0 \<or> r = - 1 \<and> fl' = []) \<and>
    (\<forall>w < MAXVA. if in_pages a (Suc n) w
       then r = 0 \<longrightarrow> pte_at 2 (mem t) pt w = PA2PTE (pa + (PGROUNDDOWN w - a)) OR perm OR PTE_V
       else pte_at 2 (mem t) pt w = pte_at 2 (mem s) pt w)"
  using assms
proof (induction n arbitrary: s fl a pa fuel)
  case 0
  have lt: "a < MAXVA" "unat a + 4096 < 2 ^ 64" using 0 by (simp_all add: word_less_nat_alt)
  have in0: "in_pages a (Suc 0) w \<longleftrightarrow> PGROUNDDOWN w = a" for w
    unfolding in_pages_def PGROUNDDOWN_iff [OF "0.prems"(4)] by simp
  obtain f where f: "fuel = Suc f" using 0 by (cases fuel) auto
  have "\<not> has (pte_at 2 (mem s) pt a) PTE_V"
    using "0.prems"(8) lt in0 PGROUNDDOWN_aligned [OF "0.prems"(4)] by simp
  from mappages_body_ok [OF "0.prems"(1-3) lt(1) "0.prems"(4) this, of perm lst pa]
  show ?case using "0.prems"(6) unfolding in0 f by fastforce
next
  case (Suc n)
  have lt: "a < MAXVA" "unat a + 4096 < 2 ^ 64" using Suc.prems(5) by (simp_all add: word_less_nat_alt)
  have nx: "unat (a + PGSIZE) = unat a + 4096" using lt(2) by (simp add: unat_word_ariths)
  note al = Suc.prems(4)
  have al': "aligned (a + PGSIZE)" using al nx by (simp add: aligned_unat)
  note inS = in_pages_Suc [OF al lt(2)]
  obtain f where f: "fuel = Suc f" "n < f" using Suc.prems(7) by (cases fuel) auto
  have nm: "\<not> has (pte_at 2 (mem s) pt a) PTE_V"
    using Suc.prems(8) lt inS PGROUNDDOWN_aligned [OF al] by blast
  have ne: "a \<noteq> lst"
  proof
    assume "a = lst"
    then have "of_nat (Suc n) * PGSIZE = 0" using Suc.prems(6) by simp
    then have "unat (of_nat (4096 * Suc n) :: u64) = 0" by (simp add: algebra_simps)
    then show False using Suc.prems(5) by (simp add: unat_of_nat take_bit_nat_eq_self del: of_nat_Suc of_nat_mult of_nat_add)
  qed
  obtain t tk fl' where t: "fl = tk @ fl'" "pt_grow 2 pt tk fl' s t"
    "mappages_body pt perm lst (a, pa) s = Ok (Inr (- 1)) t \<and> fl' = [] \<and>
       pte_at 2 (mem t) pt = pte_at 2 (mem s) pt
     \<or> mappages_body pt perm lst (a, pa) s = Ok (Inl (a + PGSIZE, pa + PGSIZE)) t \<and>
       (\<forall>w < MAXVA. pte_at 2 (mem t) pt w =
         (if PGROUNDDOWN w = a then PA2PTE pa OR perm OR PTE_V else pte_at 2 (mem s) pt w))"
    using mappages_body_ok [OF Suc.prems(1-3) lt(1) al nm, of perm lst pa] ne by auto
  from t(3) show ?case
  proof (elim disjE conjE)
    assume "mappages_body pt perm lst (a, pa) s = Ok (Inr (- 1)) t" "fl' = []"
      "pte_at 2 (mem t) pt = pte_at 2 (mem s) pt"
    with t f show ?thesis by (intro exI [of _ "- 1"] exI [of _ t] exI [of _ tk] exI [of _ fl']) simp
  next
    assume b: "mappages_body pt perm lst (a, pa) s = Ok (Inl (a + PGSIZE, pa + PGSIZE)) t"
      and upd: "\<forall>w < MAXVA. pte_at 2 (mem t) pt w =
         (if PGROUNDDOWN w = a then PA2PTE pa OR perm OR PTE_V else pte_at 2 (mem s) pt w)"
    have d: "set fl' \<inter> pages_of 2 (mem t) pt = {}"
      using pt_grow_disjoint [OF t(2)] Suc.prems(2,3) t(1) by simp
    have g: "pt_wf 2 (mem t) pt" "kpool t fl'" using t(2) by (simp_all add: pt_grow_def)
    have off: "in_pages (a + PGSIZE) (Suc n) w \<Longrightarrow> PGROUNDDOWN w \<noteq> a" for w
      unfolding PGROUNDDOWN_iff [OF al] in_pages_def nx by simp
    have "\<forall>w < MAXVA. in_pages (a + PGSIZE) (Suc n) w \<longrightarrow> \<not> has (pte_at 2 (mem t) pt w) PTE_V"
      using upd off Suc.prems(8) inS by simp
    moreover have "unat (a + PGSIZE) + 4096 * n < unat MAXVA" using Suc.prems(5) nx by simp
    moreover have "lst = (a + PGSIZE) + of_nat n * PGSIZE" using Suc.prems(6) by (simp add: algebra_simps)
    ultimately obtain r u tk2 fl2 where r: "kloop f (mappages_body pt perm lst) (a + PGSIZE, pa + PGSIZE) t = Ok r u"
      "fl' = tk2 @ fl2" "pt_grow 2 pt tk2 fl2 t u" "r = 0 \<or> r = - 1 \<and> fl2 = []"
      "\<forall>w < MAXVA. if in_pages (a + PGSIZE) (Suc n) w
       then r = 0 \<longrightarrow> pte_at 2 (mem u) pt w =
         PA2PTE ((pa + PGSIZE) + (PGROUNDDOWN w - (a + PGSIZE))) OR perm OR PTE_V
       else pte_at 2 (mem u) pt w = pte_at 2 (mem t) pt w"
      using Suc.IH [OF g(1,2) d al' _ _ f(2), of "pa + PGSIZE"] by blast
    have "pt_grow 2 pt (tk @ tk2) fl2 s u" using pt_grow_trans t(2) r(2,3) by blast
    moreover have "if in_pages a (Suc (Suc n)) w
       then r = 0 \<longrightarrow> pte_at 2 (mem u) pt w = PA2PTE (pa + (PGROUNDDOWN w - a)) OR perm OR PTE_V
       else pte_at 2 (mem u) pt w = pte_at 2 (mem s) pt w" if "w < MAXVA" for w
      using r(5) upd that inS [of "Suc n" w] off [of w]
      by (cases "in_pages (a + PGSIZE) (Suc n) w") auto
    moreover have "kloop fuel (mappages_body pt perm lst) (a, pa) s = Ok r u" using f(1) b r(1) by simp
    moreover have "fl = (tk @ tk2) @ fl2" using t(1) r(2) by simp
    ultimately show ?thesis using r(4) by blast
  qed
qed

text \<open>
  C10: \<open>mappages\<close> on a well-formed page table, for a page-aligned range of unmapped
  pages below \<open>MAXVA\<close>, terminates without panic. It returns 0 and the table then maps
  the \<open>i\<close>-th page of the range to the \<open>i\<close>-th physical page with the given permissions,
  and every other page as before; or it returns -1, only when physical memory ran
  out, and no page outside the range changed. In both cases the table is still a tree,
  made of its old pages and of pages taken from the free list, and no other page of
  memory was written.
\<close>

theorem mappages_maps:
  assumes "pt_wf 2 (mem s) pt" and "kpool s fl" and "set fl \<inter> pages_of 2 (mem s) pt = {}"
    and "va mod PGSIZE = 0" and "sz = of_nat n * PGSIZE" and "0 < n"
    and "unat va + 4096 * n \<le> unat MAXVA"
    and "\<forall>w < MAXVA. in_pages va n w \<longrightarrow> \<not> has (pte_at 2 (mem s) pt w) PTE_V"
  shows "\<exists>r t tk fl'. mappages pt va sz pa perm s = Ok r t \<and>
    fl = tk @ fl' \<and> pt_grow 2 pt tk fl' s t \<and> (r = 0 \<or> r = - 1 \<and> fl' = []) \<and>
    (\<forall>w < MAXVA. if in_pages va n w
       then r = 0 \<longrightarrow> pte_at 2 (mem t) pt w = PA2PTE (pa + (PGROUNDDOWN w - va)) OR perm OR PTE_V
       else pte_at 2 (mem t) pt w = pte_at 2 (mem s) pt w)"
proof -
  obtain k where k: "n = Suc k" using assms(6) by (cases n) auto
  have lim: "4096 * n \<le> 274877906944" using assms(7) by simp
  have "unat (of_nat (4096 * n) :: u64) = 4096 * n"
    using lim unfolding unat_of_nat by (intro mod_less) simp
  then have sz: "unat sz = 4096 * n" unfolding assms(5) by (simp add: mult.commute)
  have "sz mod PGSIZE = 0" using sz by (simp add: word_unat_eq_iff unat_mod_distrib)
  moreover have "sz \<noteq> 0" using sz assms(6) by auto
  ultimately have m: "mappages pt va sz pa perm s =
      kloop (n + 1) (mappages_body pt perm (va + sz - PGSIZE)) (va, pa) s"
    using assms(4) sz by (simp add: mappages_def)
  have "unat va + 4096 * k < unat MAXVA" using assms(7) k by simp
  moreover have "va + sz - PGSIZE = va + of_nat k * PGSIZE" unfolding assms(5) k by (simp add: algebra_simps)
  moreover have "aligned va" using assms(4) by (simp add: aligned_def)
  ultimately show ?thesis
    using mappages_loop [OF assms(1-3), of va k "va + sz - PGSIZE" "n + 1" perm pa] assms(8)
    unfolding m k by simp
qed

text \<open>An empty page table at \<open>0x400000\<close> and one free page.\<close>

lemma empty_table_small: "pt_wf 2 (mem small_mem) 0x400000 \<and>
    pages_of 2 (mem small_mem) 0x400000 = {0x400000} \<and> pte_at 2 (mem small_mem) 0x400000 = (\<lambda>_. 0)"
  by (rule zero_table) (simp_all add: small_mem_def aligned_def)

theorem mappages_maps_witness:
  "\<exists>r t tk fl'. mappages 0x400000 0x1000 0x1000 0x500000 PTE_R small_mem = Ok r t \<and>
     [0x300000] = tk @ fl' \<and> pt_grow 2 0x400000 tk fl' small_mem t \<and> (r = 0 \<or> r = - 1 \<and> fl' = [])"
  using mappages_maps [of small_mem "0x400000" "[0x300000]" "0x1000" "0x1000" 1 "0x500000" PTE_R]
    empty_table_small by (simp add: kpool_def) blast

section \<open>Encoding and lookup\<close>

text \<open>
  C16: The physical address and the permission bits survive the packing into a
  page-table entry, also with the T-Head memory attributes in bits 59 to 63: for a
  page-aligned address below 2^56 and permissions outside the page-number field,
  \<open>PTE2PA\<close> gives the address back, the mask of \<open>uvmcopy\<close> gives the permissions back,
  and re-encoding both gives the same entry.
\<close>

theorem pte_roundtrip:
  assumes "pa_ok a" and "perm AND PPN_MASK = 0"
  shows "PTE2PA (PA2PTE a OR perm OR PTE_V) = a \<and>
    (PA2PTE a OR perm OR PTE_V) AND NOT PPN_MASK = perm OR PTE_V \<and>
    has (PA2PTE a OR perm OR PTE_V) PTE_V"
proof -
  have "bit ((perm OR PTE_V) AND NOT (push_bit 10 (mask 44))) k = bit (perm OR PTE_V) k" for k
    using no_ppn_bit [OF assms(2), of k] bit_imp_le_length [of perm k]
    by (cases "k < 54") (auto simp: bit_simps)
  then have "(perm OR PTE_V) AND NOT PPN_MASK = perm OR PTE_V"
    unfolding PPN_MASK_eq by (intro bit_word_eqI) simp
  with pte_flags [OF assms(1), of perm] PTE2PA_PA2PTE [OF assms] show ?thesis by simp
qed

theorem pte_roundtrip_witness:
  "PTE2PA (PA2PTE 0x300000 OR (PTE_R OR PTE_U OR PTE_THEAD_MAEE) OR PTE_V) = 0x300000 \<and>
   has (PA2PTE 0x300000 OR (PTE_R OR PTE_U OR PTE_THEAD_MAEE) OR PTE_V) PTE_V"
  using pte_roundtrip [of "0x300000" "PTE_R OR PTE_U OR PTE_THEAD_MAEE"]
  by (simp add: pa_ok_def aligned_def)

lemma walk_read: "va < MAXVA \<Longrightarrow> walk pt va False s = Ok (leaf 2 (mem s) pt va) s"
  by (simp add: walk_def walk_step_read not_le)

lemma walkaddr_eq:
  assumes "pt_wf 2 (mem s) pt"
  shows "walkaddr pt va s = Ok (if va < MAXVA \<and> has (pte_at 2 (mem s) pt va) PTE_V \<and>
    has (pte_at 2 (mem s) pt va) PTE_U then PTE2PA (pte_at 2 (mem s) pt va) else 0) s"
  using pte_at_no_leaf [of 2 "mem s" pt va] pte_at_leaf [of 2 "mem s" pt va] assms
  by (auto simp: walkaddr_def walk_read not_le)

section \<open>A table with one entry\<close>

text \<open>
  The smallest page table, for the examples: one path through tables at \<open>0x400000\<close>, \<open>0x401000\<close> and
  \<open>0x402000\<close> to the entry \<open>e\<close>.
\<close>

definition one_entry :: "u64 \<Rightarrow> u64 \<Rightarrow> u64 \<Rightarrow> u64 \<Rightarrow> pmem \<Rightarrow> pmem" where
  "one_entry i2 i1 i0 e m =
     write64 (0x400000 + 8 * i2) (PA2PTE 0x401000 OR PTE_V)
    (write64 (0x401000 + 8 * i1) (PA2PTE 0x402000 OR PTE_V)
    (write64 (0x402000 + 8 * i0) e m))"

lemma read_one_entry:
  assumes "page_same pt (\<lambda>_. 0) m" and "i < 512" and "j < 512"
  shows "read64 (write64 (pt + 8 * i) v m) (pt + 8 * j) = (if j = i then v else 0)"
  using read64_other_entry [of i j pt v m] read64_page_same [OF assms(1,3)] assms(2,3) by simp

lemma page_same_write64:
  assumes "aligned pt" and "aligned p" and "p \<noteq> pt" and "i < 512"
  shows "page_same p m (write64 (pt + 8 * i) v m)"
  using only_in_page_same [OF only_in_write64 [of i pt m v], of p] assms by simp

lemma page_same_trans: "page_same p m m' \<Longrightarrow> page_same p m' m'' \<Longrightarrow> page_same p m m''"
  by (simp add: page_same_def)

lemma one_entry_read:
  assumes z: "page_same 0x400000 (\<lambda>_. 0) m" "page_same 0x401000 (\<lambda>_. 0) m" "page_same 0x402000 (\<lambda>_. 0) m"
    and i: "i2 < 512" "i1 < 512" "i0 < 512" and "j < 512"
  shows "read64 (one_entry i2 i1 i0 e m) (0x400000 + 8 * j) = (if j = i2 then PA2PTE 0x401000 OR PTE_V else 0)"
    and "read64 (one_entry i2 i1 i0 e m) (0x401000 + 8 * j) = (if j = i1 then PA2PTE 0x402000 OR PTE_V else 0)"
    and "read64 (one_entry i2 i1 i0 e m) (0x402000 + 8 * j) = (if j = i0 then e else 0)"
proof -
  define m1 where "m1 = write64 (0x402000 + 8 * i0) e m"
  define m2 where "m2 = write64 (0x401000 + 8 * i1) (PA2PTE 0x402000 OR PTE_V) m1"
  have o: "one_entry i2 i1 i0 e m = write64 (0x400000 + 8 * i2) (PA2PTE 0x401000 OR PTE_V) m2"
    by (simp add: one_entry_def m1_def m2_def)
  have al: "aligned 0x400000" "aligned 0x401000" "aligned 0x402000"
    by (simp_all add: aligned_def)
  have s1: "page_same p m m1" if "aligned p" "p \<noteq> 0x402000" for p
    unfolding m1_def using that by (intro page_same_write64 [OF al(3)]) (simp_all add: i)
  have s2: "page_same p m1 m2" if "aligned p" "p \<noteq> 0x401000" for p
    unfolding m2_def using that by (intro page_same_write64 [OF al(2)]) (simp_all add: i)
  have s3: "page_same p m2 (one_entry i2 i1 i0 e m)" if "aligned p" "p \<noteq> 0x400000" for p
    unfolding o using that by (intro page_same_write64 [OF al(1)]) (simp_all add: i)
  have z2: "page_same 0x400000 (\<lambda>_. 0) m2"
    by (rule page_same_trans [OF page_same_trans [OF z(1) s1] s2]) (simp_all add: al)
  show "read64 (one_entry i2 i1 i0 e m) (0x400000 + 8 * j) = (if j = i2 then PA2PTE 0x401000 OR PTE_V else 0)"
    unfolding o by (rule read_one_entry [OF z2 i(1) assms(7)])
  have z1: "page_same 0x401000 (\<lambda>_. 0) m1" by (rule page_same_trans [OF z(2) s1]) (simp_all add: al)
  have "read64 m2 (0x401000 + 8 * j) = (if j = i1 then PA2PTE 0x402000 OR PTE_V else 0)"
    unfolding m2_def by (rule read_one_entry [OF z1 i(2) assms(7)])
  with read64_page_same [OF s3 [of "0x401000"] assms(7)] al
  show "read64 (one_entry i2 i1 i0 e m) (0x401000 + 8 * j) = (if j = i1 then PA2PTE 0x402000 OR PTE_V else 0)"
    by simp
  have "read64 m1 (0x402000 + 8 * j) = (if j = i0 then e else 0)"
    unfolding m1_def by (rule read_one_entry [OF z(3) i(3) assms(7)])
  moreover have "page_same 0x402000 m1 (one_entry i2 i1 i0 e m)"
    by (rule page_same_trans [OF s2 s3]) (simp_all add: al)
  ultimately show "read64 (one_entry i2 i1 i0 e m) (0x402000 + 8 * j) = (if j = i0 then e else 0)"
    using read64_page_same [OF _ assms(7), of "0x402000"] by simp
qed

lemma one_entry_table:
  fixes e :: u64
  assumes z: "page_same 0x400000 (\<lambda>_. 0) m" "page_same 0x401000 (\<lambda>_. 0) m" "page_same 0x402000 (\<lambda>_. 0) m"
    and i: "i2 = PX 2 va" "i1 = PX 1 va" "i0 = PX 0 va"
  defines "t \<equiv> one_entry i2 i1 i0 e m"
  shows "pt_wf 2 t 0x400000" and "pages_of 2 t 0x400000 = {0x400000, 0x401000, 0x402000}"
    and "pte_at 2 t 0x400000 va = e"
proof -
  have l: "i2 < 512" "i1 < 512" "i0 < 512" by (simp_all add: i PX_less)
  note r = one_entry_read [OF z l, of _ e, folded t_def]
  have v: "has (PA2PTE p OR PTE_V) PTE_V" for p by simp
  have a: "PTE2PA (PA2PTE 0x401000 OR PTE_V) = 0x401000" "PTE2PA (PA2PTE 0x402000 OR PTE_V) = 0x402000"
    by (simp_all add: PA2PTE_def PTE2PA_def)
  have k: "kids t 0x400000 = {i2}" "kid t 0x400000 i2 = 0x401000"
    "kids t 0x401000 = {i1}" "kid t 0x401000 i1 = 0x402000"
    using r(1,2) l v a by (auto simp: kids_def kid_def split: if_splits)
  show "pt_wf 2 t 0x400000" and "pages_of 2 t 0x400000 = {0x400000, 0x401000, 0x402000}"
    unfolding numeral_2_eq_2 using k by (simp_all add: aligned_def)
  show "pte_at 2 t 0x400000 va = e"
    unfolding numeral_2_eq_2 using r(1) [of i2] r(2) [of i1] r(3) [of i0] l v a
    by (simp add: Let_def i [symmetric, unfolded One_nat_def numeral_2_eq_2])
qed

lemma page_same_upd: "aligned p \<Longrightarrow> aligned q \<Longrightarrow> p \<noteq> q \<Longrightarrow> unat (x - q) < 4096 \<Longrightarrow> page_same p m (m(x := b))"
  using page_disjoint [of p q] by (fastforce simp: page_same_def)

end
