(* ===== verification/Proc.thy ===== *)
theory Proc
  imports Vm
begin

text \<open>
  Processes and scheduling, \<open>kernel/proc.c\<close>, without the routines that also touch
  the file system (they follow in theory \<open>Fork\<close>). \<open>sched\<close> and \<open>scheduler\<close> hand
  the hart over in \<open>swtch\<close>; what the process does after it is switched to again is
  the continuation of the outcome.
\<close>

section \<open>The scheduler\<close>

definition procinit :: "(unit, 'z procst_scheme) km" where
  "procinit =
     kthen (on_lks (initlock LPid ''nextpid''))
    (kthen (on_lks (initlock LWait ''wait_lock''))
     (kfor [0..<NPROC] (\<lambda>p.
       kthen (on_lks (initlock (LProc p) ''proc''))
         (set_proc p (\<lambda>q. q\<lparr>p_state := UNUSED\<rparr>)))))"

text \<open>Giving up the hart; the thread goes on in the state in which it is resumed.\<close>

definition swtch :: "(unit, 's) km" where
  "swtch s = Swtch s (kret ())"

definition set_cpu_proc :: "nat \<Rightarrow> nat option \<Rightarrow> (unit, 'z procst_scheme) km" where
  "set_cpu_proc c p =
     on_lks (\<lambda>l. l\<lparr>cpus := (cpus l)(c := (cpus l c)\<lparr>cpu_proc := p\<rparr>)\<rparr>)"

text \<open>One pass over the process table, on hart \<open>c\<close>; the result says whether a process ran.\<close>

primrec sched_scan :: "nat \<Rightarrow> nat list \<Rightarrow> bool \<Rightarrow> (bool, 'z procst_scheme) km" where
  "sched_scan c [] found = kret found"
| "sched_scan c (p # ps) found =
     kthen (acquire (LProc p))
    (kbind (get_proc p p_state) (\<lambda>st.
       if st = RUNNABLE then
         kthen (set_proc p (\<lambda>q. q\<lparr>p_state := RUNNING\<rparr>))
        (kthen (set_cpu_proc c (Some p))
        (kthen swtch
        (kthen (set_cpu_proc c None)
        (kthen (release (LProc p))
         (sched_scan c ps True)))))
       else kthen (release (LProc p)) (sched_scan c ps found)))"

text \<open>The endless loop of a hart, for a given number of passes; \<open>wfi\<close> has no effect on the state.\<close>

definition scheduler :: "nat \<Rightarrow> (unit, 'z procst_scheme) km" where
  "scheduler n = (\<lambda>s. let c = cpuid (lks s) in
     kthen (set_cpu_proc c None)
     (kloop n (\<lambda>_.
        kthen (on_lks intr_on)
       (kthen (on_lks intr_off)
       (kbind (sched_scan c [0..<NPROC] False) (\<lambda>found. kret (Inl ()))))) ()) s)"

definition sched :: "(unit, 'z procst_scheme) km" where
  "sched = kbind cur (\<lambda>p s.
     if \<not> holding (LProc p) (lks s) then Panic ''sched p->lock''
     else if noff (mycpu (lks s)) \<noteq> 1 then Panic ''sched locks''
     else if p_state (procs s p) = RUNNING then Panic ''sched RUNNING''
     else if intr_get (lks s) then Panic ''sched interruptible''
     else
       (let i = intena (mycpu (lks s))
        in kthen swtch (on_lks (set_mycpu (\<lambda>c. c\<lparr>intena := i\<rparr>))) s))"

definition yield :: "(unit, 'z procst_scheme) km" where
  "yield =
     kbind cur (\<lambda>p.
     kthen (acquire (LProc p))
    (kthen (set_proc p (\<lambda>q. q\<lparr>p_state := RUNNABLE\<rparr>))
    (kthen sched
     (release (LProc p)))))"

section \<open>Allocating and freeing processes\<close>

definition proc_freepagetable :: "u64 \<Rightarrow> u64 \<Rightarrow> (unit, 'z memst_scheme) km" where
  "proc_freepagetable pt sz =
     kthen (uvmunmap pt TRAMPOLINE 1 False)
    (kthen (uvmunmap pt TRAPFRAME 1 False)
     (uvmfree pt sz))"

definition freeproc :: "nat \<Rightarrow> (unit, 'z procst_scheme) km" where
  "freeproc p =
     kbind (get_proc p p_trapframe) (\<lambda>tf.
     kthen (kwhen (tf \<noteq> 0) (kfree tf))
    (kthen (set_proc p (\<lambda>q. q\<lparr>p_trapframe := 0\<rparr>))
    (kbind (get_proc p (\<lambda>q. (p_pagetable q, p_sz q))) (\<lambda>(pt, sz).
     kthen (kwhen (pt \<noteq> 0) (proc_freepagetable pt sz))
     (set_proc p (\<lambda>q. q\<lparr>p_pagetable := 0, p_sz := 0, p_pid := 0, p_parent := None,
        p_name := (p_name q)[0 := 0], p_chan := None, p_killed := False, p_xstate := 0,
        p_state := UNUSED\<rparr>))))))"

definition allocpid :: "(int, 'z procst_scheme) km" where
  "allocpid =
     kthen (acquire LPid)
    (kbind (kget nextpid) (\<lambda>pid.
     kthen (kmod (\<lambda>s. s\<lparr>nextpid := nextpid s + 1\<rparr>))
    (kthen (release LPid)
     (kret pid))))"

definition proc_pagetable :: "nat \<Rightarrow> (u64, 'z procst_scheme) km" where
  "proc_pagetable p =
     kbind uvmcreate (\<lambda>pt.
       if pt = 0 then kret 0
       else kbind (kget (\<lambda>s. sym_trampoline (ksym s))) (\<lambda>trampoline.
         kbind (mappages pt TRAMPOLINE PGSIZE trampoline
                 (PTE_R OR PTE_X OR PTE_A OR PTE_THEAD_MAEE)) (\<lambda>r.
           if r < 0 then kthen (uvmfree pt 0) (kret 0)
           else kbind (get_proc p p_trapframe) (\<lambda>tf.
             kbind (mappages pt TRAPFRAME PGSIZE tf
                     (PTE_R OR PTE_W OR PTE_A OR PTE_D OR PTE_THEAD_MAEE)) (\<lambda>r.
               if r < 0 then
                 kthen (uvmunmap pt TRAMPOLINE 1 False)
                (kthen (uvmfree pt 0) (kret 0))
               else kret pt)))))"

text \<open>
  Setting up \<open>p\<close> after its slot was found, with its lock held: what follows the
  allocation of the page table, what follows that of the trap frame, and the whole.
\<close>

definition allocproc_undo :: "nat \<Rightarrow> (nat option, 'z procst_scheme) km" where
  "allocproc_undo p = kthen (freeproc p) (kthen (release (LProc p)) (kret None))"

definition allocproc_pt :: "nat \<Rightarrow> u64 \<Rightarrow> (nat option, 'z procst_scheme) km" where
  "allocproc_pt p pt =
     kthen (set_proc p (\<lambda>q. q\<lparr>p_pagetable := pt\<rparr>))
     (if pt = 0 then allocproc_undo p
      else
        kbind (kget (\<lambda>s. sym_forkret (ksym s))) (\<lambda>forkret.
        kthen (set_proc p (\<lambda>q. q\<lparr>p_context := context_zero
           \<lparr>c_ra := forkret, c_sp := p_kstack q + PGSIZE\<rparr>\<rparr>))
        (kret (Some p))))"

definition allocproc_tf :: "nat \<Rightarrow> u64 \<Rightarrow> (nat option, 'z procst_scheme) km" where
  "allocproc_tf p tf =
     kthen (set_proc p (\<lambda>q. q\<lparr>p_trapframe := tf\<rparr>))
     (if tf = 0 then allocproc_undo p else kbind (proc_pagetable p) (allocproc_pt p))"

definition allocproc_found :: "nat \<Rightarrow> (nat option, 'z procst_scheme) km" where
  "allocproc_found p =
     kbind allocpid (\<lambda>pid.
     kthen (set_proc p (\<lambda>q. q\<lparr>p_pid := pid\<rparr>))
    (kthen (set_proc p (\<lambda>q. q\<lparr>p_state := USED\<rparr>))
    (kbind kalloc (allocproc_tf p))))"

definition allocproc_at :: "nat \<Rightarrow> (nat option, 'z procst_scheme) km" where
  "allocproc_at p =
     kthen (acquire (LProc p))
    (kbind (get_proc p p_state) (\<lambda>st.
       if st = UNUSED then kret (Some p)
       else kthen (release (LProc p)) (kret None)))"

definition allocproc :: "(nat option, 'z procst_scheme) km" where
  "allocproc =
     kbind (kscan [0..<NPROC] allocproc_at)
     (\<lambda>found. case found of None \<Rightarrow> kret None | Some p \<Rightarrow> allocproc_found p)"

definition prepare_return :: "(unit, 'z procst_scheme) km" where
  "prepare_return =
     kbind cur (\<lambda>p.
     kthen (on_lks intr_off)
    (kbind (kget ksym) (\<lambda>y.
     kthen (set_csr (\<lambda>c. c\<lparr>csr_stvec := TRAMPOLINE + (sym_uservec y - sym_trampoline y)\<rparr>))
    (kbind (get_csr csr_satp) (\<lambda>satp.
     kthen (set_tf p TFkernel_satp satp)
    (kbind (get_proc p p_kstack) (\<lambda>kstack.
     kthen (set_tf p TFkernel_sp (kstack + PGSIZE))
    (kthen (set_tf p TFkernel_trap (sym_usertrap y))
    (kbind (kget (\<lambda>s. of_nat (cpuid (lks s)))) (\<lambda>tp.
     kthen (set_tf p TFkernel_hartid tp)
    (kthen (on_lks (\<lambda>l. w_sstatus ((r_sstatus l AND NOT SSTATUS_SPP) OR SSTATUS_SPIE) l))
    (kbind (get_tf p TFepc) (\<lambda>epc.
     set_csr (\<lambda>c. c\<lparr>csr_sepc := epc\<rparr>))))))))))))))"

text \<open>\<open>n\<close> is an \<open>int\<close>; it is sign-extended when it is added to the size.\<close>

definition growproc :: "u32 \<Rightarrow> (int, 'z procst_scheme) km" where
  "growproc n =
     kbind cur (\<lambda>p.
     kbind (get_proc p (\<lambda>q. (p_sz q, p_pagetable q))) (\<lambda>(sz, pt).
       if 0 <s n then
         (if TRAPFRAME < sz + scast n then kret (- 1)
          else kbind (uvmalloc pt sz (sz + scast n) PTE_W) (\<lambda>sz'.
            if sz' = 0 then kret (- 1)
            else kthen (set_proc p (\<lambda>q. q\<lparr>p_sz := sz'\<rparr>)) (kret 0)))
       else if n <s 0 then
         kbind (uvmdealloc pt sz (sz + scast n)) (\<lambda>sz'.
           kthen (set_proc p (\<lambda>q. q\<lparr>p_sz := sz'\<rparr>)) (kret 0))
       else kthen (set_proc p (\<lambda>q. q\<lparr>p_sz := sz\<rparr>)) (kret 0)))"

section \<open>Sleeping and waking\<close>

definition sleep :: "chan \<Rightarrow> lockid \<Rightarrow> (unit, 'z procst_scheme) km" where
  "sleep ch lk =
     kbind cur (\<lambda>p.
     kthen (acquire (LProc p))
    (kthen (release lk)
    (kthen (set_proc p (\<lambda>q. q\<lparr>p_chan := Some ch\<rparr>))
    (kthen (set_proc p (\<lambda>q. q\<lparr>p_state := SLEEPING\<rparr>))
    (kthen sched
    (kthen (set_proc p (\<lambda>q. q\<lparr>p_chan := None\<rparr>))
    (kthen (release (LProc p))
     (acquire lk))))))))"

definition wakeup_at :: "chan option \<Rightarrow> nat \<Rightarrow> (unit, 'z procst_scheme) km" where
  "wakeup_at ch p =
     kbind myproc (\<lambda>me.
       if Some p \<noteq> me then
         kthen (acquire (LProc p))
        (kthen (set_proc p (\<lambda>q.
           if p_state q = SLEEPING \<and> p_chan q = ch then q\<lparr>p_state := RUNNABLE\<rparr> else q))
         (release (LProc p)))
       else kret ())"

definition wakeup :: "chan option \<Rightarrow> (unit, 'z procst_scheme) km" where
  "wakeup ch = kfor [0..<NPROC] (wakeup_at ch)"

definition setkilled :: "nat \<Rightarrow> (unit, 'z procst_scheme) km" where
  "setkilled p =
     kthen (acquire (LProc p))
    (kthen (set_proc p (\<lambda>q. q\<lparr>p_killed := True\<rparr>))
     (release (LProc p)))"

definition killed :: "nat \<Rightarrow> (bool, 'z procst_scheme) km" where
  "killed p =
     kthen (acquire (LProc p))
    (kbind (get_proc p p_killed) (\<lambda>k.
     kthen (release (LProc p))
     (kret k)))"

definition kkill_at :: "int \<Rightarrow> nat \<Rightarrow> (int option, 'z procst_scheme) km" where
  "kkill_at pid p =
     kthen (acquire (LProc p))
    (kbind (get_proc p p_pid) (\<lambda>q.
       if q = pid then
         kthen (set_proc p (\<lambda>q. q\<lparr>p_killed := True\<rparr>))
        (kthen (set_proc p (\<lambda>q. if p_state q = SLEEPING then q\<lparr>p_state := RUNNABLE\<rparr> else q))
        (kthen (release (LProc p))
         (kret (Some 0))))
       else kthen (release (LProc p)) (kret None)))"

definition kkill :: "int \<Rightarrow> (int, 'z procst_scheme) km" where
  "kkill pid =
     kbind (kscan [0..<NPROC] (kkill_at pid))
     (\<lambda>r. case r of Some x \<Rightarrow> kret x | None \<Rightarrow> kret (- 1))"

section \<open>Exit and wait\<close>

definition reparent_at :: "nat \<Rightarrow> nat \<Rightarrow> (unit, 'z procst_scheme) km" where
  "reparent_at p pp =
     kbind (get_proc pp p_parent) (\<lambda>par.
       if par = Some p then
         kbind (kget initproc) (\<lambda>ip.
         kthen (set_proc pp (\<lambda>q. q\<lparr>p_parent := ip\<rparr>))
         (wakeup (map_option Cproc ip)))
       else kret ())"

definition reparent :: "nat \<Rightarrow> (unit, 'z procst_scheme) km" where
  "reparent p = kfor [0..<NPROC] (reparent_at p)"

definition kexit :: "u32 \<Rightarrow> ('a, 'z procst_scheme) km" where
  "kexit status =
     kbind cur (\<lambda>p.
     kbind (kget initproc) (\<lambda>ip.
       if ip = Some p then kpanic ''init exiting''
       else
         kthen (acquire LWait)
        (kthen (reparent p)
        (kbind (get_proc p p_parent) (\<lambda>par.
         kthen (wakeup (map_option Cproc par))
        (kthen (acquire (LProc p))
        (kthen (set_proc p (\<lambda>q. q\<lparr>p_xstate := status\<rparr>))
        (kthen (set_proc p (\<lambda>q. q\<lparr>p_state := ZOMBIE\<rparr>))
        (kthen (release LWait)
        (kthen sched
         (kpanic ''zombie exit'')))))))))))"

text \<open>
  One scan of \<open>kwait\<close> over the table: it ends with a result as soon as a zombie child
  is found, and otherwise says whether there are children at all.
\<close>

primrec kwait_scan :: "nat \<Rightarrow> u64 \<Rightarrow> nat list \<Rightarrow> bool \<Rightarrow> (bool + int, 'z procst_scheme) km" where
  "kwait_scan p addr [] havekids = kret (Inl havekids)"
| "kwait_scan p addr (pp # ps) havekids =
     kbind (get_proc pp p_parent) (\<lambda>par.
       if par = Some p then
         kthen (acquire (LProc pp))
        (kbind (get_proc pp (\<lambda>q. q)) (\<lambda>child.
           if p_state child = ZOMBIE then
             kbind (get_proc p p_pagetable) (\<lambda>pt.
             kbind (if addr \<noteq> 0 then copyout pt addr (le_split 4 (p_xstate child)) else kret 0) (\<lambda>r.
               if addr \<noteq> 0 \<and> r < 0 then
                 kthen (release (LProc pp))
                (kthen (release LWait)
                 (kret (Inr (- 1))))
               else
                 kthen (freeproc pp)
                (kthen (release (LProc pp))
                (kthen (release LWait)
                 (kret (Inr (p_pid child)))))))
           else kthen (release (LProc pp)) (kwait_scan p addr ps True)))
       else kwait_scan p addr ps havekids)"

definition kwait :: "u64 \<Rightarrow> (int, 'z procst_scheme) km" where
  "kwait addr =
     kbind cur (\<lambda>p.
     kthen (acquire LWait)
     (\<lambda>s. kloop (rounds s) (\<lambda>_.
        kbind (kwait_scan p addr [0..<NPROC] False) (\<lambda>x.
          case x of
            Inr r \<Rightarrow> kret (Inr r)
          | Inl havekids \<Rightarrow>
              kbind (if \<not> havekids then kret True else killed p) (\<lambda>quit.
                if quit then kthen (release LWait) (kret (Inr (- 1)))
                else kthen (sleep (Cproc p) LWait) (kret (Inl ()))))) () s))"

section \<open>Copying to user or kernel memory\<close>

definition either_copyout :: "bool \<Rightarrow> u64 \<Rightarrow> u8 list \<Rightarrow> (int, 'z procst_scheme) km" where
  "either_copyout user_dst dst src =
     kbind myproc (\<lambda>p.
       if user_dst then
         (case p of
            None \<Rightarrow> kpanic ''kerneltrap''
          | Some i \<Rightarrow> kbind (get_proc i p_pagetable) (\<lambda>pt. copyout pt dst src))
       else kthen (st_bytes dst (take (unat (of_nat (length src) :: u32)) src)) (kret 0))"

definition either_copyin :: "bool \<Rightarrow> u64 \<Rightarrow> u64 \<Rightarrow> (int \<times> u8 list, 'z procst_scheme) km" where
  "either_copyin user_src src len =
     kbind myproc (\<lambda>p.
       if user_src then
         (case p of
            None \<Rightarrow> kpanic ''kerneltrap''
          | Some i \<Rightarrow> kbind (get_proc i p_pagetable) (\<lambda>pt. copyin pt src len))
       else kbind (kget (\<lambda>s. read_bytes (mem s) src (unat (ucast len :: u32)))) (\<lambda>bs. kret (0, bs)))"

section \<open>Waking exactly the sleepers\<close>

definition woken :: "chan option \<Rightarrow> proc \<Rightarrow> proc" where
  "woken ch q = (if p_state q = SLEEPING \<and> p_chan q = ch then q\<lparr>p_state := RUNNABLE\<rparr> else q)"

text \<open>The process locks of all slots but the running one are free.\<close>

definition procs_free :: "'z procst_scheme \<Rightarrow> bool" where
  "procs_free s \<longleftrightarrow> lk_wf (lks s) \<and>
     (\<forall>p. Some p \<noteq> cpu_proc (mycpu (lks s)) \<longrightarrow> \<not> locked (locks (lks s) (LProc p)))"

lemma my_proc_touch [simp]: "cpu_proc (mycpu (touch l)) = cpu_proc (mycpu l)"
  by (simp add: touch_def lk_defs)

lemma procs_free_touch [simp]: "procs_free (s\<lparr>lks := touch (lks s)\<rparr>) = procs_free s"
  by (simp add: procs_free_def)

lemma procs_free_procs [simp]: "procs_free (s\<lparr>procs := f\<rparr>) = procs_free s"
  by (simp add: procs_free_def)

text \<open>A small kernel for the examples: process 0 runs on hart 0, all locks are free.\<close>

definition zero_proc :: proc where
  "zero_proc = \<lparr>p_state = UNUSED, p_chan = None, p_killed = False, p_xstate = 0, p_pid = 0,
     p_parent = None, p_kstack = 0, p_sz = 0, p_pagetable = 0, p_trapframe = 0,
     p_context = context_zero, p_ofile = (\<lambda>_. None), p_cwd = None, p_name = replicate 16 0\<rparr>"

definition busy_lkst :: lkst where
  "busy_lkst = idle_lkst\<lparr>cpus := (\<lambda>_. \<lparr>cpu_proc = Some 0, cpu_context = context_zero,
     noff = 0, intena = False\<rparr>)\<rparr>"

definition small_procst :: "(nat \<Rightarrow> proc) \<Rightarrow> procst" where
  "small_procst f = \<lparr>lks = busy_lkst, mem = (\<lambda>_. 0), freelist = 0, k_end = 0x210000,
     procs = f, nextpid = 100, initproc = Some 1, ticks = 0, kernel_pagetable = 0,
     csr = (\<lambda>_. \<lparr>csr_satp = 0, csr_stvec = 0, csr_sepc = 0, csr_scause = 0, csr_stval = 0, csr_stimecmp = 0\<rparr>),
     ksym = \<lparr>sym_etext = 0, sym_trampoline = 0, sym_uservec = 0, sym_userret = 0, sym_usertrap = 0,
       sym_kernelvec = 0, sym_forkret = 0\<rparr>,
     fork_first = False, timer = 0, rounds = 10\<rparr>"

lemma lk_wf_busy [simp]: "lk_wf busy_lkst"
  by (simp add: lk_wf_def busy_lkst_def idle_lkst_def)

lemma busy_simps [simp]:
  "\<not> locked (locks busy_lkst lk)" "cpu_proc (mycpu busy_lkst) = Some 0" "noff (mycpu busy_lkst) = 0"
  by (simp_all add: busy_lkst_def idle_lkst_def lk_defs)

lemma small_procst_sel [simp]:
  "lks (small_procst f) = busy_lkst" "procs (small_procst f) = f" "nextpid (small_procst f) = 100"
  "initproc (small_procst f) = Some 1"
  by (simp_all add: small_procst_def)

lemma procs_free_small [simp]: "procs_free (small_procst f)"
  by (simp add: procs_free_def)

lemma wakeup_at_ok:
  assumes "procs_free s"
  shows "wakeup_at ch p s = Ok () (s\<lparr>lks := touch (lks s), procs := (procs s)(p :=
    if Some p \<noteq> cpu_proc (mycpu (lks s)) then woken ch (procs s p) else procs s p)\<rparr>)"
  using assms by (auto simp: wakeup_at_def procs_free_def lk_free_def woken_def)

lemma wakeup_scan:
  assumes "procs_free s" and "distinct ps"
  shows "kfor ps (wakeup_at ch) s =
    Ok () (s\<lparr>lks := if ps = [] then lks s else touch (lks s),
      procs := (\<lambda>p. if p \<in> set ps \<and> Some p \<noteq> cpu_proc (mycpu (lks s))
                   then woken ch (procs s p) else procs s p)\<rparr>)"
  using assms
proof (induction ps arbitrary: s)
  case Nil
  then show ?case by simp
next
  case (Cons p ps)
  let ?t = "s\<lparr>lks := touch (lks s), procs := (procs s)(p :=
    if Some p \<noteq> cpu_proc (mycpu (lks s)) then woken ch (procs s p) else procs s p)\<rparr>"
  have "procs_free ?t" using Cons.prems(1) by simp
  then show ?case
    using Cons.IH [of ?t] Cons.prems(2) by (auto simp: wakeup_at_ok [OF Cons.prems(1)] fun_eq_iff)
qed

lemma wakeup_ok:
  assumes "procs_free s"
  shows "wakeup ch s = Ok () (s\<lparr>lks := touch (lks s),
    procs := (\<lambda>p. if p < NPROC \<and> Some p \<noteq> cpu_proc (mycpu (lks s))
                 then woken ch (procs s p) else procs s p)\<rparr>)"
  using wakeup_scan [OF assms, of "[0..<NPROC]" ch] by (simp add: wakeup_def)

text \<open>
  C22: \<open>wakeup\<close> makes runnable exactly the sleepers on its channel, except the caller;
  no other field of any process changes.
\<close>

theorem wakeup_exact:
  assumes "procs_free s"
  shows "\<exists>t. wakeup ch s = Ok () t \<and>
    (\<forall>p. procs t p =
       (if p < NPROC \<and> Some p \<noteq> cpu_proc (mycpu (lks s)) \<and>
           p_state (procs s p) = SLEEPING \<and> p_chan (procs s p) = ch
        then (procs s p)\<lparr>p_state := RUNNABLE\<rparr> else procs s p)) \<and>
    locks (lks t) = locks (lks s) \<and> mem t = mem s"
  using wakeup_ok [OF assms, of ch] by (auto simp: woken_def)

theorem wakeup_exact_witness:
  "\<exists>t. wakeup (Some Cticks) (small_procst (\<lambda>p. zero_proc\<lparr>p_state := SLEEPING, p_chan := Some Cticks\<rparr>)) = Ok () t \<and>
     p_state (procs t 5) = RUNNABLE \<and> p_state (procs t 0) = SLEEPING"
  using wakeup_exact [OF procs_free_small, of "Some Cticks"
      "\<lambda>p. zero_proc\<lparr>p_state := SLEEPING, p_chan := Some Cticks\<rparr>"] by auto

section \<open>Sleeping\<close>

lemma intena_acqd: "noff (mycpu l) = 0 \<Longrightarrow> intena (mycpu (acqd lk l)) = intr_get l"
  by (simp add: acqd_def push_off_def Let_def lk_defs)

lemma noff_acqd_Suc: "noff (mycpu (acqd lk l)) = noff (mycpu l) + 1"
  by (simp add: acqd_def push_off_def Let_def lk_defs)

lemma intr_get_acqd [simp]: "\<not> intr_get (acqd lk l)"
  by (simp add: acqd_def push_off_def Let_def lk_defs sie_simps)

lemma my_proc_acqd [simp]: "cpu_proc (mycpu (acqd lk l)) = cpu_proc (mycpu l)"
  by (simp add: mycpu_def cpuid_def)

lemma sched_ok:
  assumes "lks s = acqd (LProc p) l" and "lk_wf l" and "noff (mycpu l) = 0"
    and "cpu_proc (mycpu l) = Some p" and "p_state (procs s p) \<noteq> RUNNING"
  shows "sched s = Swtch s (\<lambda>t. Ok () (t\<lparr>lks := set_mycpu (\<lambda>c. c\<lparr>intena := intr_get l\<rparr>) (lks t)\<rparr>))"
proof -
  have "cur s = Ok p s"
    using assms cur_ok [of s p] by simp
  then show ?thesis
    using assms by (simp add: sched_def noff_acqd_Suc intena_acqd swtch_def kbind_def)
qed

text \<open>
  What a sleeping process does when it is switched to again: it clears its channel,
  lets go of its own lock and takes the caller's lock back.
\<close>

definition sleep_resume :: "nat \<Rightarrow> bool \<Rightarrow> lockid \<Rightarrow> (unit, 'z procst_scheme) km" where
  "sleep_resume p i lk =
     kthen (on_lks (set_mycpu (\<lambda>c. c\<lparr>intena := i\<rparr>)))
    (kthen (set_proc p (\<lambda>q. q\<lparr>p_chan := None\<rparr>))
    (kthen (release (LProc p))
     (acquire lk)))"

lemma release_outer_ok:
  assumes "lks s = acqd b (acqd a l)" and "lk_wf l" and "\<not> locked (locks l a)"
    and "\<not> locked (locks l b)" and "a \<noteq> b"
  shows "release a s = Ok () (s\<lparr>lks := acqd b l\<rparr>)"
  using assms by (simp add: release_def release_outer)

lemma sleep_ok:
  assumes "lks s = acqd lk l" and "lk_wf l" and "noff (mycpu l) = 0"
    and "cpu_proc (mycpu l) = Some p" and "\<not> locked (locks l lk)"
    and "\<not> locked (locks l (LProc p))" and "lk \<noteq> LProc p"
  shows "sleep ch lk s =
    Swtch (s\<lparr>lks := acqd (LProc p) l,
             procs := (procs s)(p := (procs s p)\<lparr>p_chan := Some ch, p_state := SLEEPING\<rparr>)\<rparr>)
      (sleep_resume p (intr_get l) lk)"
proof -
  let ?s1 = "s\<lparr>lks := acqd (LProc p) (acqd lk l)\<rparr>"
  let ?s2 = "s\<lparr>lks := acqd (LProc p) l\<rparr>"
  let ?t = "?s2\<lparr>procs := (procs s)(p := (procs s p)\<lparr>p_chan := Some ch, p_state := SLEEPING\<rparr>)\<rparr>"
  have c: "cur s = Ok p s" using assms cur_ok [of s p] by simp
  have a: "acquire (LProc p) s = Ok () ?s1"
    using assms by (simp add: lk_free_def)
  have r: "release lk ?s1 = Ok () ?s2"
    using release_outer_ok [of ?s1 "LProc p" lk l] assms by simp
  have sc: "sched ?t = Swtch ?t (\<lambda>t. Ok () (t\<lparr>lks := set_mycpu (\<lambda>c. c\<lparr>intena := intr_get l\<rparr>) (lks t)\<rparr>))"
    by (rule sched_ok [of _ p]) (use assms in simp_all)
  have k: "kbind (\<lambda>t. Ok () (t\<lparr>lks := set_mycpu (\<lambda>c. c\<lparr>intena := i\<rparr>) (lks t)\<rparr>)) f =
      kbind (on_lks (set_mycpu (\<lambda>c. c\<lparr>intena := i\<rparr>))) f" for i and f :: "unit \<Rightarrow> (unit, 'a procst_scheme) km"
    by (simp add: fun_eq_iff kbind_def)
  show ?thesis
    unfolding sleep_def using c a r sc by (simp add: sleep_resume_def k)
qed

text \<open>
  C21: A process that calls \<open>sleep\<close> while it holds only the lock \<open>lk\<close> gives up the hart
  asleep on its channel, with \<open>lk\<close> free again and its own process lock held, so that
  nobody can look at it half asleep. From any later state in which it still sleeps and
  the process locks are free, a \<open>wakeup\<close> of the channel by another process makes it
  runnable; when it is resumed it clears its channel and holds \<open>lk\<close> again.
\<close>

theorem sleep_then_wakeup:
  fixes s :: "'z procst_scheme"
  assumes "lks s = acqd lk l" and "lk_wf l" and "noff (mycpu l) = 0"
    and "cpu_proc (mycpu l) = Some p" and "\<not> locked (locks l lk)"
    and "\<not> locked (locks l (LProc p))" and "lk \<noteq> LProc p" and "p < NPROC"
  shows "\<exists>t k. sleep ch lk s = Swtch t k \<and>
    p_state (procs t p) = SLEEPING \<and> p_chan (procs t p) = Some ch \<and>
    holding (LProc p) (lks t) \<and> \<not> locked (locks (lks t) lk) \<and>
    (\<forall>u :: 'z procst_scheme. procs u p = procs t p \<and> procs_free u \<and> cpu_proc (mycpu (lks u)) \<noteq> Some p \<longrightarrow>
       (\<exists>v. wakeup (Some ch) u = Ok () v \<and> procs v p = (procs t p)\<lparr>p_state := RUNNABLE\<rparr>)) \<and>
    (\<forall>u v. k u = Ok () v \<longrightarrow>
       p_chan (procs v p) = None \<and> locked (locks (lks v) lk) \<and>
       procs v = (procs u)(p := (procs u p)\<lparr>p_chan := None\<rparr>))"
proof -
  define t where "t = s\<lparr>lks := acqd (LProc p) l,
      procs := (procs s)(p := (procs s p)\<lparr>p_chan := Some ch, p_state := SLEEPING\<rparr>)\<rparr>"
  have so: "sleep ch lk s = Swtch t (sleep_resume p (intr_get l) lk)"
    unfolding t_def by (rule sleep_ok [OF assms(1-7)])
  have t: "p_state (procs t p) = SLEEPING" "p_chan (procs t p) = Some ch"
    "holding (LProc p) (lks t)" "\<not> locked (locks (lks t) lk)"
    using assms(5,7) by (simp_all add: t_def)
  have wake: "\<exists>v. wakeup (Some ch) u = Ok () v \<and> procs v p = (procs t p)\<lparr>p_state := RUNNABLE\<rparr>"
    if "procs u p = procs t p \<and> procs_free u \<and> cpu_proc (mycpu (lks u)) \<noteq> Some p"
    for u :: "'z procst_scheme"
    using wakeup_ok [of u "Some ch"] that assms(8) t(1,2) by (auto simp: woken_def)
  have "p_chan (procs v p) = None \<and> locked (locks (lks v) lk) \<and>
      procs v = (procs u)(p := (procs u p)\<lparr>p_chan := None\<rparr>)"
    if "sleep_resume p i lk u = Ok () v" for i and u v :: "'z procst_scheme"
    using that unfolding sleep_resume_def by (auto simp: kbind_eq_Ok acquire_Ok_iff dest!: release_OkD)
  with so t wake show ?thesis by blast
qed

theorem sleep_then_wakeup_witness:
  "\<exists>t k. sleep Cticks LTicks (small_procst (\<lambda>_. zero_proc)\<lparr>lks := acqd LTicks busy_lkst\<rparr>) = Swtch t k \<and>
     p_state (procs t 0) = SLEEPING \<and> \<not> locked (locks (lks t) LTicks)"
  using sleep_then_wakeup [of "small_procst (\<lambda>_. zero_proc)\<lparr>lks := acqd LTicks busy_lkst\<rparr>"
      LTicks busy_lkst 0 Cticks] by simp blast

section \<open>Killing\<close>

definition all_procs_free :: "'z procst_scheme \<Rightarrow> bool" where
  "all_procs_free s \<longleftrightarrow> lk_wf (lks s) \<and> (\<forall>p. \<not> locked (locks (lks s) (LProc p)))"

definition kill_mark :: "proc \<Rightarrow> proc" where
  "kill_mark q = (if p_state q = SLEEPING then q\<lparr>p_killed := True, p_state := RUNNABLE\<rparr>
                  else q\<lparr>p_killed := True\<rparr>)"

lemma all_procs_free_upd [simp]:
  "all_procs_free (s\<lparr>lks := touch (lks s)\<rparr>) = all_procs_free s"
  "all_procs_free (s\<lparr>procs := f\<rparr>) = all_procs_free s"
  by (simp_all add: all_procs_free_def)

lemma kkill_at_ok:
  assumes "all_procs_free s"
  shows "kkill_at pid p s =
    (if p_pid (procs s p) = pid
     then Ok (Some 0) (s\<lparr>lks := touch (lks s), procs := (procs s)(p := kill_mark (procs s p))\<rparr>)
     else Ok None (s\<lparr>lks := touch (lks s)\<rparr>))"
  using assms by (simp add: kkill_at_def all_procs_free_def lk_free_def kill_mark_def)

lemma kkill_scan:
  assumes "all_procs_free s"
  shows "\<exists>l. kscan ps (kkill_at pid) s =
    (case find (\<lambda>p. p_pid (procs s p) = pid) ps of
       None \<Rightarrow> Ok None (s\<lparr>lks := l\<rparr>)
     | Some p \<Rightarrow> Ok (Some 0) (s\<lparr>lks := l, procs := (procs s)(p := kill_mark (procs s p))\<rparr>))"
  using assms
proof (induction ps arbitrary: s)
  case Nil
  then show ?case by (auto intro: exI [of _ "lks s"])
next
  case (Cons p ps)
  note at = kkill_at_ok [OF Cons.prems, of pid p]
  show ?case
  proof (cases "p_pid (procs s p) = pid")
    case True
    with at show ?thesis by auto
  next
    case False
    let ?t = "s\<lparr>lks := touch (lks s)\<rparr>"
    obtain l where "kscan ps (kkill_at pid) ?t =
      (case find (\<lambda>p. p_pid (procs ?t p) = pid) ps of
         None \<Rightarrow> Ok None (?t\<lparr>lks := l\<rparr>)
       | Some p \<Rightarrow> Ok (Some 0) (?t\<lparr>lks := l, procs := (procs ?t)(p := kill_mark (procs ?t p))\<rparr>))"
      using Cons.IH [of ?t] Cons.prems unfolding all_procs_free_upd by blast
    with at False show ?thesis by (intro exI [of _ l]) (simp add: fun_upd_def split: option.split)
  qed
qed

text \<open>
  C25: \<open>kkill\<close> marks the first slot of the process table whose pid field is the given
  number, wakes it if it sleeps, and returns 0; it returns -1 when there is none. It
  does not look at the state of the slot: pid 0 selects an unused slot.
\<close>

theorem kkill_first:
  assumes "all_procs_free s"
  shows "\<exists>t. kkill pid s = Ok (if \<exists>p < NPROC. p_pid (procs s p) = pid then 0 else - 1) t \<and>
    procs t = (case find (\<lambda>p. p_pid (procs s p) = pid) [0..<NPROC] of
       None \<Rightarrow> procs s
     | Some p \<Rightarrow> (procs s)(p := kill_mark (procs s p)))"
proof -
  have "find (\<lambda>p. p_pid (procs s p) = pid) [0..<NPROC] = None \<longleftrightarrow> \<not> (\<exists>p < NPROC. p_pid (procs s p) = pid)"
    by (auto simp: find_None_iff)
  moreover obtain l where "kkill pid s = (case find (\<lambda>p. p_pid (procs s p) = pid) [0..<NPROC] of
       None \<Rightarrow> Ok (- 1) (s\<lparr>lks := l\<rparr>)
     | Some p \<Rightarrow> Ok 0 (s\<lparr>lks := l, procs := (procs s)(p := kill_mark (procs s p))\<rparr>))"
    using kkill_scan [OF assms, of "[0..<NPROC]" pid] unfolding kkill_def
    by (cases "find (\<lambda>p. p_pid (procs s p) = pid) [0..<NPROC]") (auto simp del: upt.simps upt_Suc)
  ultimately show ?thesis
    by (cases "find (\<lambda>p. p_pid (procs s p) = pid) [0..<NPROC]") auto
qed

lemma all_procs_free_small [simp]: "all_procs_free (small_procst f)"
  by (simp add: all_procs_free_def)

theorem kkill_first_witness:
  "\<exists>t. kkill 7 (small_procst (\<lambda>p. zero_proc\<lparr>p_pid := int p\<rparr>)) = Ok 0 t"
  using kkill_first [OF all_procs_free_small, of 7 "\<lambda>p. zero_proc\<lparr>p_pid := int p\<rparr>"]
  by (auto intro: exI [of _ 7] split: if_splits)

section \<open>Allocation of processes\<close>

lemma keeps_proc_freepagetable [keeps_rules]: "beyond_mem f \<Longrightarrow> keeps f (proc_freepagetable pt sz)"
  unfolding proc_freepagetable_def by (intro keeps_rules)

lemma keeps_proc_pagetable [keeps_rules]: "beyond_mem f \<Longrightarrow> keeps f (proc_pagetable p)"
  unfolding proc_pagetable_def by (intro keeps_rules)

text \<open>The process structure after \<open>freeproc\<close>; the open files and the directory stay.\<close>

definition freed :: "proc \<Rightarrow> proc" where
  "freed q = q\<lparr>p_trapframe := 0, p_pagetable := 0, p_sz := 0, p_pid := 0, p_parent := None,
     p_name := (p_name q)[0 := 0], p_chan := None, p_killed := False, p_xstate := 0,
     p_state := UNUSED\<rparr>"

lemma kfree_OkD:
  assumes "kfree pa s = Ok u t"
  shows "procs t = procs s" "nextpid t = nextpid s"
  using keepsD [OF keeps_kfree [of procs] assms] keepsD [OF keeps_kfree [of nextpid] assms] by simp_all

lemma freeproc_OkD:
  assumes "freeproc p s = Ok u t"
  shows "procs t = (procs s)(p := freed (procs s p)) \<and> nextpid t = nextpid s"
proof -
  obtain s1 where 1: "kwhen (p_trapframe (procs s p) \<noteq> 0) (kfree (p_trapframe (procs s p))) s = Ok () s1"
    and 2: "kthen (kwhen (p_pagetable (procs s1 p) \<noteq> 0)
        (proc_freepagetable (p_pagetable (procs s1 p)) (p_sz (procs s1 p))))
      (set_proc p (\<lambda>q. q\<lparr>p_pagetable := 0, p_sz := 0, p_pid := 0, p_parent := None,
        p_name := (p_name q)[0 := 0], p_chan := None, p_killed := False, p_xstate := 0,
        p_state := UNUSED\<rparr>)) (s1\<lparr>procs := (procs s1)(p := (procs s1 p)\<lparr>p_trapframe := 0\<rparr>)\<rparr>) = Ok u t"
    using assms unfolding freeproc_def by (auto simp: kbind_eq_Ok)
  have "keeps procs (kwhen b (kfree x))" "keeps nextpid (kwhen b (kfree x))" for b x
    by (intro keeps_rules; simp)+
  then have s1: "procs s1 = procs s" "nextpid s1 = nextpid s" using 1 unfolding keeps_def by blast+
  obtain s2 where 3: "kwhen (p_pagetable (procs s1 p) \<noteq> 0)
        (proc_freepagetable (p_pagetable (procs s1 p)) (p_sz (procs s1 p)))
      (s1\<lparr>procs := (procs s1)(p := (procs s1 p)\<lparr>p_trapframe := 0\<rparr>)\<rparr>) = Ok () s2"
    and t: "t = s2\<lparr>procs := (procs s2)(p := (procs s2 p)\<lparr>p_pagetable := 0, p_sz := 0, p_pid := 0, p_parent := None,
        p_name := (p_name (procs s2 p))[0 := 0], p_chan := None, p_killed := False, p_xstate := 0,
        p_state := UNUSED\<rparr>)\<rparr>"
    using 2 by (auto simp: kbind_eq_Ok)
  have "keeps procs (kwhen b (proc_freepagetable x y))" "keeps nextpid (kwhen b (proc_freepagetable x y))" for b x y
    by (intro keeps_rules; simp)+
  then have "procs s2 = (procs s1)(p := (procs s1 p)\<lparr>p_trapframe := 0\<rparr>)" "nextpid s2 = nextpid s1"
    using 3 unfolding keeps_def by fastforce+
  with s1 t show ?thesis by (simp add: freed_def)
qed

lemma allocpid_OkD:
  assumes "allocpid s = Ok pid t"
  shows "pid = nextpid s \<and> nextpid t = nextpid s + 1 \<and> procs t = procs s"
  using assms unfolding allocpid_def
  by (auto simp: kbind_eq_Ok acquire_Ok_iff dest!: release_OkD)

lemma allocproc_scan:
  assumes "kscan ps allocproc_at s = Ok r t"
  shows "procs t = procs s \<and> nextpid t = nextpid s \<and>
    r = find (\<lambda>p. p_state (procs s p) = UNUSED) ps"
  using assms
proof (induction ps arbitrary: s)
  case Nil
  then show ?case by simp
next
  case (Cons p ps)
  then obtain x u where x: "allocproc_at p s = Ok x u"
    "(case x of None \<Rightarrow> kscan ps allocproc_at | Some r \<Rightarrow> kret (Some r)) u = Ok r t"
    by (auto simp: kbind_eq_Ok)
  have u: "procs u = procs s \<and> nextpid u = nextpid s \<and>
      x = (if p_state (procs s p) = UNUSED then Some p else None)"
    using x(1) unfolding allocproc_at_def
    by (auto simp: kbind_eq_Ok acquire_Ok_iff split: if_splits dest!: release_OkD)
  then show ?case using x(2) Cons.IH [of u] by (auto split: if_splits)
qed

lemma release_kept: "release lk s = Ok u t \<Longrightarrow> procs t = procs s \<and> nextpid t = nextpid s"
  by (auto dest!: release_OkD)

lemma allocproc_undo_OkD:
  assumes "allocproc_undo p s = Ok r t"
  shows "r = None \<and> procs t = (procs s)(p := freed (procs s p)) \<and> nextpid t = nextpid s"
  using assms unfolding allocproc_undo_def by (auto simp: kbind_eq_Ok dest!: freeproc_OkD release_kept)

lemma freed_upd [simp]:
  "freed (q\<lparr>p_pid := a\<rparr>) = freed q" "freed (q\<lparr>p_state := b\<rparr>) = freed q"
  "freed (q\<lparr>p_trapframe := c\<rparr>) = freed q" "freed (q\<lparr>p_pagetable := d\<rparr>) = freed q"
  by (simp_all add: freed_def)

text \<open>The outcome of the steps on slot \<open>p\<close>: a process set up from \<open>q\<close>, or the slot freed.\<close>

definition set_up :: "nat \<Rightarrow> proc \<Rightarrow> nat option \<Rightarrow> 'z procst_scheme \<Rightarrow> 'z procst_scheme \<Rightarrow> bool" where
  "set_up p q r s t \<longleftrightarrow> nextpid t = nextpid s \<and>
     (r = None \<and> procs t = (procs s)(p := freed q) \<or>
      (\<exists>tf pt c. r = Some p \<and> procs t = (procs s)(p := q\<lparr>p_trapframe := tf, p_pagetable := pt, p_context := c\<rparr>)))"

lemma allocproc_pt_OkD:
  assumes "allocproc_pt p pt s = Ok r t"
  shows "set_up p (procs s p) r s t"
proof (cases "pt = 0")
  case True
  then have "allocproc_undo p (s\<lparr>procs := (procs s)(p := (procs s p)\<lparr>p_pagetable := pt\<rparr>)\<rparr>) = Ok r t"
    using assms by (simp add: allocproc_pt_def)
  from allocproc_undo_OkD [OF this] show ?thesis by (simp add: set_up_def)
next
  case False
  let ?c = "context_zero\<lparr>c_ra := sym_forkret (ksym s), c_sp := p_kstack (procs s p) + PGSIZE\<rparr>"
  have "r = Some p" and "t = s\<lparr>procs := (procs s)(p := (procs s p)\<lparr>p_pagetable := pt, p_context := ?c\<rparr>)\<rparr>"
    using assms False by (simp_all add: allocproc_pt_def)
  then have "nextpid t = nextpid s \<and> r = Some p \<and> procs t = (procs s)(p := (procs s p)
      \<lparr>p_trapframe := p_trapframe (procs s p), p_pagetable := pt, p_context := ?c\<rparr>)"
    by simp
  then show ?thesis unfolding set_up_def by blast
qed

lemma allocproc_tf_OkD:
  assumes "allocproc_tf p tf s = Ok r t"
  shows "set_up p (procs s p) r s t"
proof -
  let ?q = "(procs s p)\<lparr>p_trapframe := tf\<rparr>"
  let ?s1 = "s\<lparr>procs := (procs s)(p := ?q)\<rparr>"
  show ?thesis
  proof (cases "tf = 0")
    case True
    then have "allocproc_undo p ?s1 = Ok r t" using assms by (simp add: allocproc_tf_def)
    from allocproc_undo_OkD [OF this] show ?thesis by (simp add: set_up_def)
  next
    case False
    then have "kbind (proc_pagetable p) (allocproc_pt p) ?s1 = Ok r t"
      using assms by (simp add: allocproc_tf_def)
    then obtain pt s2 where 1: "proc_pagetable p ?s1 = Ok pt s2" and 2: "allocproc_pt p pt s2 = Ok r t"
      by (rule kbind_OkE)
    have s2: "procs s2 = (procs s)(p := ?q)" "nextpid s2 = nextpid s"
      using keepsD [OF keeps_proc_pagetable [of procs] 1] keepsD [OF keeps_proc_pagetable [of nextpid] 1]
      by simp_all
    from allocproc_pt_OkD [OF 2] have "set_up p ?q r s2 t" by (simp add: s2)
    then show ?thesis using s2 unfolding set_up_def by auto
  qed
qed

lemma allocproc_found_OkD:
  assumes "allocproc_found p s = Ok r t"
  shows "\<exists>u. procs u = (procs s)(p := (procs s p)\<lparr>p_pid := nextpid s, p_state := USED\<rparr>) \<and>
    nextpid u = nextpid s + 1 \<and> set_up p (procs u p) r u t"
proof -
  let ?q = "(procs s p)\<lparr>p_pid := nextpid s, p_state := USED\<rparr>"
  obtain s1 where s1: "procs s1 = procs s" "nextpid s1 = nextpid s + 1"
    and k: "kbind kalloc (allocproc_tf p) (s1\<lparr>procs := (procs s)(p := ?q)\<rparr>) = Ok r t"
    using assms unfolding allocproc_found_def by (auto simp: kbind_eq_Ok [of allocpid] dest!: allocpid_OkD)
  from k obtain tf s2 where 1: "kalloc (s1\<lparr>procs := (procs s)(p := ?q)\<rparr>) = Ok tf s2"
    and 2: "allocproc_tf p tf s2 = Ok r t" by (rule kbind_OkE)
  have "procs s2 = (procs s)(p := ?q)" "nextpid s2 = nextpid s + 1"
    using keepsD [OF keeps_kalloc [of procs] 1] keepsD [OF keeps_kalloc [of nextpid] 1] s1 by simp_all
  with allocproc_tf_OkD [OF 2] show ?thesis by blast
qed

text \<open>Pids in use are positive, below \<open>nextpid\<close>, and no two slots share one.\<close>

definition pid_inv :: "'z procst_scheme \<Rightarrow> bool" where
  "pid_inv s \<longleftrightarrow> 0 < nextpid s \<and>
     (\<forall>p < NPROC. p_state (procs s p) \<noteq> UNUSED \<longrightarrow>
        0 < p_pid (procs s p) \<and> p_pid (procs s p) < nextpid s) \<and>
     (\<forall>p < NPROC. \<forall>q < NPROC. p \<noteq> q \<and> p_state (procs s p) \<noteq> UNUSED \<and>
        p_state (procs s q) \<noteq> UNUSED \<longrightarrow> p_pid (procs s p) \<noteq> p_pid (procs s q))"

lemma freed_state [simp]: "p_state (freed q) = UNUSED"
  by (simp add: freed_def)

lemma allocproc_OkD:
  assumes "allocproc s = Ok r t"
  shows "(r = None \<and> find (\<lambda>p. p_state (procs s p) = UNUSED) [0..<NPROC] = None \<and>
      procs t = procs s \<and> nextpid t = nextpid s) \<or>
    (\<exists>p. find (\<lambda>p. p_state (procs s p) = UNUSED) [0..<NPROC] = Some p \<and>
      nextpid t = nextpid s + 1 \<and>
      (r = None \<and> procs t = (procs s)(p := freed (procs s p)) \<or>
       r = Some p \<and> (\<exists>tf pt c. procs t = (procs s)(p := (procs s p)\<lparr>p_pid := nextpid s,
         p_state := USED, p_trapframe := tf, p_pagetable := pt, p_context := c\<rparr>))))"
proof -
  obtain x u where 1: "kscan [0..<NPROC] allocproc_at s = Ok x u"
    and 2: "(case x of None \<Rightarrow> kret None | Some p \<Rightarrow> allocproc_found p) u = Ok r t"
    using assms unfolding allocproc_def by (rule kbind_OkE)
  have u: "procs u = procs s" "nextpid u = nextpid s"
    "x = find (\<lambda>p. p_state (procs s p) = UNUSED) [0..<NPROC]"
    using allocproc_scan [OF 1] by auto
  show ?thesis
  proof (cases x)
    case None
    then show ?thesis using 2 u by (auto simp del: upt.simps upt_Suc)
  next
    case (Some p)
    then have "allocproc_found p u = Ok r t" using 2 by simp
    from allocproc_found_OkD [OF this] obtain w where
      w: "procs w = (procs s)(p := (procs s p)\<lparr>p_pid := nextpid s, p_state := USED\<rparr>)"
        "nextpid w = nextpid s + 1" "set_up p (procs w p) r w t"
      using u by auto
    have "r = None \<and> procs t = (procs s)(p := freed (procs s p)) \<or>
       r = Some p \<and> (\<exists>tf pt c. procs t = (procs s)(p := (procs s p)\<lparr>p_pid := nextpid s,
         p_state := USED, p_trapframe := tf, p_pagetable := pt, p_context := c\<rparr>))"
      using w(1,3) by (simp add: set_up_def)
    moreover have "nextpid t = nextpid s + 1" using w by (simp add: set_up_def)
    ultimately show ?thesis using u(3) Some by blast
  qed
qed

lemma find_upt_SomeD: "find P [0..<n] = Some p \<Longrightarrow> p < n \<and> P p \<and> (\<forall>q < p. \<not> P q)"
  by (auto simp: find_Some_iff)


lemma allocproc_full:
  assumes "all_procs_free s" and "\<forall>p \<in> set ps. p_state (procs s p) \<noteq> UNUSED"
  shows "\<exists>l. kscan ps allocproc_at s = Ok None (s\<lparr>lks := l\<rparr>)"
  using assms
proof (induction ps arbitrary: s)
  case Nil
  then show ?case by (auto intro: exI [of _ "lks s"])
next
  case (Cons p ps)
  let ?t = "s\<lparr>lks := touch (lks s)\<rparr>"
  have "allocproc_at p s = Ok None ?t"
    using Cons.prems by (simp add: allocproc_at_def all_procs_free_def lk_free_def)
  moreover obtain l where "kscan ps allocproc_at ?t = Ok None (?t\<lparr>lks := l\<rparr>)"
    using Cons.IH [of ?t] Cons.prems by auto
  ultimately show ?case by (intro exI [of _ l]) simp
qed


text \<open>
  C26: Killing pid 0 succeeds and hits the next process instead of nobody: when the
  first slot with pid 0 is also the first unused slot, \<open>kkill 0\<close> returns 0, and the
  process that \<open>allocproc\<close> then creates is born with its killed flag set.
\<close>

theorem kill_zero_marks_next_process:
  assumes "all_procs_free s" and "p < NPROC" and "p_pid (procs s p) = 0"
    and "p_state (procs s p) = UNUSED"
    and "\<forall>q < p. p_pid (procs s q) \<noteq> 0 \<and> p_state (procs s q) \<noteq> UNUSED"
  shows "\<exists>t. kkill 0 s = Ok 0 t \<and> p_state (procs t p) = UNUSED \<and> p_killed (procs t p) \<and>
    (\<forall>q u. allocproc t = Ok (Some q) u \<longrightarrow> q = p \<and> p_killed (procs u q))"
proof -
  have f: "find (\<lambda>q. p_pid (procs s q) = 0) [0..<NPROC] = Some p"
    using assms(2,3,5) unfolding find_Some_iff by (intro exI [of _ p]) simp
  obtain l where k: "kscan [0..<NPROC] (kkill_at 0) s =
      Ok (Some 0) (s\<lparr>lks := l, procs := (procs s)(p := kill_mark (procs s p))\<rparr>)"
    using kkill_scan [OF assms(1), of "[0..<NPROC]" 0] unfolding f by auto
  let ?t = "s\<lparr>lks := l, procs := (procs s)(p := kill_mark (procs s p))\<rparr>"
  have r: "kkill 0 s = Ok 0 ?t" using k unfolding kkill_def by simp
  have m: "p_state (procs ?t p) = UNUSED" "p_killed (procs ?t p)"
    using assms(4) by (simp_all add: kill_mark_def)
  have g: "find (\<lambda>q. p_state (procs ?t q) = UNUSED) [0..<NPROC] = Some p"
    using assms(2,5) m(1) unfolding find_Some_iff by (intro exI [of _ p]) simp
  have "q = p \<and> p_killed (procs u q)" if "allocproc ?t = Ok (Some q) u" for q u
    using allocproc_OkD [OF that] m(2) unfolding g by auto
  with r m show ?thesis by blast
qed

theorem kill_zero_marks_next_process_witness:
  "\<exists>t. kkill 0 (small_procst (\<lambda>_. zero_proc)) = Ok 0 t \<and> p_killed (procs t 0)"
  using kill_zero_marks_next_process [of "small_procst (\<lambda>_. zero_proc)" 0]
  by (auto simp: zero_proc_def)

section \<open>Exit\<close>

lemma woken_simps [simp]:
  "p_parent (woken ch q) = p_parent q" "p_chan (woken ch q) = p_chan q"
  "woken ch (woken ch q) = woken ch q" "woken ch (q\<lparr>p_parent := x\<rparr>) = (woken ch q)\<lparr>p_parent := x\<rparr>"
  by (simp_all add: woken_def)

text \<open>The slot \<open>q\<close> after its parent was exchanged, if \<open>p\<close> was its parent.\<close>

definition adopted :: "nat \<Rightarrow> nat option \<Rightarrow> proc \<Rightarrow> proc" where
  "adopted p ip q = (if p_parent q = Some p then q\<lparr>p_parent := ip\<rparr> else q)"

lemma adopted_woken: "adopted p ip (woken ch q) = woken ch (adopted p ip q)"
  by (simp add: adopted_def)

text \<open>A run that changes the process table and at most the \<open>intena\<close> flag.\<close>

definition procs_step :: "'z procst_scheme \<Rightarrow> 'z procst_scheme \<Rightarrow> bool" where
  "procs_step s t \<longleftrightarrow> t = s\<lparr>lks := lks t, procs := procs t\<rparr> \<and> (lks t = lks s \<or> lks t = touch (lks s))"

lemma procs_step_trans:
  assumes "procs_step s t" and "procs_step t u"
  shows "procs_step s u"
proof -
  obtain l f where t: "t = s\<lparr>lks := l, procs := f\<rparr>" "l = lks s \<or> l = touch (lks s)"
    using assms(1) unfolding procs_step_def by blast
  obtain l' f' where u: "u = t\<lparr>lks := l', procs := f'\<rparr>" "l' = l \<or> l' = touch l"
    using assms(2) t unfolding procs_step_def by fastforce
  show ?thesis using t u by (auto simp: procs_step_def)
qed

definition reparented :: "nat \<Rightarrow> nat option \<Rightarrow> nat list \<Rightarrow> (nat \<Rightarrow> proc) \<Rightarrow> (nat \<Rightarrow> proc) \<Rightarrow> bool" where
  "reparented p ip ps f g \<longleftrightarrow>
     (\<forall>q. g q \<in> (let x = (if q \<in> set ps then adopted p ip (f q) else f q)
                in {x, woken (map_option Cproc ip) x}))"

lemma reparented_Cons_other:
  "p_parent (f pp) \<noteq> Some p \<Longrightarrow> reparented p ip ps f g \<Longrightarrow> reparented p ip (pp # ps) f g"
proof -
  assume "p_parent (f pp) \<noteq> Some p" and r: "reparented p ip ps f g"
  then have "(if q \<in> set (pp # ps) then adopted p ip (f q) else f q) =
      (if q \<in> set ps then adopted p ip (f q) else f q)" for q
    by (simp add: adopted_def)
  with r show ?thesis by (simp add: reparented_def)
qed

lemma reparented_Cons_child:
  assumes "p_parent (f pp) = Some p" and "pp \<notin> set ps" and "ip \<noteq> Some p"
    and "\<And>q. h q = (f(pp := (f pp)\<lparr>p_parent := ip\<rparr>)) q \<or>
           h q = woken (map_option Cproc ip) ((f(pp := (f pp)\<lparr>p_parent := ip\<rparr>)) q)"
    and "reparented p ip ps h g"
  shows "reparented p ip (pp # ps) f g"
  unfolding reparented_def
proof
  fix q
  have g: "g q \<in> (let x = (if q \<in> set ps then adopted p ip (h q) else h q)
      in {x, woken (map_option Cproc ip) x})"
    using assms(5) by (simp add: reparented_def)
  show "g q \<in> (let x = (if q \<in> set (pp # ps) then adopted p ip (f q) else f q)
      in {x, woken (map_option Cproc ip) x})"
    using g assms(1,2) assms(4) [of q]
    by (cases "q = pp"; cases "q \<in> set ps") (auto simp: Let_def adopted_woken adopted_def)
qed

lemma reparent_scan:
  assumes "procs_free s" and "distinct ps" and "initproc s \<noteq> Some p"
  shows "\<exists>t. kfor ps (reparent_at p) s = Ok () t \<and> procs_step s t \<and>
    reparented p (initproc s) ps (procs s) (procs t)"
  using assms
proof (induction ps arbitrary: s)
  case Nil
  then show ?case by (simp add: procs_step_def reparented_def Let_def)
next
  case (Cons pp ps)
  show ?case
  proof (cases "p_parent (procs s pp) = Some p")
    case False
    then have "reparent_at p pp s = Ok () s" by (simp add: reparent_at_def)
    moreover obtain t where "kfor ps (reparent_at p) s = Ok () t" "procs_step s t"
      "reparented p (initproc s) ps (procs s) (procs t)"
      using Cons.IH [OF Cons.prems(1) _ Cons.prems(3)] Cons.prems(2) by auto
    ultimately show ?thesis using reparented_Cons_other False by (intro exI [of _ t]) simp
  next
    case True
    define ip where "ip = initproc s"
    let ?f = "(procs s)(pp := (procs s pp)\<lparr>p_parent := ip\<rparr>)"
    define h where "h q = (if q < NPROC \<and> Some q \<noteq> cpu_proc (mycpu (lks s))
        then woken (map_option Cproc ip) (?f q) else ?f q)" for q
    let ?u = "s\<lparr>lks := touch (lks s), procs := h\<rparr>"
    have w: "reparent_at p pp s = Ok () ?u"
      using True wakeup_ok [of "s\<lparr>procs := ?f\<rparr>" "map_option Cproc ip"] Cons.prems(1)
      by (simp add: reparent_at_def ip_def [symmetric] h_def [abs_def] cong: if_cong)
    have "procs_free ?u" "initproc ?u \<noteq> Some p" using Cons.prems(1,3) by simp_all
    moreover have "distinct ps" using Cons.prems(2) by simp
    ultimately have "\<exists>t. kfor ps (reparent_at p) ?u = Ok () t \<and> procs_step ?u t \<and>
        reparented p (initproc ?u) ps (procs ?u) (procs t)"
      by (intro Cons.IH)
    then obtain t where
      t: "kfor ps (reparent_at p) ?u = Ok () t" "procs_step ?u t" "reparented p ip ps h (procs t)"
      unfolding ip_def by auto
    have "reparented p ip (pp # ps) (procs s) (procs t)"
    proof (rule reparented_Cons_child [where h = h])
      show "p_parent (procs s pp) = Some p" "reparented p ip ps h (procs t)" by fact+
      show "pp \<notin> set ps" "ip \<noteq> Some p" using Cons.prems by (simp_all add: ip_def)
      show "h q = ?f q \<or> h q = woken (map_option Cproc ip) (?f q)" for q by (simp add: h_def)
    qed
    moreover have "procs_step s ?u" by (simp add: procs_step_def)
    then have "procs_step s t" using t(2) by (rule procs_step_trans)
    ultimately show ?thesis using w t(1) unfolding ip_def by (intro exI [of _ t]) simp
  qed
qed

lemma reparented_parent:
  assumes "reparented p ip [0..<NPROC] f g" and "q < NPROC"
  shows "p_parent (g q) = (if p_parent (f q) = Some p then ip else p_parent (f q))"
proof -
  have "g q = adopted p ip (f q) \<or> g q = woken (map_option Cproc ip) (adopted p ip (f q))"
    using spec [OF assms(1) [unfolded reparented_def], of q] assms(2) by (simp add: Let_def)
  then show ?thesis by (auto simp: adopted_def)
qed

text \<open>
  C24: A process other than \<open>initproc\<close> that calls \<open>kexit\<close> gives up the hart as a zombie
  with its exit status and can never run again: if it were resumed, the kernel would
  panic. None of the processes has it as parent any more, its children have
  \<open>initproc\<close>, no process but itself still sleeps waiting for its children on behalf of
  its parent, and \<open>wait_lock\<close> is free.
\<close>

theorem kexit_becomes_zombie:
  assumes "procs_free s" and "cpu_proc (mycpu (lks s)) = Some p" and "noff (mycpu (lks s)) = 0"
    and "\<not> locked (locks (lks s) LWait)" and "\<not> locked (locks (lks s) (LProc p))"
    and "initproc s \<noteq> Some p" and "p < NPROC"
  shows "\<exists>t k. kexit status s = Swtch t k \<and> (\<forall>u. k u = Panic ''zombie exit'') \<and>
    p_state (procs t p) = ZOMBIE \<and> p_xstate (procs t p) = status \<and>
    (\<forall>q < NPROC. p_parent (procs t q) =
       (if p_parent (procs s q) = Some p then initproc s else p_parent (procs s q))) \<and>
    (\<forall>q < NPROC. q \<noteq> p \<and> p_state (procs t q) = SLEEPING \<longrightarrow>
       p_chan (procs t q) \<noteq> map_option Cproc (p_parent (procs t p))) \<and>
    \<not> locked (locks (lks t) LWait) \<and> holding (LProc p) (lks t)"
proof -
  define l where "l = lks s"
  have wf: "lk_wf l" using assms(1) by (simp add: procs_free_def l_def)
  define s1 where "s1 = s\<lparr>lks := acqd LWait l\<rparr>"
  have f1: "procs_free s1" and i1: "initproc s1 \<noteq> Some p"
    using assms(1,6) wf by (simp_all add: procs_free_def s1_def l_def)
  obtain s2 where s2: "reparent p s1 = Ok () s2" "procs_step s1 s2"
    "reparented p (initproc s1) [0..<NPROC] (procs s1) (procs s2)"
    using reparent_scan [OF f1 _ i1, of "[0..<NPROC]"] unfolding reparent_def by auto
  have l2: "lks s2 = acqd LWait l" using s2(2) wf by (auto simp: procs_step_def s1_def)
  have f2: "procs_free s2" using f1 l2 by (simp add: procs_free_def s1_def)
  let ?ch = "map_option Cproc (p_parent (procs s2 p))"
  define f3 where "f3 q = (if q < NPROC \<and> Some q \<noteq> Some p then woken ?ch (procs s2 q) else procs s2 q)" for q
  have w: "wakeup ?ch s2 = Ok () (s2\<lparr>procs := f3\<rparr>)"
    using wakeup_ok [OF f2, of ?ch] l2 wf assms(2) by (simp add: f3_def [abs_def] l_def)
  define t where "t = s2\<lparr>lks := acqd (LProc p) l,
      procs := f3(p := (f3 p)\<lparr>p_xstate := status, p_state := ZOMBIE\<rparr>)\<rparr>"
  have sc: "sched t = Swtch t (\<lambda>t. Ok () (t\<lparr>lks := set_mycpu (\<lambda>c. c\<lparr>intena := intr_get l\<rparr>) (lks t)\<rparr>))"
    by (rule sched_ok [of _ p]) (use wf assms(2,3) in \<open>simp_all add: t_def l_def\<close>)
  have r: "release LWait (s2\<lparr>lks := acqd (LProc p) (acqd LWait l), procs := g\<rparr>) =
      Ok () (s2\<lparr>lks := acqd (LProc p) l, procs := g\<rparr>)" for g
    using release_outer_ok [of "s2\<lparr>lks := acqd (LProc p) (acqd LWait l), procs := g\<rparr>" "LProc p" LWait l]
      wf assms(4,5) by (simp add: l_def)
  have "kexit status s = Swtch t (kbind (\<lambda>t. Ok () (t\<lparr>lks := set_mycpu (\<lambda>c. c\<lparr>intena := intr_get l\<rparr>) (lks t)\<rparr>))
      (\<lambda>_. kpanic ''zombie exit''))"
    unfolding kexit_def using assms(2,4-6) wf s2(1) l2 w sc r
    by (simp add: lk_free_def l_def [symmetric] s1_def [symmetric] t_def [symmetric])
  moreover have "p_parent (procs t q) =
      (if p_parent (procs s q) = Some p then initproc s else p_parent (procs s q))" if "q < NPROC" for q
    using reparented_parent [OF s2(3) that] by (auto simp: t_def f3_def s1_def cong: if_cong)
  moreover have "p_chan (procs t q) \<noteq> map_option Cproc (p_parent (procs t p))"
    if "q < NPROC" "q \<noteq> p" "p_state (procs t q) = SLEEPING" for q
    using that by (auto simp: t_def f3_def woken_def split: if_splits)
  ultimately show ?thesis
    by (intro exI conjI) (assumption | use assms(4) in \<open>simp add: t_def l_def\<close>)+
qed

theorem kexit_becomes_zombie_witness:
  "\<exists>t k. kexit 3 (small_procst (\<lambda>_. zero_proc)) = Swtch t k \<and> p_state (procs t 0) = ZOMBIE"
  using kexit_becomes_zombie [of "small_procst (\<lambda>_. zero_proc)" 0 3] by auto

end
