(* ===== verification/Sleeplock.thy ===== *)
theory Sleeplock
  imports Proc
begin

text \<open>
  Sleep locks, \<open>kernel/sleeplock.c\<close>. A sleep lock is named by the spin lock inside
  it, which is also its sleep channel. They satisfy the same contract of mutual
  exclusion as the spin locks, with processes in the place of harts.
\<close>

record sleeplock =
  sl_locked :: bool
  sl_name :: string
  sl_pid :: int

record slst = procst +
  slocks :: "lockid \<Rightarrow> sleeplock"

definition set_sl :: "lockid \<Rightarrow> (sleeplock \<Rightarrow> sleeplock) \<Rightarrow> (unit, 'z slst_scheme) km" where
  "set_sl lk f = kmod (\<lambda>s. s\<lparr>slocks := (slocks s)(lk := f (slocks s lk))\<rparr>)"

definition get_sl :: "lockid \<Rightarrow> (sleeplock \<Rightarrow> 'a) \<Rightarrow> ('a, 'z slst_scheme) km" where
  "get_sl lk f = kget (\<lambda>s. f (slocks s lk))"

declare set_sl_def [simp] get_sl_def [simp]

section \<open>The operations of sleeplock.c\<close>

definition initsleeplock :: "lockid \<Rightarrow> string \<Rightarrow> (unit, 'z slst_scheme) km" where
  "initsleeplock lk name =
     kthen (on_lks (initlock lk ''sleep lock''))
     (set_sl lk (\<lambda>x. x\<lparr>sl_name := name, sl_locked := False, sl_pid := 0\<rparr>))"

definition acquiresleep_body :: "lockid \<Rightarrow> unit \<Rightarrow> (unit + unit, 'z slst_scheme) km" where
  "acquiresleep_body lk = (\<lambda>_.
     kbind (get_sl lk sl_locked) (\<lambda>b.
       if b then kthen (sleep (Csleep lk) lk) (kret (Inl ())) else kret (Inr ())))"

definition acquiresleep :: "lockid \<Rightarrow> (unit, 'z slst_scheme) km" where
  "acquiresleep lk =
     kthen (acquire lk)
    (kthen (\<lambda>s. kloop (rounds s) (acquiresleep_body lk) () s)
    (kthen (set_sl lk (\<lambda>x. x\<lparr>sl_locked := True\<rparr>))
    (kbind cur (\<lambda>p.
     kbind (get_proc p p_pid) (\<lambda>pid.
     kthen (set_sl lk (\<lambda>x. x\<lparr>sl_pid := pid\<rparr>))
     (release lk))))))"

definition releasesleep :: "lockid \<Rightarrow> (unit, 'z slst_scheme) km" where
  "releasesleep lk =
     kthen (acquire lk)
    (kthen (set_sl lk (\<lambda>x. x\<lparr>sl_locked := False\<rparr>))
    (kthen (set_sl lk (\<lambda>x. x\<lparr>sl_pid := 0\<rparr>))
    (kthen (wakeup (Some (Csleep lk)))
     (release lk))))"

definition holdingsleep :: "lockid \<Rightarrow> (bool, 'z slst_scheme) km" where
  "holdingsleep lk =
     kthen (acquire lk)
    (kbind (get_sl lk (\<lambda>x. x)) (\<lambda>x.
     kbind (if sl_locked x
            then kbind cur (\<lambda>p. kbind (get_proc p p_pid) (\<lambda>pid. kret (sl_pid x = pid)))
            else kret False) (\<lambda>r.
     kthen (release lk)
     (kret r))))"

section \<open>Uncontended behaviour\<close>

text \<open>
  The state in which a process runs file-system code: it holds no spin lock, every
  process lock and the given spin lock are free.
\<close>

definition quiet :: "lockid \<Rightarrow> 'z slst_scheme \<Rightarrow> bool" where
  "quiet lk s \<longleftrightarrow> lk_wf (lks s) \<and> \<not> locked (locks (lks s) lk) \<and>
     (\<forall>p. \<not> locked (locks (lks s) (LProc p))) \<and> cpu_proc (mycpu (lks s)) \<noteq> None \<and>
     (\<forall>p. lk \<noteq> LProc p) \<and> 0 < rounds s"

definition mypid :: "'z procst_scheme \<Rightarrow> int" where
  "mypid s = p_pid (procs s (the (cpu_proc (mycpu (lks s)))))"

lemma quiet_free: "quiet lk s \<Longrightarrow> lk_free lk s"
  by (simp add: quiet_def lk_free_def)

lemma acquiresleep_ok:
  assumes "quiet lk s" and "\<not> sl_locked (slocks s lk)"
  shows "acquiresleep lk s = Ok () (s\<lparr>lks := touch (lks s),
    slocks := (slocks s)(lk := (slocks s lk)\<lparr>sl_locked := True, sl_pid := mypid s\<rparr>)\<rparr>)"
proof -
  obtain p where p: "cpu_proc (mycpu (lks s)) = Some p" using assms(1) by (auto simp: quiet_def)
  obtain n where n: "rounds s = Suc n" using assms(1) by (cases "rounds s") (auto simp: quiet_def)
  have wf: "lk_wf (lks s)" "\<not> locked (locks (lks s) lk)" using assms(1) by (simp_all add: quiet_def)
  let ?a = "s\<lparr>lks := acqd lk (lks s)\<rparr>"
  have "acquire lk s = Ok () ?a" using quiet_free [OF assms(1)] by simp
  moreover have "kloop (rounds ?a) (acquiresleep_body lk) () ?a = Ok () ?a"
    using assms(2) n by (simp add: acquiresleep_body_def)
  ultimately show ?thesis
    using p wf unfolding acquiresleep_def by (simp add: mypid_def)
qed

lemma acquiresleep_busy:
  assumes "quiet lk s" and "sl_locked (slocks s lk)" and "noff (mycpu (lks s)) = 0"
    and "cpu_proc (mycpu (lks s)) = Some p"
  shows "\<exists>k. acquiresleep lk s = Swtch (s\<lparr>lks := acqd (LProc p) (lks s),
    procs := (procs s)(p := (procs s p)\<lparr>p_chan := Some (Csleep lk), p_state := SLEEPING\<rparr>)\<rparr>) k"
proof -
  obtain n where n: "rounds s = Suc n" using assms(1) by (cases "rounds s") (auto simp: quiet_def)
  let ?a = "s\<lparr>lks := acqd lk (lks s)\<rparr>"
  have "acquire lk s = Ok () ?a" using quiet_free [OF assms(1)] by simp
  moreover have "sleep (Csleep lk) lk ?a = Swtch (?a\<lparr>lks := acqd (LProc p) (lks s),
    procs := (procs ?a)(p := (procs ?a p)\<lparr>p_chan := Some (Csleep lk), p_state := SLEEPING\<rparr>)\<rparr>)
      (sleep_resume p (intr_get (lks s)) lk)"
    using assms by (intro sleep_ok) (simp_all add: quiet_def)
  ultimately show ?thesis
    using assms(2) n unfolding acquiresleep_def by (simp add: acquiresleep_body_def)
qed

lemma holdingsleep_ok:
  assumes "quiet lk s"
  shows "holdingsleep lk s = Ok (sl_locked (slocks s lk) \<and> sl_pid (slocks s lk) = mypid s)
    (s\<lparr>lks := touch (lks s)\<rparr>)"
proof -
  obtain p where p: "cpu_proc (mycpu (lks s)) = Some p" using assms by (auto simp: quiet_def)
  have wf: "lk_wf (lks s)" "\<not> locked (locks (lks s) lk)" using assms by (simp_all add: quiet_def)
  show ?thesis
    using p wf quiet_free [OF assms] unfolding holdingsleep_def by (simp add: mypid_def)
qed

lemma releasesleep_ok:
  assumes "quiet lk s"
  shows "releasesleep lk s = Ok () (s\<lparr>lks := touch (lks s),
    slocks := (slocks s)(lk := (slocks s lk)\<lparr>sl_locked := False, sl_pid := 0\<rparr>),
    procs := (\<lambda>q. if q < NPROC \<and> Some q \<noteq> cpu_proc (mycpu (lks s))
                 then woken (Some (Csleep lk)) (procs s q) else procs s q)\<rparr>)"
proof -
  have wf: "lk_wf (lks s)" "\<not> locked (locks (lks s) lk)" using assms by (simp_all add: quiet_def)
  let ?a = "s\<lparr>lks := acqd lk (lks s),
    slocks := (slocks s)(lk := (slocks s lk)\<lparr>sl_locked := False, sl_pid := 0\<rparr>)\<rparr>"
  have "procs_free ?a" using assms by (auto simp: procs_free_def quiet_def)
  then show ?thesis
    using wf quiet_free [OF assms] wakeup_ok [of ?a "Some (Csleep lk)"]
    unfolding releasesleep_def by (simp cong: if_cong)
qed

section \<open>Mutual exclusion of processes\<close>

lemma sched_not_Ok: "sched s \<noteq> Ok u t"
proof
  assume "sched s = Ok u t"
  then obtain p w where "(\<lambda>s. if \<not> holding (LProc p) (lks s) then Panic ''sched p->lock''
     else if noff (mycpu (lks s)) \<noteq> 1 then Panic ''sched locks''
     else if p_state (procs s p) = RUNNING then Panic ''sched RUNNING''
     else if intr_get (lks s) then Panic ''sched interruptible''
     else
       (let i = intena (mycpu (lks s))
        in kthen swtch (on_lks (set_mycpu (\<lambda>c. c\<lparr>intena := i\<rparr>))) s)) w = Ok u t"
    unfolding sched_def by (rule kbind_OkE)
  then show False by (auto simp: swtch_def Let_def kbind_eq_Ok split: if_splits)
qed

lemma wlp_sched [wlp_intros]: "wlp sched Q s"
  by (simp add: wlp_iff sched_not_Ok)

lemma wlp_sleep [wlp_intros]: "wlp (sleep ch lk) Q s"
  unfolding sleep_def by (intro wlp_intros; simp only: set_proc_def; intro wlp_intros)

lemma wlp_rounds [wlp_intros]:
  "wlp (kloop (rounds s) body i) Q s \<Longrightarrow> wlp (\<lambda>s. kloop (rounds s) body i s) Q s"
  by (simp add: wlp_def)

text \<open>The pid of the process that owns a sleep lock.\<close>

definition sl_owner :: "'z slst_scheme \<Rightarrow> lockid \<Rightarrow> int option" where
  "sl_owner s lk = (if sl_locked (slocks s lk) then Some (sl_pid (slocks s lk)) else None)"

text \<open>
  Each step is one whole call that returns, made by the process with the given pid; a
  process releases a lock only after \<open>holdingsleep\<close> confirmed that it holds it, as
  \<open>brelse\<close>, \<open>bwrite\<close> and \<open>iunlock\<close> do. Any other step leaves the sleep locks alone.
\<close>

fun sl_step :: "'z slst_scheme \<Rightarrow> (int, lockid) lkev \<Rightarrow> 'z slst_scheme \<Rightarrow> bool" where
  "sl_step s (Acq pid lk) t \<longleftrightarrow> mypid s = pid \<and> acquiresleep lk s = Ok () t"
| "sl_step s (Rel pid lk) t \<longleftrightarrow> mypid s = pid \<and>
     (\<exists>u. holdingsleep lk s = Ok True u \<and> releasesleep lk u = Ok () t)"
| "sl_step s (Other pid) t \<longleftrightarrow> slocks t = slocks s"

lemma wlp_acquiresleep_loop [wlp_intros]:
  assumes "\<not> sl_locked (slocks s lk) \<Longrightarrow> Q () s"
  shows "wlp (kloop n (acquiresleep_body lk) ()) Q s"
proof (cases n)
  case 0
  then show ?thesis by (simp add: wlp_iff)
next
  case (Suc k)
  show ?thesis
    unfolding Suc acquiresleep_body_def get_sl_def kloop.simps
    by (intro wlp_intros) (simp add: wlp_ret assms)
qed

lemma acquiresleep_OkD:
  assumes "acquiresleep lk s = Ok u t"
  shows "\<not> sl_locked (slocks s lk) \<and>
    slocks t = (slocks s)(lk := (slocks s lk)\<lparr>sl_locked := True, sl_pid := mypid s\<rparr>)"
proof -
  have "wlp (acquiresleep lk) (\<lambda>_ t. \<not> sl_locked (slocks s lk) \<and>
    slocks t = (slocks s)(lk := (slocks s lk)\<lparr>sl_locked := True, sl_pid := mypid s\<rparr>)) s"
    unfolding acquiresleep_def set_sl_def get_proc_def
    by (intro wlp_intros) (simp_all add: mypid_def)
  then show ?thesis using assms by (simp add: wlp_iff)
qed

lemma holdingsleep_OkD:
  assumes "holdingsleep lk s = Ok r t"
  shows "slocks t = slocks s \<and> r = (sl_locked (slocks s lk) \<and> sl_pid (slocks s lk) = mypid s)"
proof -
  have "wlp (holdingsleep lk) (\<lambda>r t. slocks t = slocks s \<and>
      r = (sl_locked (slocks s lk) \<and> sl_pid (slocks s lk) = mypid s)) s"
    unfolding holdingsleep_def get_sl_def get_proc_def
    by (intro wlp_intros) (simp_all add: mypid_def)
  then show ?thesis using assms by (simp add: wlp_iff)
qed

lemma keeps_wakeup_slocks: "keeps slocks (wakeup ch)"
proof -
  have "beyond_mem slocks" by (simp add: beyond_mem_def)
  then show ?thesis unfolding wakeup_def wakeup_at_def
    by (intro keeps_rules) (simp_all add: keeps_def)
qed

lemma releasesleep_OkD:
  assumes "releasesleep lk s = Ok u t"
  shows "slocks t = (slocks s)(lk := (slocks s lk)\<lparr>sl_locked := False, sl_pid := 0\<rparr>)"
proof -
  have "wlp (releasesleep lk) (\<lambda>_ t. slocks t =
      (slocks s)(lk := (slocks s lk)\<lparr>sl_locked := False, sl_pid := 0\<rparr>)) s"
    unfolding releasesleep_def set_sl_def
    by (intro wlp_intros wlp_keeps [OF keeps_wakeup_slocks]) simp
  then show ?thesis using assms by (simp add: wlp_iff)
qed

interpretation slp: mutex sl_step sl_owner
proof
  show "sl_owner s l = None \<and> sl_owner t = (sl_owner s)(l := Some h)"
    if "sl_step s (Acq h l) t" for s t :: "'z slst_scheme" and h l
    using that by (auto simp: sl_owner_def fun_eq_iff split: if_splits dest!: acquiresleep_OkD)
  show "sl_owner s l = Some h \<and> sl_owner t = (sl_owner s)(l := None)"
    if "sl_step s (Rel h l) t" for s t :: "'z slst_scheme" and h l
    using that by (auto simp: sl_owner_def fun_eq_iff split: if_splits
        dest!: holdingsleep_OkD releasesleep_OkD)
  show "sl_owner t = sl_owner s" if "sl_step s (Other h) t" for s t :: "'z slst_scheme" and h
    using that by (simp add: sl_owner_def fun_eq_iff)
qed


definition free_sl :: sleeplock where
  "free_sl = \<lparr>sl_locked = False, sl_name = [], sl_pid = 0\<rparr>"

definition small_slst :: slst where
  "small_slst = (let s = small_procst (\<lambda>p. zero_proc\<lparr>p_pid := int p + 1\<rparr>) in
     \<lparr>lks = lks s, mem = mem s, freelist = freelist s, k_end = k_end s, procs = procs s,
       nextpid = nextpid s, initproc = initproc s, ticks = ticks s,
       kernel_pagetable = kernel_pagetable s, csr = csr s, ksym = ksym s,
       fork_first = fork_first s, timer = timer s, rounds = rounds s, slocks = (\<lambda>_. free_sl)\<rparr>)"

lemma small_slst_sel [simp]:
  "lks small_slst = busy_lkst" "slocks small_slst = (\<lambda>_. free_sl)" "rounds small_slst = 10"
  "procs small_slst = (\<lambda>p. zero_proc\<lparr>p_pid := int p + 1\<rparr>)"
  by (simp_all add: small_slst_def small_procst_def)

lemma quiet_small: "(\<And>p. lk \<noteq> LProc p) \<Longrightarrow> quiet lk small_slst"
  by (simp add: quiet_def)


end
