(* ===== verification/Bio.thy ===== *)
theory Bio
  imports Sleeplock
begin

text \<open>
  The RAM disk, \<open>kernel/ramdisk.c\<close>, and the buffer cache, \<open>kernel/bio.c\<close>. The LRU
  list is modelled with the \<open>prev\<close> and \<open>next\<close> fields of the source; the theory shows
  that they always represent a list of all buffers, most recently released first,
  and that \<open>bread\<close> returns the current contents of a block.
\<close>

section \<open>State\<close>

abbreviation (input) BSIZE :: nat where "BSIZE \<equiv> 1024"

text \<open>Buffers are named by their index in \<open>bcache.buf\<close>; \<open>bcache.head\<close> comes after them.\<close>

abbreviation (input) HEAD :: nat where "HEAD \<equiv> 30"

record buf =
  b_valid :: bool
  b_dev :: u32
  b_blockno :: u32
  b_refcnt :: u32
  b_prev :: nat
  b_next :: nat
  b_data :: "u8 list"

text \<open>
  The disk image is the bytes between \<open>fs_img_start\<close> and \<open>fs_img_end\<close>. The history
  \<open>disk_writes\<close> lists the block writes in order; no code reads it.
\<close>

record biost = slst +
  rdisk :: "nat \<Rightarrow> u8"
  rdisk_size :: nat
  disk_writes :: "(nat \<times> u8 list) list"
  bufs :: "nat \<Rightarrow> buf"

definition set_buf :: "nat \<Rightarrow> (buf \<Rightarrow> buf) \<Rightarrow> (unit, 'z biost_scheme) km" where
  "set_buf b f = kmod (\<lambda>s. s\<lparr>bufs := (bufs s)(b := f (bufs s b))\<rparr>)"

definition get_buf :: "nat \<Rightarrow> (buf \<Rightarrow> 'a) \<Rightarrow> ('a, 'z biost_scheme) km" where
  "get_buf b f = kget (\<lambda>s. f (bufs s b))"

declare set_buf_def [simp] get_buf_def [simp]

text \<open>A normal form for updates: the locks come first.\<close>

lemma upd_order [simp]:
  "s\<lparr>bufs := b, lks := l\<rparr> = s\<lparr>lks := l, bufs := b\<rparr>"
  "s\<lparr>bufs := b, slocks := k\<rparr> = s\<lparr>slocks := k, bufs := b\<rparr>"
  "s\<lparr>bufs := b, procs := p\<rparr> = s\<lparr>procs := p, bufs := b\<rparr>"
  "t\<lparr>slocks := k, lks := l\<rparr> = t\<lparr>lks := l, slocks := k\<rparr>"
  "t\<lparr>slocks := k, procs := p\<rparr> = t\<lparr>procs := p, slocks := k\<rparr>"
  "u\<lparr>procs := p, lks := l\<rparr> = u\<lparr>lks := l, procs := p\<rparr>"
  by simp_all

section \<open>The RAM disk\<close>

definition rd_read :: "nat \<Rightarrow> (nat \<Rightarrow> u8) \<Rightarrow> u8 list" where
  "rd_read a d = map (\<lambda>i. d (a + i)) [0..<BSIZE]"

definition rd_write :: "nat \<Rightarrow> u8 list \<Rightarrow> (nat \<Rightarrow> u8) \<Rightarrow> (nat \<Rightarrow> u8)" where
  "rd_write a bs d = (\<lambda>x. if a \<le> x \<and> x < a + BSIZE then bs ! (x - a) else d x)"

text \<open>The product \<open>b->blockno * BSIZE\<close> is computed in 32 bits and then widened.\<close>

definition disk_addr :: "u32 \<Rightarrow> nat" where
  "disk_addr blockno = unat (blockno * 1024)"

definition ramdisk_rw :: "nat \<Rightarrow> bool \<Rightarrow> (unit, 'z biost_scheme) km" where
  "ramdisk_rw b wr =
     kbind (holdingsleep (LBuf b)) (\<lambda>h.
       if \<not> h then kpanic ''ramdisk_rw: buf not locked''
       else kbind (get_buf b (\<lambda>x. x)) (\<lambda>x.
         let a = disk_addr (b_blockno x)
         in kbind (kget rdisk_size) (\<lambda>n.
           if n < a + BSIZE then kpanic ''ramdisk: read/write out of bounds''
           else if wr then
             kmod (\<lambda>s. s\<lparr>rdisk := rd_write a (b_data x) (rdisk s),
                        disk_writes := disk_writes s @ [(a, b_data x)]\<rparr>)
           else
             kbind (kget rdisk) (\<lambda>d.
               set_buf b (\<lambda>x. x\<lparr>b_data := rd_read a d, b_valid := True\<rparr>)))))"

section \<open>The operations of bio.c\<close>

text \<open>Putting \<open>b\<close> between the head and its successor, the last four lines of \<open>brelse\<close>.\<close>

definition lru_push :: "nat \<Rightarrow> (unit, 'z biost_scheme) km" where
  "lru_push b =
     kbind (get_buf HEAD b_next) (\<lambda>h.
     kthen (set_buf b (\<lambda>x. x\<lparr>b_next := h\<rparr>))
    (kthen (set_buf b (\<lambda>x. x\<lparr>b_prev := HEAD\<rparr>))
    (kbind (get_buf HEAD b_next) (\<lambda>h.
     kthen (set_buf h (\<lambda>x. x\<lparr>b_prev := b\<rparr>))
     (set_buf HEAD (\<lambda>x. x\<lparr>b_next := b\<rparr>))))))"

definition binit_at :: "nat \<Rightarrow> (unit, 'z biost_scheme) km" where
  "binit_at b =
     kbind (get_buf HEAD b_next) (\<lambda>h.
     kthen (set_buf b (\<lambda>x. x\<lparr>b_next := h\<rparr>))
    (kthen (set_buf b (\<lambda>x. x\<lparr>b_prev := HEAD\<rparr>))
    (kthen (initsleeplock (LBuf b) ''buffer'')
    (kbind (get_buf HEAD b_next) (\<lambda>h.
     kthen (set_buf h (\<lambda>x. x\<lparr>b_prev := b\<rparr>))
     (set_buf HEAD (\<lambda>x. x\<lparr>b_next := b\<rparr>)))))))"

definition binit :: "(unit, 'z biost_scheme) km" where
  "binit =
     kthen (on_lks (initlock LBcache ''bcache''))
    (kthen (set_buf HEAD (\<lambda>x. x\<lparr>b_prev := HEAD\<rparr>))
    (kthen (set_buf HEAD (\<lambda>x. x\<lparr>b_next := HEAD\<rparr>))
     (kfor [0..<NBUF] binit_at)))"

text \<open>The two scans of \<open>bget\<close>; a list that does not come back to the head makes them spin.\<close>

definition bget_find_body :: "u32 \<Rightarrow> u32 \<Rightarrow> nat \<Rightarrow> (nat + nat option, 'z biost_scheme) km" where
  "bget_find_body dev blockno b =
     (if b = HEAD then kret (Inr None)
      else kbind (get_buf b (\<lambda>x. x)) (\<lambda>x.
        if b_dev x = dev \<and> b_blockno x = blockno then kret (Inr (Some b))
        else kret (Inl (b_next x))))"

definition bget_find :: "u32 \<Rightarrow> u32 \<Rightarrow> (nat option, 'z biost_scheme) km" where
  "bget_find dev blockno =
     kbind (get_buf HEAD b_next) (kloop (NBUF + 1) (bget_find_body dev blockno))"

definition bget_victim_body :: "nat \<Rightarrow> (nat + nat option, 'z biost_scheme) km" where
  "bget_victim_body b =
     (if b = HEAD then kret (Inr None)
      else kbind (get_buf b (\<lambda>x. x)) (\<lambda>x.
        if b_refcnt x = 0 then kret (Inr (Some b))
        else kret (Inl (b_prev x))))"

definition bget_victim :: "(nat option, 'z biost_scheme) km" where
  "bget_victim = kbind (get_buf HEAD b_prev) (kloop (NBUF + 1) bget_victim_body)"

definition bget :: "u32 \<Rightarrow> u32 \<Rightarrow> (nat, 'z biost_scheme) km" where
  "bget dev blockno =
     kthen (acquire LBcache)
    (kbind (bget_find dev blockno) (\<lambda>r.
       case r of
         Some b \<Rightarrow>
           kthen (set_buf b (\<lambda>x. x\<lparr>b_refcnt := b_refcnt x + 1\<rparr>))
          (kthen (release LBcache)
          (kthen (acquiresleep (LBuf b))
           (kret b)))
       | None \<Rightarrow> kbind bget_victim (\<lambda>r.
           case r of
             None \<Rightarrow> kpanic ''bget: no buffers''
           | Some b \<Rightarrow>
               kthen (set_buf b (\<lambda>x. x\<lparr>b_dev := dev, b_blockno := blockno, b_valid := False,
                  b_refcnt := 1\<rparr>))
              (kthen (release LBcache)
              (kthen (acquiresleep (LBuf b))
               (kret b))))))"

definition bread :: "u32 \<Rightarrow> u32 \<Rightarrow> (nat, 'z biost_scheme) km" where
  "bread dev blockno =
     kbind (bget dev blockno) (\<lambda>b.
     kbind (get_buf b b_valid) (\<lambda>v.
     kthen (kwhen (\<not> v)
       (kthen (ramdisk_rw b False) (set_buf b (\<lambda>x. x\<lparr>b_valid := True\<rparr>))))
     (kret b)))"

definition bwrite :: "nat \<Rightarrow> (unit, 'z biost_scheme) km" where
  "bwrite b =
     kbind (holdingsleep (LBuf b)) (\<lambda>h.
       if \<not> h then kpanic ''bwrite'' else ramdisk_rw b True)"

definition lru_unlink :: "nat \<Rightarrow> (unit, 'z biost_scheme) km" where
  "lru_unlink b =
     kbind (get_buf b (\<lambda>x. (b_next x, b_prev x))) (\<lambda>(n, p).
     kthen (set_buf n (\<lambda>x. x\<lparr>b_prev := p\<rparr>))
    (kbind (get_buf b (\<lambda>x. (b_next x, b_prev x))) (\<lambda>(n, p).
     set_buf p (\<lambda>x. x\<lparr>b_next := n\<rparr>))))"

definition brelse :: "nat \<Rightarrow> (unit, 'z biost_scheme) km" where
  "brelse b =
     kbind (holdingsleep (LBuf b)) (\<lambda>h.
       if \<not> h then kpanic ''brelse''
       else
         kthen (releasesleep (LBuf b))
        (kthen (acquire LBcache)
        (kthen (set_buf b (\<lambda>x. x\<lparr>b_refcnt := b_refcnt x - 1\<rparr>))
        (kbind (get_buf b b_refcnt) (\<lambda>r.
         kthen (kwhen (r = 0) (kthen (lru_unlink b) (lru_push b)))
         (release LBcache))))))"

definition bpin :: "nat \<Rightarrow> (unit, 'z biost_scheme) km" where
  "bpin b =
     kthen (acquire LBcache)
    (kthen (set_buf b (\<lambda>x. x\<lparr>b_refcnt := b_refcnt x + 1\<rparr>))
     (release LBcache))"

definition bunpin :: "nat \<Rightarrow> (unit, 'z biost_scheme) km" where
  "bunpin b =
     kthen (acquire LBcache)
    (kthen (set_buf b (\<lambda>x. x\<lparr>b_refcnt := b_refcnt x - 1\<rparr>))
     (release LBcache))"

section \<open>The LRU list\<close>

text \<open>
  \<open>seg bs a xs z\<close>: following \<open>next\<close> from \<open>a\<close> visits \<open>xs\<close> and then \<open>z\<close>, and \<open>prev\<close>
  leads back the same way.
\<close>

fun seg :: "(nat \<Rightarrow> buf) \<Rightarrow> nat \<Rightarrow> nat list \<Rightarrow> nat \<Rightarrow> bool" where
  "seg bs a [] z \<longleftrightarrow> b_next (bs a) = z \<and> b_prev (bs z) = a"
| "seg bs a (x # xs) z \<longleftrightarrow> b_next (bs a) = x \<and> b_prev (bs x) = a \<and> seg bs x xs z"

definition lru :: "(nat \<Rightarrow> buf) \<Rightarrow> nat list \<Rightarrow> bool" where
  "lru bs xs \<longleftrightarrow> seg bs HEAD xs HEAD \<and> distinct xs \<and> set xs = {0..<NBUF}"

lemma seg_append: "seg bs a (xs @ y # ys) z \<longleftrightarrow> seg bs a xs y \<and> seg bs y ys z"
  by (induction xs arbitrary: a) auto

lemma seg_frame:
  assumes "\<And>x. x \<in> insert a (set xs) \<Longrightarrow> b_next (bs' x) = b_next (bs x)"
    and "\<And>x. x \<in> insert z (set xs) \<Longrightarrow> b_prev (bs' x) = b_prev (bs x)"
  shows "seg bs' a xs z = seg bs a xs z"
  using assms by (induction xs arbitrary: a) auto

definition push_list :: "nat \<Rightarrow> (nat \<Rightarrow> buf) \<Rightarrow> (nat \<Rightarrow> buf)" where
  "push_list b bs =
     (let h = b_next (bs HEAD);
          bs1 = bs(b := (bs b)\<lparr>b_next := h, b_prev := HEAD\<rparr>);
          bs2 = bs1(h := (bs1 h)\<lparr>b_prev := b\<rparr>)
      in bs2(HEAD := (bs2 HEAD)\<lparr>b_next := b\<rparr>))"

definition unlink_list :: "nat \<Rightarrow> (nat \<Rightarrow> buf) \<Rightarrow> (nat \<Rightarrow> buf)" where
  "unlink_list b bs =
     (let n = b_next (bs b); p = b_prev (bs b);
          bs1 = bs(n := (bs n)\<lparr>b_prev := p\<rparr>)
      in bs1(p := (bs1 p)\<lparr>b_next := n\<rparr>))"

lemma lru_push_eq: "b \<noteq> HEAD \<Longrightarrow> lru_push b s = Ok () (s\<lparr>bufs := push_list b (bufs s)\<rparr>)"
  by (simp add: lru_push_def push_list_def Let_def)

lemma lru_unlink_eq:
  "b_next (bufs s b) \<noteq> b \<Longrightarrow> lru_unlink b s = Ok () (s\<lparr>bufs := unlink_list b (bufs s)\<rparr>)"
  by (simp add: lru_unlink_def unlink_list_def Let_def)

lemma push_seg:
  assumes "seg bs HEAD xs HEAD" and "distinct (HEAD # b # xs)"
  shows "seg (push_list b bs) HEAD (b # xs) HEAD"
proof (cases xs)
  case Nil
  then show ?thesis using assms by (auto simp: push_list_def Let_def)
next
  case (Cons h ys)
  then have s: "seg bs h ys HEAD" and h: "b_next (bs HEAD) = h" using assms(1) by simp_all
  have "seg (push_list b bs) h ys HEAD = seg bs h ys HEAD"
    using assms(2) Cons h by (intro seg_frame) (auto simp: push_list_def Let_def)
  with s show ?thesis using assms(2) Cons h by (auto simp: push_list_def Let_def)
qed

lemma seg_last: "seg bs a xs z \<Longrightarrow> b_prev (bs z) = last (a # xs)"
  by (induction xs arbitrary: a) auto

lemma seg_hd: "seg bs a xs z \<Longrightarrow> b_next (bs a) = hd (xs @ [z])"
  by (cases xs) auto

lemma unlink_seg:
  assumes "seg bs HEAD (as @ b # cs) HEAD" and "distinct (HEAD # as @ b # cs)"
  shows "seg (unlink_list b bs) HEAD (as @ cs) HEAD"
proof -
  have s: "seg bs HEAD as b" "seg bs b cs HEAD" using assms(1) by (simp_all add: seg_append)
  let ?p = "last (HEAD # as)" and ?n = "hd (cs @ [HEAD])"
  have p: "b_prev (bs b) = ?p" and n: "b_next (bs b) = ?n"
    using seg_last [OF s(1)] seg_hd [OF s(2)] by simp_all
  have pn: "b_next (unlink_list b bs x) = (if x = ?p then ?n else b_next (bs x))"
    "b_prev (unlink_list b bs x) = (if x = ?n then ?p else b_prev (bs x))" for x
    unfolding unlink_list_def p n by (auto simp: Let_def)
  show ?thesis
  proof (cases as rule: rev_cases)
    case Nil
    then have "?p = HEAD" by simp
    show ?thesis
    proof (cases cs)
      case (Cons c ds)
      have "seg (unlink_list b bs) c ds HEAD = seg bs c ds HEAD"
        using assms(2) Nil Cons by (intro seg_frame) (auto simp: pn)
      then show ?thesis using s(2) Nil Cons by (simp add: pn)
    qed (simp add: Nil pn)
  next
    case (snoc es e)
    have e: "seg bs HEAD es e" using s(1) snoc by (simp add: seg_append)
    have "seg (unlink_list b bs) HEAD es e = seg bs HEAD es e"
      using assms(2) snoc by (intro seg_frame) (auto simp: pn hd_append)
    moreover have "seg (unlink_list b bs) e cs HEAD"
    proof (cases cs)
      case (Cons c ds)
      have "seg (unlink_list b bs) c ds HEAD = seg bs c ds HEAD"
        using assms(2) snoc Cons by (intro seg_frame) (auto simp: pn)
      then show ?thesis using s(2) snoc Cons by (simp add: pn)
    qed (simp add: snoc pn)
    ultimately show ?thesis using e snoc by (simp add: seg_append)
  qed
qed

lemma bget_find_body_ok: "bget_find_body dev bno b s = Ok (if b = HEAD then Inr None
    else if b_dev (bufs s b) = dev \<and> b_blockno (bufs s b) = bno then Inr (Some b)
    else Inl (b_next (bufs s b))) s"
  by (simp add: bget_find_body_def)

lemma bget_victim_body_ok: "bget_victim_body b s = Ok (if b = HEAD then Inr None
    else if b_refcnt (bufs s b) = 0 then Inr (Some b) else Inl (b_prev (bufs s b))) s"
  by (simp add: bget_victim_body_def)

lemma find_walk:
  assumes "seg (bufs s) a ys HEAD" and "HEAD \<notin> set ys" and "length ys < n"
  shows "kloop n (bget_find_body dev bno) (b_next (bufs s a)) s =
    Ok (find (\<lambda>b. b_dev (bufs s b) = dev \<and> b_blockno (bufs s b) = bno) ys) s"
  using assms
proof (induction ys arbitrary: a n)
  case Nil
  then show ?case by (cases n) (simp_all add: bget_find_body_ok)
next
  case (Cons y ys)
  from Cons.prems obtain m where n: "n = Suc m" "length ys < m" by (cases n) auto
  from Cons.prems have y: "b_next (bufs s a) = y" "seg (bufs s) y ys HEAD" by simp_all
  show ?case using Cons.IH [OF y(2) _ n(2)] Cons.prems(2) n y(1) by (simp add: bget_find_body_ok)
qed

lemma victim_walk:
  assumes "seg (bufs s) HEAD ys z" and "HEAD \<notin> set ys" and "length ys < n"
  shows "kloop n bget_victim_body (b_prev (bufs s z)) s =
    Ok (find (\<lambda>b. b_refcnt (bufs s b) = 0) (rev ys)) s"
  using assms
proof (induction ys arbitrary: z n rule: rev_induct)
  case Nil
  then show ?case by (cases n) (simp_all add: bget_victim_body_ok)
next
  case (snoc y ys)
  from snoc.prems obtain m where n: "n = Suc m" "length ys < m" by (cases n) auto
  from snoc.prems have y: "b_prev (bufs s z) = y" "seg (bufs s) HEAD ys y"
    by (simp_all add: seg_append)
  show ?case using snoc.IH [OF y(2) _ n(2)] snoc.prems(2) n y(1) by (simp add: bget_victim_body_ok)
qed

lemma lru_length: "lru bs xs \<Longrightarrow> length xs = NBUF"
  using distinct_card [of xs] by (simp add: lru_def)

lemma bget_find_ok:
  assumes "lru (bufs s) xs"
  shows "bget_find dev bno s =
    Ok (find (\<lambda>b. b_dev (bufs s b) = dev \<and> b_blockno (bufs s b) = bno) xs) s"
  using assms lru_length [OF assms] find_walk [of s HEAD xs "NBUF + 1" dev bno]
  by (simp add: bget_find_def lru_def del: kloop.simps)

lemma bget_victim_ok:
  assumes "lru (bufs s) xs"
  shows "bget_victim s = Ok (find (\<lambda>b. b_refcnt (bufs s b) = 0) (rev xs)) s"
  using assms lru_length [OF assms] victim_walk [of s xs HEAD "NBUF + 1"]
  by (simp add: bget_victim_def lru_def del: kloop.simps)

section \<open>The contents of a block\<close>

text \<open>
  What a reader of block \<open>bno\<close> of device \<open>dev\<close> should see: the cached copy, when there is a valid
  one, and otherwise the block on the disk.
\<close>

definition key :: "u32 \<Rightarrow> u32 \<Rightarrow> buf \<Rightarrow> bool" where
  "key dev bno x \<longleftrightarrow> b_dev x = dev \<and> b_blockno x = bno"

definition on_disk :: "u32 \<Rightarrow> 'z biost_scheme \<Rightarrow> u8 list" where
  "on_disk bno s = rd_read (disk_addr bno) (rdisk s)"

definition block_view :: "u32 \<Rightarrow> u32 \<Rightarrow> 'z biost_scheme \<Rightarrow> u8 list" where
  "block_view dev bno s =
     (case find (\<lambda>b. key dev bno (bufs s b) \<and> b_valid (bufs s b)) [0..<NBUF] of
        Some b \<Rightarrow> b_data (bufs s b)
      | None \<Rightarrow> on_disk bno s)"

text \<open>
  The invariant of the cache: the list is intact, no block of a device is cached twice (device 0
  marks buffers that were never used), and a buffer without references holds what the disk
  holds. The last part is what \<open>bpin\<close> is for.
\<close>

definition bc_inv :: "nat list \<Rightarrow> 'z biost_scheme \<Rightarrow> bool" where
  "bc_inv xs s \<longleftrightarrow> lru (bufs s) xs \<and>
     (\<forall>b < NBUF. \<forall>c < NBUF. b_dev (bufs s b) \<noteq> 0 \<longrightarrow>
        key (b_dev (bufs s b)) (b_blockno (bufs s b)) (bufs s c) \<longrightarrow> b = c) \<and>
     (\<forall>b < NBUF. b_refcnt (bufs s b) = 0 \<longrightarrow> b_valid (bufs s b) \<longrightarrow>
        b_data (bufs s b) = on_disk (b_blockno (bufs s b)) s)"

lemma bc_inv_unique:
  "bc_inv xs s \<Longrightarrow> b < NBUF \<Longrightarrow> c < NBUF \<Longrightarrow> dev \<noteq> 0 \<Longrightarrow> key dev bno (bufs s b) \<Longrightarrow>
   key dev bno (bufs s c) \<Longrightarrow> b = c"
  by (auto simp: bc_inv_def key_def)

lemma block_view_cached:
  assumes "bc_inv xs s" and "dev \<noteq> 0" and "b < NBUF" and "key dev bno (bufs s b)"
  shows "block_view dev bno s = (if b_valid (bufs s b) then b_data (bufs s b) else on_disk bno s)"
proof -
  have u: "c = b" if "c < NBUF" "key dev bno (bufs s c)" for c
    using bc_inv_unique [OF assms(1) that(1) assms(3,2) that(2) assms(4)] .
  show ?thesis
  proof (cases "b_valid (bufs s b)")
    case True
    then have "find (\<lambda>b. key dev bno (bufs s b) \<and> b_valid (bufs s b)) [0..<NBUF] \<noteq> None"
      using assms by (auto simp: find_None_iff)
    then obtain c where c: "find (\<lambda>b. key dev bno (bufs s b) \<and> b_valid (bufs s b)) [0..<NBUF] = Some c"
      by blast
    then have "c = b" using u by (auto dest!: find_upt_SomeD)
    with c show ?thesis using True by (simp add: block_view_def)
  next
    case False
    then have "find (\<lambda>b. key dev bno (bufs s b) \<and> b_valid (bufs s b)) [0..<NBUF] = None"
      using u by (auto simp: find_None_iff)
    with False show ?thesis by (simp add: block_view_def)
  qed
qed

lemma block_view_uncached:
  assumes "\<And>b. b < NBUF \<Longrightarrow> \<not> key dev bno (bufs s b)"
  shows "block_view dev bno s = on_disk bno s"
proof -
  have "find (\<lambda>b. key dev bno (bufs s b) \<and> b_valid (bufs s b)) [0..<NBUF] = None"
    using assms by (auto simp: find_None_iff)
  then show ?thesis by (simp add: block_view_def)
qed

section \<open>Uncontended calls\<close>

text \<open>The state in which a process runs file-system code: no spin lock is held.\<close>

definition calm :: "'z slst_scheme \<Rightarrow> bool" where
  "calm s \<longleftrightarrow> lk_wf (lks s) \<and> (\<forall>lk. \<not> locked (locks (lks s) lk)) \<and>
     cpu_proc (mycpu (lks s)) \<noteq> None \<and> 0 < rounds s"

lemma calm_upd [simp]:
  "calm (s\<lparr>lks := touch (lks s)\<rparr>) = calm s" "calm (s\<lparr>slocks := f\<rparr>) = calm s"
  "calm (s\<lparr>procs := g\<rparr>) = calm s" "calm (u\<lparr>bufs := h\<rparr>) = calm u" "calm (u\<lparr>rdisk := d\<rparr>) = calm u"
  "calm (u\<lparr>disk_writes := w\<rparr>) = calm u"
  by (simp_all add: calm_def)

lemma calm_quiet: "calm s \<Longrightarrow> (\<And>p. lk \<noteq> LProc p) \<Longrightarrow> quiet lk s"
  by (simp add: calm_def quiet_def)

lemma calm_wf: "calm s \<Longrightarrow> lk_wf (lks s)"
  by (simp add: calm_def)

lemma calm_free: "calm s \<Longrightarrow> lk_free lk s"
  by (simp add: calm_def lk_free_def)

definition taken :: "lockid \<Rightarrow> 'z slst_scheme \<Rightarrow> (lockid \<Rightarrow> sleeplock)" where
  "taken lk s = (slocks s)(lk := (slocks s lk)\<lparr>sl_locked := True, sl_pid := mypid s\<rparr>)"

definition mine :: "lockid \<Rightarrow> 'z slst_scheme \<Rightarrow> bool" where
  "mine lk s \<longleftrightarrow> sl_locked (slocks s lk) \<and> sl_pid (slocks s lk) = mypid s"

lemma find_list_SomeD: "find P xs = Some b \<Longrightarrow> b \<in> set xs \<and> P b"
  by (auto simp: find_Some_iff)

text \<open>The buffer that \<open>bget\<close> hands out, before anything is read from the disk.\<close>

definition got_buf :: "u32 \<Rightarrow> u32 \<Rightarrow> buf \<Rightarrow> buf" where
  "got_buf dev bno x =
     (if key dev bno x then x\<lparr>b_refcnt := b_refcnt x + 1\<rparr>
      else x\<lparr>b_dev := dev, b_blockno := bno, b_valid := False, b_refcnt := 1\<rparr>)"

lemma bget_ok:
  assumes "calm s" and "lru (bufs s) xs"
    and "\<exists>b < NBUF. key dev bno (bufs s b) \<or> b_refcnt (bufs s b) = 0"
    and "\<forall>b < NBUF. key dev bno (bufs s b) \<or> b_refcnt (bufs s b) = 0 \<longrightarrow> \<not> sl_locked (slocks s (LBuf b))"
  shows "\<exists>b < NBUF. bget dev bno s = Ok b (s\<lparr>lks := touch (lks s), slocks := taken (LBuf b) s,
      bufs := (bufs s)(b := got_buf dev bno (bufs s b))\<rparr>) \<and>
    (key dev bno (bufs s b) \<or> (\<forall>c < NBUF. \<not> key dev bno (bufs s c)) \<and> b_refcnt (bufs s b) = 0)"
proof -
  let ?a = "s\<lparr>lks := acqd LBcache (lks s)\<rparr>"
  let ?k = "\<lambda>b. b_dev (bufs s b) = dev \<and> b_blockno (bufs s b) = bno"
  have acq: "acquire LBcache s = Ok () ?a" using calm_free [OF assms(1)] by simp
  have set: "set xs = {0..<NBUF}" using assms(2) by (simp add: lru_def)
  have rel: "kthen (release LBcache) (kthen (acquiresleep (LBuf b)) (kret b)) (?a\<lparr>bufs := bs\<rparr>) =
      Ok b (s\<lparr>lks := touch (lks s), slocks := taken (LBuf b) s, bufs := bs\<rparr>)"
    if "\<not> sl_locked (slocks s (LBuf b))" for b bs
  proof -
    have "quiet (LBuf b) (s\<lparr>lks := touch (lks s), bufs := bs\<rparr>)"
      using assms(1) by (intro calm_quiet) (simp_all add: calm_def)
    from acquiresleep_ok [OF this] that show ?thesis
      using assms(1) by (simp add: calm_def taken_def mypid_def)
  qed
  show ?thesis
  proof (cases "find ?k xs")
    case None
    then have none: "\<forall>c < NBUF. \<not> key dev bno (bufs s c)"
      using set by (auto simp: find_None_iff key_def)
    have "find (\<lambda>b. b_refcnt (bufs s b) = 0) (rev xs) \<noteq> None"
      using assms(3) none set by (auto simp: find_None_iff)
    then obtain b where b: "find (\<lambda>b. b_refcnt (bufs s b) = 0) (rev xs) = Some b" by blast
    with set have "b < NBUF" "b_refcnt (bufs s b) = 0" by (auto dest!: find_list_SomeD)
    moreover have "bget dev bno s = Ok b (s\<lparr>lks := touch (lks s), slocks := taken (LBuf b) s,
        bufs := (bufs s)(b := got_buf dev bno (bufs s b))\<rparr>)"
      using acq bget_find_ok [of ?a xs dev bno] bget_victim_ok [of ?a xs] assms(2,4) None b
        rel [of b] calculation none [rule_format, of b]
      by (simp add: bget_def got_buf_def)
    ultimately show ?thesis using none by blast
  next
    case (Some b)
    with set have "b < NBUF" "key dev bno (bufs s b)"
      by (auto dest!: find_list_SomeD simp: key_def)
    moreover from this have "bget dev bno s = Ok b (s\<lparr>lks := touch (lks s), slocks := taken (LBuf b) s,
        bufs := (bufs s)(b := got_buf dev bno (bufs s b))\<rparr>)"
      using acq bget_find_ok [of ?a xs dev bno] assms(2,4) Some rel [of b]
      by (simp add: bget_def got_buf_def)
    ultimately show ?thesis by blast
  qed
qed

lemma ramdisk_read_ok:
  assumes "calm s" and "mine (LBuf b) s" and "disk_addr (b_blockno (bufs s b)) + BSIZE \<le> rdisk_size s"
  shows "ramdisk_rw b False s = Ok () (s\<lparr>lks := touch (lks s),
    bufs := (bufs s)(b := (bufs s b)\<lparr>b_data := on_disk (b_blockno (bufs s b)) s, b_valid := True\<rparr>)\<rparr>)"
  using assms holdingsleep_ok [OF calm_quiet [OF assms(1)], of "LBuf b"]
  by (simp add: ramdisk_rw_def mine_def on_disk_def Let_def)

lemma ramdisk_write_ok:
  assumes "calm s" and "mine (LBuf b) s" and "disk_addr (b_blockno (bufs s b)) + BSIZE \<le> rdisk_size s"
  shows "ramdisk_rw b True s = Ok () (s\<lparr>lks := touch (lks s),
    rdisk := rd_write (disk_addr (b_blockno (bufs s b))) (b_data (bufs s b)) (rdisk s),
    disk_writes := disk_writes s @ [(disk_addr (b_blockno (bufs s b)), b_data (bufs s b))]\<rparr>)"
  using assms holdingsleep_ok [OF calm_quiet [OF assms(1)], of "LBuf b"]
  by (simp add: ramdisk_rw_def mine_def Let_def)

definition filled :: "'z biost_scheme \<Rightarrow> buf \<Rightarrow> buf" where
  "filled s x = (if b_valid x then x else x\<lparr>b_data := on_disk (b_blockno x) s, b_valid := True\<rparr>)"

lemma key_got [simp]: "key dev bno (got_buf dev bno x)"
  by (auto simp: key_def got_buf_def)

lemma bread_ok:
  assumes "calm s" and "lru (bufs s) xs"
    and "\<exists>b < NBUF. key dev bno (bufs s b) \<or> b_refcnt (bufs s b) = 0"
    and "\<forall>b < NBUF. key dev bno (bufs s b) \<or> b_refcnt (bufs s b) = 0 \<longrightarrow> \<not> sl_locked (slocks s (LBuf b))"
    and "disk_addr bno + BSIZE \<le> rdisk_size s"
  shows "\<exists>b < NBUF. bread dev bno s = Ok b (s\<lparr>lks := touch (lks s), slocks := taken (LBuf b) s,
      bufs := (bufs s)(b := filled s (got_buf dev bno (bufs s b)))\<rparr>) \<and>
    (key dev bno (bufs s b) \<or> (\<forall>c < NBUF. \<not> key dev bno (bufs s c)) \<and> b_refcnt (bufs s b) = 0)"
proof -
  from bget_ok [OF assms(1-4)] obtain b where b: "b < NBUF"
    and g: "bget dev bno s = Ok b (s\<lparr>lks := touch (lks s), slocks := taken (LBuf b) s,
      bufs := (bufs s)(b := got_buf dev bno (bufs s b))\<rparr>)" (is "_ = Ok b ?t")
    and k: "key dev bno (bufs s b) \<or> (\<forall>c < NBUF. \<not> key dev bno (bufs s c)) \<and> b_refcnt (bufs s b) = 0"
    by blast
  have bl: "b_blockno (got_buf dev bno (bufs s b)) = bno"
    using key_got [of dev bno "bufs s b"] by (simp add: key_def del: key_got)
  have "mine (LBuf b) ?t" by (simp add: mine_def taken_def mypid_def)
  moreover have "calm ?t" using assms(1) by (simp add: calm_def)
  ultimately have "ramdisk_rw b False ?t = Ok () (?t\<lparr>lks := touch (lks ?t),
    bufs := (bufs ?t)(b := (bufs ?t b)\<lparr>b_data := on_disk bno s, b_valid := True\<rparr>)\<rparr>)"
    using ramdisk_read_ok [of ?t b] assms(5) bl by (simp add: on_disk_def)
  then show ?thesis using b g k bl
    by (intro exI [of _ b]) (simp add: bread_def filled_def kwhen_def)
qed

lemma lru_upd:
  "b_next x = b_next (bs b) \<Longrightarrow> b_prev x = b_prev (bs b) \<Longrightarrow> lru (bs(b := x)) xs = lru bs xs"
  unfolding lru_def by (subst seg_frame [of _ _ "bs(b := x)" bs]) auto

lemma filled_sel [simp]:
  "b_next (filled s x) = b_next x" "b_prev (filled s x) = b_prev x" "b_refcnt (filled s x) = b_refcnt x"
  "b_dev (filled s x) = b_dev x" "b_blockno (filled s x) = b_blockno x" "b_valid (filled s x)"
  by (simp_all add: filled_def)

lemma got_sel [simp]:
  "b_next (got_buf d n x) = b_next x" "b_prev (got_buf d n x) = b_prev x"
  "b_dev (got_buf d n x) = d" "b_blockno (got_buf d n x) = n"
  by (auto simp: got_buf_def key_def)

lemma key_filled [simp]: "key d n (filled s (got_buf dev bno x)) \<longleftrightarrow> d = dev \<and> n = bno"
  by (auto simp: key_def)

lemma key_self [simp]: "key (b_dev x) (b_blockno x) x"
  by (simp add: key_def)

text \<open>Handing out a buffer changes neither the invariant nor the contents of any block.\<close>

lemma bread_view:
  assumes inv: "bc_inv xs s" and "dev \<noteq> 0" and "b < NBUF" and "b_refcnt (bufs s b) + 1 \<noteq> 0"
    and k: "key dev bno (bufs s b) \<or> (\<forall>c < NBUF. \<not> key dev bno (bufs s c)) \<and> b_refcnt (bufs s b) = 0"
    and t: "bufs t = (bufs s)(b := filled s (got_buf dev bno (bufs s b)))" "rdisk t = rdisk s"
  shows "bc_inv xs t" and "b_data (bufs t b) = block_view dev bno s"
    and "d \<noteq> 0 \<Longrightarrow> block_view d n t = block_view d n s"
proof -
  have od: "on_disk m t = on_disk m s" for m using t(2) by (simp add: on_disk_def)
  have uniq: "c = c'" if "c < NBUF" "c' < NBUF" "d \<noteq> 0" "key d n (bufs s c)" "key d n (bufs s c')" for c c' d n
    using bc_inv_unique [OF inv that] .
  have only: "c = b" if "c < NBUF" "key dev bno (bufs s c)" for c
    using that k uniq [OF that(1) \<open>b < NBUF\<close> \<open>dev \<noteq> 0\<close>] by blast
  have rc: "b_refcnt (got_buf dev bno (bufs s b)) \<noteq> 0"
    using assms(4) by (simp add: got_buf_def)
  show bc: "bc_inv xs t"
    unfolding bc_inv_def t(1)
  proof (intro conjI allI impI)
    show "lru ((bufs s)(b := filled s (got_buf dev bno (bufs s b)))) xs"
      using inv by (simp add: lru_upd bc_inv_def)
  next
    let ?bs = "(bufs s)(b := filled s (got_buf dev bno (bufs s b)))"
    fix c c' assume h: "c < NBUF" "c' < NBUF" "b_dev (?bs c) \<noteq> 0"
      and kk: "key (b_dev (?bs c)) (b_blockno (?bs c)) (?bs c')"
    show "c = c'"
    proof (cases "c = b")
      case True
      with kk have "c' = b \<or> key dev bno (bufs s c')" by (simp split: if_splits)
      with True h only show ?thesis by blast
    next
      case False
      with kk have "c' = b \<and> key dev bno (bufs s c) \<or>
          key (b_dev (bufs s c)) (b_blockno (bufs s c)) (bufs s c')"
        by (auto simp: key_def split: if_splits)
      moreover have "b_dev (bufs s c) \<noteq> 0" using False h by simp
      ultimately show ?thesis
        using False h only uniq [of c c' "b_dev (bufs s c)" "b_blockno (bufs s c)"] key_self by blast
    qed
  next
    let ?bs = "(bufs s)(b := filled s (got_buf dev bno (bufs s b)))"
    fix c assume "c < NBUF" "b_refcnt (?bs c) = 0" "b_valid (?bs c)"
    then show "b_data (?bs c) = on_disk (b_blockno (?bs c)) t"
      using inv rc od by (auto simp: bc_inv_def split: if_splits)
  qed
  have ft: "key dev bno (bufs t b)" by (simp add: t key_def)
  show dv: "b_data (bufs t b) = block_view dev bno s"
  proof (cases "key dev bno (bufs s b)")
    case True
    then show ?thesis
      by (simp add: block_view_cached [OF inv \<open>dev \<noteq> 0\<close> \<open>b < NBUF\<close>] t filled_def got_buf_def key_def)
  next
    case False
    then show ?thesis using k
      by (simp add: block_view_uncached t filled_def got_buf_def)
  qed
  assume d: "d \<noteq> 0"
  consider "d = dev \<and> n = bno" | c where "(d, n) \<noteq> (dev, bno)" "c < NBUF" "c \<noteq> b" "key d n (bufs s c)"
    | "(d, n) \<noteq> (dev, bno)" "key d n (bufs s b)"
    | "(d, n) \<noteq> (dev, bno)" "\<forall>c < NBUF. \<not> key d n (bufs s c)"
    using \<open>b < NBUF\<close> by blast
  then show "block_view d n t = block_view d n s"
  proof cases
    case 1
    then show ?thesis
      using block_view_cached [OF bc d \<open>b < NBUF\<close>, of n] ft dv by (simp add: t)
  next
    case 2
    then have "key d n (bufs t c)" by (simp add: t)
    then show ?thesis
      using 2 block_view_cached [OF bc d, of c n] block_view_cached [OF inv d, of c n] by (simp add: t od)
  next
    case 3
    then have "\<not> key dev bno (bufs s b)" by (auto simp: key_def)
    with k have "b_refcnt (bufs s b) = 0" by blast
    then have "block_view d n s = on_disk n s"
      using 3 inv \<open>b < NBUF\<close> block_view_cached [OF inv d \<open>b < NBUF\<close>, of n] by (simp add: bc_inv_def key_def)
    moreover have "\<not> key d n (bufs t c)" if "c < NBUF" for c
    proof (cases "c = b")
      case True
      then show ?thesis using 3(1) by (simp add: t)
    next
      case False
      then show ?thesis using uniq [OF that \<open>b < NBUF\<close> d, of n] 3(2) t by auto
    qed
    ultimately show ?thesis by (simp add: block_view_uncached od)
  next
    case 4
    then have "\<not> key d n (bufs t c)" if "c < NBUF" for c using that by (auto simp: t key_def)
    then show ?thesis using 4 by (simp add: block_view_uncached od)
  qed
qed

lemma links_sel [simp]:
  "b_data (push_list b bs c) = b_data (bs c)" "b_valid (push_list b bs c) = b_valid (bs c)"
  "b_dev (push_list b bs c) = b_dev (bs c)" "b_blockno (push_list b bs c) = b_blockno (bs c)"
  "b_refcnt (push_list b bs c) = b_refcnt (bs c)"
  "b_data (unlink_list b bs c) = b_data (bs c)" "b_valid (unlink_list b bs c) = b_valid (bs c)"
  "b_dev (unlink_list b bs c) = b_dev (bs c)" "b_blockno (unlink_list b bs c) = b_blockno (bs c)"
  "b_refcnt (unlink_list b bs c) = b_refcnt (bs c)"
  by (simp_all add: push_list_def unlink_list_def Let_def)

lemma move_to_front:
  assumes "lru bs xs" and "b < NBUF"
  shows "lru (push_list b (unlink_list b bs)) (b # remove1 b xs)" and "b_next (bs b) \<noteq> b"
proof -
  from assms obtain as cs where xs: "xs = as @ b # cs" and b: "b \<notin> set as"
    by (metis atLeastLessThan_iff bot_nat_0.extremum lru_def split_list_first)
  have d: "distinct (HEAD # xs)" using assms(1) by (simp add: lru_def)
  have s: "seg (unlink_list b bs) HEAD (as @ cs) HEAD"
    using assms(1) d xs by (intro unlink_seg) (simp_all add: lru_def)
  have "seg (push_list b (unlink_list b bs)) HEAD (b # as @ cs) HEAD"
    using d xs by (intro push_seg [OF s]) auto
  then show "lru (push_list b (unlink_list b bs)) (b # remove1 b xs)"
    using assms(1) xs b by (auto simp: lru_def remove1_append)
  have "seg bs b cs HEAD" using assms(1) xs by (simp add: lru_def seg_append)
  then show "b_next (bs b) \<noteq> b" using seg_hd [of bs b cs HEAD] d xs by (cases cs) auto
qed

lemma block_view_same:
  assumes "\<And>c. b_data (bufs t c) = b_data (bufs s c) \<and> b_valid (bufs t c) = b_valid (bufs s c) \<and>
      b_dev (bufs t c) = b_dev (bufs s c) \<and> b_blockno (bufs t c) = b_blockno (bufs s c)"
    and "rdisk t = rdisk s"
  shows "block_view d n t = block_view d n s"
  using assms by (simp add: block_view_def key_def on_disk_def split: option.split)

definition released :: "nat \<Rightarrow> (nat \<Rightarrow> buf) \<Rightarrow> (nat \<Rightarrow> buf)" where
  "released b bs =
     (let bs1 = bs(b := (bs b)\<lparr>b_refcnt := b_refcnt (bs b) - 1\<rparr>)
      in if b_refcnt (bs b) = 1 then push_list b (unlink_list b bs1) else bs1)"

lemma word_minus_one_zero: "r - 1 = 0 \<longleftrightarrow> r = (1 :: 'a::len word)"
  by auto

lemma brelse_ok:
  assumes "calm s" and "mine (LBuf b) s" and "lru (bufs s) xs" and "b < NBUF"
  shows "brelse b s = Ok () (s\<lparr>lks := touch (lks s),
    procs := (\<lambda>q. if q < NPROC \<and> Some q \<noteq> cpu_proc (mycpu (lks s))
                 then woken (Some (Csleep (LBuf b))) (procs s q) else procs s q),
    slocks := (slocks s)(LBuf b := (slocks s (LBuf b))\<lparr>sl_locked := False, sl_pid := 0\<rparr>),
    bufs := released b (bufs s)\<rparr>)" (is "_ = Ok () (s\<lparr>lks := _, procs := ?p, slocks := ?k, bufs := _\<rparr>)")
proof -
  let ?u = "s\<lparr>lks := touch (lks s)\<rparr>"
  let ?v = "s\<lparr>lks := touch (lks s), procs := ?p, slocks := ?k\<rparr>"
  let ?bs = "(bufs s)(b := (bufs s b)\<lparr>b_refcnt := b_refcnt (bufs s b) - 1\<rparr>)"
  have q: "quiet (LBuf b) s" "quiet (LBuf b) ?u" using assms(1) by (intro calm_quiet; simp)+
  have h: "holdingsleep (LBuf b) s = Ok True ?u"
    using holdingsleep_ok [OF q(1)] assms(2) by (simp add: mine_def)
  have r: "releasesleep (LBuf b) ?u = Ok () ?v"
    using releasesleep_ok [OF q(2)] by (simp cong: if_cong)
  have wf: "lk_wf (lks s)" and lf: "\<not> locked (locks (lks s) lk)" for lk
    using assms(1) by (simp_all add: calm_def)
  have a: "acquire LBcache ?v = Ok () (?v\<lparr>lks := acqd LBcache (lks s)\<rparr>)"
    using wf lf by (simp add: lk_free_def)
  have bs: "lru ?bs xs" using assms(3) by (simp add: lru_upd)
  note mtf = move_to_front [OF bs assms(4)]
  show ?thesis
    using h r a mtf(2) wf lf assms(4)
    by (cases "b_refcnt (bufs s b) = 1")
       (simp_all add: brelse_def released_def Let_def lru_unlink_eq lru_push_eq word_minus_one_zero)
qed

lemma released_sel [simp]:
  "b_data (released b bs c) = b_data (bs c)" "b_valid (released b bs c) = b_valid (bs c)"
  "b_dev (released b bs c) = b_dev (bs c)" "b_blockno (released b bs c) = b_blockno (bs c)"
  "b_refcnt (released b bs c) = (if c = b then b_refcnt (bs b) - 1 else b_refcnt (bs c))"
  by (simp_all add: released_def Let_def)

lemma released_inv:
  assumes "bc_inv xs s" and "b < NBUF"
    and "b_refcnt (bufs s b) = 1 \<longrightarrow> b_valid (bufs s b) \<longrightarrow>
      b_data (bufs s b) = on_disk (b_blockno (bufs s b)) s"
    and "bufs t = released b (bufs s)" and "rdisk t = rdisk s"
  shows "bc_inv (if b_refcnt (bufs s b) = 1 then b # remove1 b xs else xs) t"
proof -
  let ?bs = "(bufs s)(b := (bufs s b)\<lparr>b_refcnt := b_refcnt (bufs s b) - 1\<rparr>)"
  have "lru ?bs xs" using assms(1) by (simp add: lru_upd bc_inv_def)
  from this move_to_front(1) [OF this assms(2)]
  have "lru (bufs t) (if b_refcnt (bufs s b) = 1 then b # remove1 b xs else xs)"
    unfolding assms(4) released_def Let_def by presburger
  then show ?thesis
    using assms by (auto simp: bc_inv_def key_def on_disk_def word_minus_one_zero)
qed

section \<open>Theorems\<close>

text \<open>
  C28: \<open>bread\<close> of an uncontended block returns, and the buffer it hands out is locked by the
  caller and holds the current contents of that block: the cached copy if there is one, else
  the block on disk. It keeps the invariant of the cache and changes the contents of no block,
  also when it has to evict another block.
\<close>

theorem bread_returns_block:
  assumes "calm s" and "bc_inv xs s" and "dev \<noteq> 0"
    and "\<exists>b < NBUF. key dev bno (bufs s b) \<or> b_refcnt (bufs s b) = 0"
    and "\<forall>b < NBUF. key dev bno (bufs s b) \<or> b_refcnt (bufs s b) = 0 \<longrightarrow> \<not> sl_locked (slocks s (LBuf b))"
    and "\<forall>b < NBUF. b_refcnt (bufs s b) + 1 \<noteq> 0"
    and "disk_addr bno + BSIZE \<le> rdisk_size s"
  shows "\<exists>b t. bread dev bno s = Ok b t \<and> b < NBUF \<and> calm t \<and> mine (LBuf b) t \<and>
    key dev bno (bufs t b) \<and> b_valid (bufs t b) \<and> b_data (bufs t b) = block_view dev bno s \<and>
    bc_inv xs t \<and> rdisk t = rdisk s \<and> (\<forall>d n. d \<noteq> 0 \<longrightarrow> block_view d n t = block_view d n s)"
proof -
  have "lru (bufs s) xs" using assms(2) by (simp add: bc_inv_def)
  from bread_ok [OF assms(1) this assms(4,5,7)] obtain b where b: "b < NBUF"
    and r: "bread dev bno s = Ok b (s\<lparr>lks := touch (lks s), slocks := taken (LBuf b) s,
      bufs := (bufs s)(b := filled s (got_buf dev bno (bufs s b)))\<rparr>)" (is "_ = Ok b ?t")
    and k: "key dev bno (bufs s b) \<or> (\<forall>c < NBUF. \<not> key dev bno (bufs s c)) \<and> b_refcnt (bufs s b) = 0"
    by blast
  note v = bread_view [OF assms(2,3) b assms(6) [rule_format, OF b] k, of ?t]
  have "calm ?t" using assms(1) by (simp add: calm_def)
  moreover have "mine (LBuf b) ?t" by (simp add: mine_def taken_def mypid_def)
  ultimately show ?thesis using r b v by (intro exI [of _ b] exI [of _ ?t]) simp
qed

text \<open>
  C29: \<open>brelse\<close> by the holder of a buffer returns with the buffer unlocked. When that was the last
  reference the buffer moves to the front of the LRU list, else the list is unchanged; the
  invariant of the cache holds again, provided a last reference is not dropped on a buffer that
  differs from the disk, and the contents of no block change.
\<close>

theorem brelse_refines_move_to_front:
  assumes "calm s" and "bc_inv xs s" and "b < NBUF" and "mine (LBuf b) s"
    and "b_refcnt (bufs s b) = 1 \<longrightarrow> b_valid (bufs s b) \<longrightarrow>
      b_data (bufs s b) = on_disk (b_blockno (bufs s b)) s"
  shows "\<exists>t. brelse b s = Ok () t \<and> calm t \<and> \<not> sl_locked (slocks t (LBuf b)) \<and>
    bc_inv (if b_refcnt (bufs s b) = 1 then b # remove1 b xs else xs) t \<and>
    (\<forall>d n. block_view d n t = block_view d n s)"
proof -
  have "lru (bufs s) xs" using assms(2) by (simp add: bc_inv_def)
  note ok = brelse_ok [OF assms(1,4) this assms(3)]
  then obtain t where t: "brelse b s = Ok () t" and eq: "bufs t = released b (bufs s)" "rdisk t = rdisk s"
    by simp
  have "block_view d n t = block_view d n s" for d n
    using eq by (intro block_view_same) simp_all
  moreover have "calm t" "\<not> sl_locked (slocks t (LBuf b))"
    using ok t assms(1) by (auto simp: calm_def)
  ultimately show ?thesis using t released_inv [OF assms(2,3,5) eq] by blast
qed

lemma disk_addr_dvd: "1024 dvd disk_addr n"
proof -
  have "(1024 :: nat) dvd unat n * 1024 mod 2 ^ 32" by (simp add: dvd_mod)
  then show ?thesis by (simp add: disk_addr_def unat_word_ariths)
qed

lemma rd_read_write_same: "length bs = BSIZE \<Longrightarrow> rd_read a (rd_write a bs d) = bs"
  by (auto simp: rd_read_def rd_write_def intro: nth_equalityI)

lemma rd_read_write_other:
  assumes "1024 dvd a" and "1024 dvd b" and "a \<noteq> b"
  shows "rd_read b (rd_write a bs d) = rd_read b d"
proof -
  from assms obtain i j where "a = 1024 * i" "b = 1024 * j" by (auto elim!: dvdE)
  moreover from this assms(3) have "i < j \<or> j < i" by auto
  ultimately have "a + BSIZE \<le> b \<or> b + BSIZE \<le> a" by linarith
  then show ?thesis by (auto simp: rd_read_def rd_write_def)
qed

lemma bwrite_ok:
  assumes "calm s" and "mine (LBuf b) s" and "disk_addr (b_blockno (bufs s b)) + BSIZE \<le> rdisk_size s"
  shows "bwrite b s = Ok () (s\<lparr>lks := touch (lks s),
      rdisk := rd_write (disk_addr (b_blockno (bufs s b))) (b_data (bufs s b)) (rdisk s),
      disk_writes := disk_writes s @ [(disk_addr (b_blockno (bufs s b)), b_data (bufs s b))]\<rparr>)"
proof -
  let ?u = "s\<lparr>lks := touch (lks s)\<rparr>"
  have "holdingsleep (LBuf b) s = Ok True ?u"
    using holdingsleep_ok [OF calm_quiet [OF assms(1)], of "LBuf b"] assms(2) by (simp add: mine_def)
  moreover have "mine (LBuf b) ?u" using assms(2) by (simp add: mine_def mypid_def)
  ultimately show ?thesis using ramdisk_write_ok [of ?u b] assms(1,3) by (simp add: bwrite_def)
qed

text \<open>
  C30: \<open>bwrite\<close> by the holder of a buffer stores its data in the buffer's block of the disk and changes no
  other block.
\<close>

theorem bwrite_writes_block:
  assumes "calm s" and "mine (LBuf b) s" and "length (b_data (bufs s b)) = BSIZE"
    and "disk_addr (b_blockno (bufs s b)) + BSIZE \<le> rdisk_size s"
  shows "\<exists>t. bwrite b s = Ok () t \<and> calm t \<and> bufs t = bufs s \<and>
    on_disk (b_blockno (bufs s b)) t = b_data (bufs s b) \<and>
    (\<forall>n. disk_addr n \<noteq> disk_addr (b_blockno (bufs s b)) \<longrightarrow> on_disk n t = on_disk n s)"
proof -
  let ?t = "s\<lparr>lks := touch (lks s),
      rdisk := rd_write (disk_addr (b_blockno (bufs s b))) (b_data (bufs s b)) (rdisk s),
      disk_writes := disk_writes s @ [(disk_addr (b_blockno (bufs s b)), b_data (bufs s b))]\<rparr>"
  have "calm ?t" using assms(1) by (simp add: calm_def)
  then show ?thesis using bwrite_ok [OF assms(1,2,4)] assms(3)
    by (intro exI [of _ ?t]) (simp add: on_disk_def rd_read_write_same rd_read_write_other disk_addr_dvd)
qed

text \<open>
  C32: The address computation of the RAM disk wraps around: a block number that is 4194304 too big passes the
  bounds check and the request reads the block without the excess.
\<close>

theorem ramdisk_block_wraps:
  assumes "calm s" and "mine (LBuf b) s" and "b_blockno (bufs s b) = n + 4194304"
    and "disk_addr n + BSIZE \<le> rdisk_size s"
  shows "\<exists>t. ramdisk_rw b False s = Ok () t \<and> b_data (bufs t b) = on_disk n s"
proof -
  have "(4294967296 :: u32) = 0" by (simp add: word_eq_iff_unsigned)
  then have "(n + 4194304) * 1024 = n * 1024" by (simp add: distrib_right)
  then have "disk_addr (n + 4194304) = disk_addr n" by (simp only: disk_addr_def)
  with ramdisk_read_ok [OF assms(1,2)] assms(3,4) show ?thesis by (simp add: on_disk_def)
qed

lemma binit_at_ok:
  assumes "b \<noteq> HEAD"
  shows "binit_at b s = Ok () (s\<lparr>lks := initlock (LBuf b) ''sleep lock'' (lks s),
    slocks := (slocks s)(LBuf b := (slocks s (LBuf b))\<lparr>sl_name := ''buffer'', sl_locked := False, sl_pid := 0\<rparr>),
    bufs := push_list b (bufs s)\<rparr>)"
  using assms by (simp add: binit_at_def initsleeplock_def push_list_def Let_def)

text \<open>
  C31: \<open>binit\<close> terminates with all buffers on the LRU list, the last one first, and every buffer's
  sleep lock free.
\<close>

theorem binit_links_all:
  "\<exists>t. binit s = Ok () t \<and> lru (bufs t) (rev [0..<NBUF]) \<and>
    (\<forall>b < NBUF. \<not> sl_locked (slocks t (LBuf b)))"
proof -
  let ?s = "s\<lparr>lks := initlock LBcache ''bcache'' (lks s),
    bufs := (bufs s)(HEAD := (bufs s HEAD)\<lparr>b_prev := HEAD, b_next := HEAD\<rparr>)\<rparr>"
  let ?I = "\<lambda>bl t. \<exists>k \<le> NBUF. bl = [k..<NBUF] \<and> seg (bufs t) HEAD (rev [0..<k]) HEAD \<and>
    (\<forall>b < k. \<not> sl_locked (slocks t (LBuf b)))"
  have "wp (kfor [0..<NBUF] binit_at) (\<lambda>_. ?I []) ?s"
  proof (rule kfor_wp)
    show "?I [0..<NBUF] ?s" by (intro exI [of _ 0]) simp
  next
    fix b bl and u :: "'a biost_scheme" assume "?I (b # bl) u"
    then obtain k where k: "k \<le> NBUF" "b # bl = [k..<NBUF]" "seg (bufs u) HEAD (rev [0..<k]) HEAD"
        "\<forall>b < k. \<not> sl_locked (slocks u (LBuf b))" by blast
    then have "b = k \<and> k < NBUF \<and> bl = [Suc k..<NBUF]"
      by (cases "k < NBUF") (simp_all add: upt_conv_Cons)
    then have b: "b = k" "k < NBUF" "bl = [Suc k..<NBUF]" by blast+
    have "seg (push_list k (bufs u)) HEAD (k # rev [0..<k]) HEAD"
      using k b by (intro push_seg) auto
    then have "?I bl (u\<lparr>lks := l, slocks := (slocks u)(LBuf b := (slocks u (LBuf b))\<lparr>
        sl_name := ''buffer'', sl_locked := False, sl_pid := 0\<rparr>), bufs := push_list b (bufs u)\<rparr>)" for l
      using k b by (intro exI [of _ "Suc k"]) (auto simp: less_Suc_eq)
    then show "wp (binit_at b) (\<lambda>_. ?I bl) u"
      using binit_at_ok [of b u] b by (simp add: wp_iff)
  qed
  then obtain t k where t: "kfor [0..<NBUF] binit_at ?s = Ok () t" and k: "k \<le> NBUF" "[] = [k..<NBUF]"
    "seg (bufs t) HEAD (rev [0..<k]) HEAD" "\<forall>b < k. \<not> sl_locked (slocks t (LBuf b))"
    by (auto simp: wp_iff)
  have "k = NBUF" using arg_cong [OF k(2), of length] k(1) by simp
  with k have "lru (bufs t) (rev [0..<NBUF])" "\<forall>b < NBUF. \<not> sl_locked (slocks t (LBuf b))"
    by (simp_all add: lru_def atLeast0LessThan lessThan_def del: upt_rec_numeral)
  moreover have "binit s = kfor [0..<NBUF] binit_at ?s"
    by (simp add: binit_def del: kfor.simps upt.simps upt_rec_numeral)
  ultimately show ?thesis using t by (intro exI [of _ t] conjI) (simp_all only:)
qed

section \<open>Examples\<close>

text \<open>A cache as \<open>binit\<close> leaves it, over a disk of eight blocks whose bytes are their block's number.\<close>

definition small_bufs :: "nat \<Rightarrow> buf" where
  "small_bufs b = \<lparr>b_valid = False, b_dev = 0, b_blockno = 0, b_refcnt = 0,
     b_prev = (if b = HEAD then 0 else Suc b), b_next = (if b = 0 then HEAD else b - 1),
     b_data = replicate BSIZE 0\<rparr>"

definition small_biost :: biost where
  "small_biost = (let s = small_slst in
     \<lparr>lks = lks s, mem = mem s, freelist = freelist s, k_end = k_end s, procs = procs s,
       nextpid = nextpid s, initproc = initproc s, ticks = ticks s,
       kernel_pagetable = kernel_pagetable s, csr = csr s, ksym = ksym s,
       fork_first = fork_first s, timer = timer s, rounds = rounds s, slocks = slocks s,
       rdisk = (\<lambda>a. of_nat (a div BSIZE)), rdisk_size = 8 * BSIZE, disk_writes = [], bufs = small_bufs\<rparr>)"

lemma small_biost_sel [simp]:
  "lks small_biost = busy_lkst" "slocks small_biost = (\<lambda>_. free_sl)" "rounds small_biost = 10"
  "procs small_biost = (\<lambda>p. zero_proc\<lparr>p_pid := int p + 1\<rparr>)" "bufs small_biost = small_bufs"
  "rdisk small_biost = (\<lambda>a. of_nat (a div BSIZE))" "rdisk_size small_biost = 8 * BSIZE"
  by (simp_all add: small_biost_def)

lemma calm_small [simp]: "calm small_biost"
  by (simp add: calm_def)

lemma small_seg: "k \<le> NBUF \<Longrightarrow> seg small_bufs k (rev [0..<k]) HEAD"
  by (induction k) (simp_all add: small_bufs_def)

lemma small_inv: "bc_inv (rev [0..<NBUF]) small_biost"
  using small_seg [of NBUF]
  by (simp add: bc_inv_def lru_def atLeast0LessThan lessThan_def del: upt_rec_numeral)
     (simp add: small_bufs_def)

theorem bread_returns_block_witness:
  "\<exists>b t. bread 1 3 small_biost = Ok b t \<and> mine (LBuf b) t \<and> b_data (bufs t b) = replicate BSIZE 3"
proof -
  have nk: "\<not> key 1 3 (small_bufs b)" for b by (simp add: key_def small_bufs_def)
  have v: "block_view 1 3 small_biost = replicate BSIZE 3"
  proof -
    have "block_view 1 3 small_biost = map (\<lambda>i. of_nat ((3072 + i) div BSIZE)) [0..<BSIZE]"
      using nk by (simp add: block_view_uncached on_disk_def rd_read_def disk_addr_def del: upt_rec_numeral)
    also have "\<dots> = map (\<lambda>_. 3) [0..<BSIZE]"
    proof (rule map_cong)
      fix i assume "i \<in> set [0..<BSIZE]"
      then have "(3072 + i) div BSIZE = 3" by (intro div_nat_eqI) auto
      then show "of_nat ((3072 + i) div BSIZE) = (3 :: u8)" by (simp only: of_nat_numeral)
    qed simp
    finally show ?thesis by (simp add: map_replicate_const del: upt_rec_numeral)
  qed
  show ?thesis
    using bread_returns_block [OF calm_small small_inv, of 1 3] nk v
    by (fastforce simp: free_sl_def small_bufs_def disk_addr_def)
qed

text \<open>The cache while process 0 holds buffer 5 with the contents of block 2.\<close>

definition held_biost :: biost where
  "held_biost = small_biost\<lparr>slocks := (\<lambda>_. free_sl)(LBuf 5 := free_sl\<lparr>sl_locked := True, sl_pid := 1\<rparr>),
     bufs := small_bufs(5 := (small_bufs 5)\<lparr>b_dev := 1, b_blockno := 4194306, b_refcnt := 1\<rparr>)\<rparr>"

lemma held_facts:
  "calm held_biost" "mine (LBuf 5) held_biost" "bc_inv (rev [0..<NBUF]) held_biost"
proof -
  show "calm held_biost" by (simp add: held_biost_def calm_def)
  show "mine (LBuf 5) held_biost" by (simp add: held_biost_def mine_def mypid_def zero_proc_def)
  have "lru (bufs held_biost) (rev [0..<NBUF])"
    using small_inv unfolding held_biost_def by (simp add: lru_upd bc_inv_def del: upt_rec_numeral)
  then show "bc_inv (rev [0..<NBUF]) held_biost"
    by (simp add: bc_inv_def held_biost_def key_def small_bufs_def del: upt_rec_numeral)
qed

theorem brelse_refines_move_to_front_witness:
  "\<exists>t. brelse 5 held_biost = Ok () t \<and> lru (bufs t) (5 # remove1 5 (rev [0..<NBUF]))"
proof -
  have "b_refcnt (bufs held_biost 5) = 1" "\<not> b_valid (bufs held_biost 5)"
    by (simp_all add: held_biost_def small_bufs_def)
  then show ?thesis
    using brelse_refines_move_to_front [OF held_facts(1,3) _ held_facts(2)]
    by (auto simp: bc_inv_def simp del: upt_rec_numeral)
qed

theorem bwrite_writes_block_witness:
  "\<exists>t. bwrite 5 held_biost = Ok () t \<and> on_disk 2 t = replicate BSIZE 0"
proof -
  have "disk_addr 4194306 = disk_addr 2" by (simp add: disk_addr_def)
  moreover have "disk_addr 2 = 2048" by (simp add: disk_addr_def)
  ultimately show ?thesis
    using bwrite_writes_block [OF held_facts(1,2)]
    by (auto simp: held_biost_def small_bufs_def on_disk_def)
qed

theorem ramdisk_block_wraps_witness:
  "\<exists>t. ramdisk_rw 5 False held_biost = Ok () t \<and> b_data (bufs t 5) = on_disk 2 held_biost"
proof -
  have "disk_addr 2 = 2048" by (simp add: disk_addr_def)
  then show ?thesis
    using ramdisk_block_wraps [OF held_facts(1,2), of 2] by (simp add: held_biost_def small_bufs_def)
qed

theorem binit_links_all_witness:
  "\<exists>t. binit small_biost = Ok () t \<and> \<not> sl_locked (slocks t (LBuf 7))"
  using binit_links_all [of small_biost] by auto

end
