(* ===== verification/Fs.thy ===== *)
theory Fs
  imports Log
begin

text \<open>
  The file system, \<open>kernel/fs.c\<close>: the super block, the block allocator, inodes and
  their table, inode contents, directories and path names. The theory shows that
  inodes survive the trip through their disk block, that the block allocator hands
  out free blocks only, and what path parsing and directory lookup compute.
\<close>

section \<open>State\<close>

abbreviation (input) FSMAGIC :: u32 where "FSMAGIC \<equiv> 0x10203040"
abbreviation (input) ROOTINO :: u32 where "ROOTINO \<equiv> 1"
abbreviation (input) NDIRECT :: nat where "NDIRECT \<equiv> 12"
abbreviation (input) NINDIRECT :: nat where "NINDIRECT \<equiv> 256"
abbreviation (input) MAXFILE :: nat where "MAXFILE \<equiv> 268"
abbreviation (input) DIRSIZ :: nat where "DIRSIZ \<equiv> 14"
abbreviation (input) BPB :: u32 where "BPB \<equiv> 8192"
abbreviation (input) IPB :: u32 where "IPB \<equiv> 16"
abbreviation (input) T_DIR :: u16 where "T_DIR \<equiv> 1"
abbreviation (input) T_FILE :: u16 where "T_FILE \<equiv> 2"
abbreviation (input) T_DEVICE :: u16 where "T_DEVICE \<equiv> 3"

record superblock =
  sb_magic :: u32
  sb_size :: u32
  sb_nblocks :: u32
  sb_ninodes :: u32
  sb_nlog :: u32
  sb_logstart :: u32
  sb_inodestart :: u32
  sb_bmapstart :: u32

record dinode =
  d_type :: u16
  d_major :: u16
  d_minor :: u16
  d_nlink :: u16
  d_size :: u32
  d_addrs :: "u32 list"

record inode =
  i_dev :: u32
  i_inum :: u32
  i_ref :: int
  i_valid :: bool
  i_din :: dinode

text \<open>
  The fields of \<open>struct inode\<close> that copy the disk inode are the component \<open>i_din\<close>. Inodes are
  named by their index in \<open>itable.inode\<close>. \<open>junk\<close> stands for the bytes of kernel
  stack variables that the program does not initialise.
\<close>

record fsst = logst +
  sb :: superblock
  itable :: "nat \<Rightarrow> inode"
  junk :: "nat \<Rightarrow> u8"

definition get_i :: "nat \<Rightarrow> (inode \<Rightarrow> 'a) \<Rightarrow> ('a, 'z fsst_scheme) km" where
  "get_i ip f = kget (\<lambda>s. f (itable s ip))"

definition set_i :: "nat \<Rightarrow> (inode \<Rightarrow> inode) \<Rightarrow> (unit, 'z fsst_scheme) km" where
  "set_i ip f = kmod (\<lambda>s. s\<lparr>itable := (itable s)(ip := f (itable s ip))\<rparr>)"

definition get_d :: "nat \<Rightarrow> (dinode \<Rightarrow> 'a) \<Rightarrow> ('a, 'z fsst_scheme) km" where
  "get_d ip f = kget (\<lambda>s. f (i_din (itable s ip)))"

definition set_d :: "nat \<Rightarrow> (dinode \<Rightarrow> dinode) \<Rightarrow> (unit, 'z fsst_scheme) km" where
  "set_d ip f = set_i ip (\<lambda>x. x\<lparr>i_din := f (i_din x)\<rparr>)"

declare get_i_def [simp] set_i_def [simp] get_d_def [simp] set_d_def [simp]

section \<open>Layout of the disk\<close>

definition get16 :: "nat \<Rightarrow> u8 list \<Rightarrow> u16" where
  "get16 off bs = le_join (take 2 (drop off bs))"

definition IBLOCK :: "u32 \<Rightarrow> superblock \<Rightarrow> u32" where
  "IBLOCK i sblk = i div IPB + sb_inodestart sblk"

definition BBLOCK :: "u32 \<Rightarrow> superblock \<Rightarrow> u32" where
  "BBLOCK b sblk = b div BPB + sb_bmapstart sblk"

definition dec_superblock :: "u8 list \<Rightarrow> superblock" where
  "dec_superblock d = \<lparr>sb_magic = get32 0 d, sb_size = get32 4 d, sb_nblocks = get32 8 d,
     sb_ninodes = get32 12 d, sb_nlog = get32 16 d, sb_logstart = get32 20 d,
     sb_inodestart = get32 24 d, sb_bmapstart = get32 28 d\<rparr>"

text \<open>A disk inode takes 64 bytes; \<open>dip_off\<close> is the offset of \<open>dip\<close> in its block.\<close>

definition dip_off :: "u32 \<Rightarrow> nat" where
  "dip_off inum = 64 * unat (inum mod IPB)"

definition enc_dinode :: "dinode \<Rightarrow> u8 list" where
  "enc_dinode d = le_split 2 (d_type d) @ le_split 2 (d_major d) @ le_split 2 (d_minor d) @
     le_split 2 (d_nlink d) @ le_split 4 (d_size d) @ concat (map (le_split 4) (d_addrs d))"

definition dec_dinode :: "nat \<Rightarrow> u8 list \<Rightarrow> dinode" where
  "dec_dinode off bs = \<lparr>d_type = get16 off bs, d_major = get16 (off + 2) bs,
     d_minor = get16 (off + 4) bs, d_nlink = get16 (off + 6) bs, d_size = get32 (off + 8) bs,
     d_addrs = map (\<lambda>i. get32 (off + 12 + 4 * i) bs) [0..<NDIRECT + 1]\<rparr>"

text \<open>A directory entry is the inode number and 14 bytes of name.\<close>

definition enc_dirent :: "u16 \<Rightarrow> u8 list \<Rightarrow> u8 list" where
  "enc_dirent inum name = le_split 2 inum @ name"

section \<open>Super block and block allocator\<close>

definition readsb :: "u32 \<Rightarrow> (unit, 'z fsst_scheme) km" where
  "readsb dev =
     kbind (bread dev 1) (\<lambda>bp.
     kbind (get_buf bp b_data) (\<lambda>d.
     kthen (kmod (\<lambda>s. s\<lparr>sb := dec_superblock d\<rparr>))
     (brelse bp)))"

definition bzero :: "u32 \<Rightarrow> u32 \<Rightarrow> (unit, 'z logst_scheme) km" where
  "bzero dev bno =
     kbind (bread dev bno) (\<lambda>bp.
     kthen (set_data bp (\<lambda>_. replicate BSIZE 0))
    (kthen (log_write bp)
     (brelse bp)))"

text \<open>The inner loop of \<open>balloc\<close>: the first clear bit of the bitmap block that stands for a block of the disk.\<close>

definition bit_of :: "nat \<Rightarrow> u8" where
  "bit_of bi = push_bit (bi mod 8) 1"

definition balloc_scan :: "u32 \<Rightarrow> u32 \<Rightarrow> u8 list \<Rightarrow> nat option" where
  "balloc_scan size0 b d =
     find (\<lambda>bi. d ! (bi div 8) AND bit_of bi = 0)
       (takeWhile (\<lambda>bi. b + of_nat bi < size0) [0..<unat BPB])"

definition balloc_body :: "u32 \<Rightarrow> u32 \<Rightarrow> (u32 + u32, 'z fsst_scheme) km" where
  "balloc_body dev b =
     kbind (kget sb) (\<lambda>sblk.
       if sb_size sblk \<le> b then kret (Inr 0)
       else
         kbind (bread dev (BBLOCK b sblk)) (\<lambda>bp.
         kbind (get_buf bp b_data) (\<lambda>d.
           case balloc_scan (sb_size sblk) b d of
             Some bi \<Rightarrow>
               kthen (set_data bp (\<lambda>d. d[bi div 8 := d ! (bi div 8) OR bit_of bi]))
              (kthen (log_write bp)
              (kthen (brelse bp)
              (kthen (bzero dev (b + of_nat bi))
               (kret (Inr (b + of_nat bi))))))
           | None \<Rightarrow> kthen (brelse bp) (kret (Inl (b + BPB))))))"

definition balloc :: "u32 \<Rightarrow> (u32, 'z fsst_scheme) km" where
  "balloc dev = (\<lambda>s. kloop (unat (sb_size (sb s)) div unat BPB + 2) (balloc_body dev) 0 s)"

definition bfree :: "u32 \<Rightarrow> u32 \<Rightarrow> (unit, 'z fsst_scheme) km" where
  "bfree dev b =
     kbind (kget sb) (\<lambda>sblk.
     kbind (bread dev (BBLOCK b sblk)) (\<lambda>bp.
     kbind (get_buf bp b_data) (\<lambda>d.
       let bi = unat (b mod BPB)
       in if d ! (bi div 8) AND bit_of bi = 0 then kpanic ''freeing free block''
          else
            kthen (set_data bp (\<lambda>d. d[bi div 8 := d ! (bi div 8) AND NOT (bit_of bi)]))
           (kthen (log_write bp)
            (brelse bp)))))"

section \<open>The inode table\<close>

definition iinit :: "(unit, 'z slst_scheme) km" where
  "iinit =
     kthen (on_lks (initlock LItable ''itable''))
     (kfor [0..<NINODE] (\<lambda>i. initsleeplock (LInode i) ''inode''))"

text \<open>The scan of \<open>iget\<close>, which remembers the first free entry on its way.\<close>

primrec iget_scan :: "(nat \<Rightarrow> inode) \<Rightarrow> u32 \<Rightarrow> u32 \<Rightarrow> nat list \<Rightarrow> nat option \<Rightarrow> nat option + nat" where
  "iget_scan tbl dev inum [] spare = Inl spare"
| "iget_scan tbl dev inum (ip # ips) spare =
     (if 0 < i_ref (tbl ip) \<and> i_dev (tbl ip) = dev \<and> i_inum (tbl ip) = inum then Inr ip
      else iget_scan tbl dev inum ips
        (if spare = None \<and> i_ref (tbl ip) = 0 then Some ip else spare))"

definition iget :: "u32 \<Rightarrow> u32 \<Rightarrow> (nat, 'z fsst_scheme) km" where
  "iget dev inum =
     kthen (acquire LItable)
    (kbind (kget itable) (\<lambda>tbl.
       case iget_scan tbl dev inum [0..<NINODE] None of
         Inr ip \<Rightarrow>
           kthen (set_i ip (\<lambda>x. x\<lparr>i_ref := i_ref x + 1\<rparr>))
          (kthen (release LItable)
           (kret ip))
       | Inl None \<Rightarrow> kpanic ''iget: no inodes''
       | Inl (Some ip) \<Rightarrow>
           kthen (set_i ip (\<lambda>x. x\<lparr>i_dev := dev, i_inum := inum, i_ref := 1, i_valid := False\<rparr>))
          (kthen (release LItable)
           (kret ip))))"

definition idup :: "nat \<Rightarrow> (nat, 'z fsst_scheme) km" where
  "idup ip =
     kthen (acquire LItable)
    (kthen (set_i ip (\<lambda>x. x\<lparr>i_ref := i_ref x + 1\<rparr>))
    (kthen (release LItable)
     (kret ip)))"

definition ialloc_body :: "u32 \<Rightarrow> u16 \<Rightarrow> u32 \<Rightarrow> (u32 + nat option, 'z fsst_scheme) km" where
  "ialloc_body dev type inum =
     kbind (kget sb) (\<lambda>sblk.
       if sb_ninodes sblk \<le> inum then kret (Inr None)
       else
         kbind (bread dev (IBLOCK inum sblk)) (\<lambda>bp.
         kbind (get_buf bp b_data) (\<lambda>d.
           if get16 (dip_off inum) d = 0 then
             kthen (set_data bp (put_at (dip_off inum) (le_split 2 type @ replicate 62 0)))
            (kthen (log_write bp)
            (kthen (brelse bp)
            (kbind (iget dev inum) (\<lambda>ip.
             kret (Inr (Some ip))))))
           else kthen (brelse bp) (kret (Inl (inum + 1))))))"

definition ialloc :: "u32 \<Rightarrow> u16 \<Rightarrow> (nat option, 'z fsst_scheme) km" where
  "ialloc dev type = (\<lambda>s. kloop (unat (sb_ninodes (sb s)) + 1) (ialloc_body dev type) 1 s)"

definition iupdate :: "nat \<Rightarrow> (unit, 'z fsst_scheme) km" where
  "iupdate ip =
     kbind (get_i ip (\<lambda>x. x)) (\<lambda>x.
     kbind (kget sb) (\<lambda>sblk.
     kbind (bread (i_dev x) (IBLOCK (i_inum x) sblk)) (\<lambda>bp.
     kbind (get_d ip (\<lambda>d. d)) (\<lambda>d.
     kthen (set_data bp (put_at (dip_off (i_inum x)) (enc_dinode d)))
    (kthen (log_write bp)
     (brelse bp))))))"

definition ilock :: "nat \<Rightarrow> (unit, 'z fsst_scheme) km" where
  "ilock ip =
     kbind (get_i ip i_ref) (\<lambda>r.
       if r < 1 then kpanic ''ilock''
       else
         kthen (acquiresleep (LInode ip))
        (kbind (get_i ip (\<lambda>x. x)) (\<lambda>x.
         kwhen (\<not> i_valid x)
           (kbind (kget sb) (\<lambda>sblk.
            kbind (bread (i_dev x) (IBLOCK (i_inum x) sblk)) (\<lambda>bp.
            kbind (get_buf bp b_data) (\<lambda>bs.
            kthen (set_d ip (\<lambda>_. dec_dinode (dip_off (i_inum x)) bs))
           (kthen (brelse bp)
           (kthen (set_i ip (\<lambda>x. x\<lparr>i_valid := True\<rparr>))
           (kbind (get_d ip d_type) (\<lambda>ty.
            kwhen (ty = 0) (kpanic ''ilock: no type''))))))))))))"

definition iunlock :: "nat \<Rightarrow> (unit, 'z fsst_scheme) km" where
  "iunlock ip =
     kbind (holdingsleep (LInode ip)) (\<lambda>h.
     kbind (get_i ip i_ref) (\<lambda>r.
       if \<not> h \<or> r < 1 then kpanic ''iunlock'' else releasesleep (LInode ip)))"

section \<open>Inode contents\<close>

text \<open>The part of \<open>bmap\<close> for a block that the inode itself lists.\<close>

definition bmap_slot :: "nat \<Rightarrow> nat \<Rightarrow> (u32, 'z fsst_scheme) km" where
  "bmap_slot ip k =
     kbind (get_d ip (\<lambda>d. d_addrs d ! k)) (\<lambda>addr.
       if addr \<noteq> 0 then kret addr
       else
         kbind (get_i ip i_dev) (\<lambda>dev.
         kbind (balloc dev) (\<lambda>addr.
           if addr = 0 then kret 0
           else
             kthen (set_d ip (\<lambda>d. d\<lparr>d_addrs := (d_addrs d)[k := addr]\<rparr>))
             (kret addr))))"

definition bmap :: "nat \<Rightarrow> u32 \<Rightarrow> (u32, 'z fsst_scheme) km" where
  "bmap ip bn =
     (if unat bn < NDIRECT then bmap_slot ip (unat bn)
      else
        (let bn = unat (bn - of_nat NDIRECT)
         in if bn < NINDIRECT then
              kbind (bmap_slot ip NDIRECT) (\<lambda>addr.
                if addr = 0 then kret 0
                else
                  kbind (get_i ip i_dev) (\<lambda>dev.
                  kbind (bread dev addr) (\<lambda>bp.
                  kbind (get_buf bp (\<lambda>x. get32 (4 * bn) (b_data x))) (\<lambda>addr.
                  kbind (if addr \<noteq> 0 then kret addr
                         else
                           kbind (balloc dev) (\<lambda>addr.
                           kthen (kwhen (addr \<noteq> 0)
                              (kthen (set_data bp (put32 (4 * bn) addr))
                               (log_write bp)))
                           (kret addr))) (\<lambda>addr.
                  kthen (brelse bp)
                  (kret addr))))))
            else kpanic ''bmap: out of range''))"

definition itrunc :: "nat \<Rightarrow> (unit, 'z fsst_scheme) km" where
  "itrunc ip =
     kthen (kfor [0..<NDIRECT] (\<lambda>i.
       kbind (get_d ip (\<lambda>d. d_addrs d ! i)) (\<lambda>a.
       kwhen (a \<noteq> 0)
         (kbind (get_i ip i_dev) (\<lambda>dev.
          kthen (bfree dev a)
          (set_d ip (\<lambda>d. d\<lparr>d_addrs := (d_addrs d)[i := 0]\<rparr>)))))))
    (kbind (get_d ip (\<lambda>d. d_addrs d ! NDIRECT)) (\<lambda>a.
     kthen (kwhen (a \<noteq> 0)
       (kbind (get_i ip i_dev) (\<lambda>dev.
        kbind (bread dev a) (\<lambda>bp.
        kthen (kfor [0..<NINDIRECT] (\<lambda>j.
          kbind (get_buf bp (\<lambda>x. get32 (4 * j) (b_data x))) (\<lambda>aj.
          kwhen (aj \<noteq> 0) (bfree dev aj))))
       (kthen (brelse bp)
       (kbind (get_d ip (\<lambda>d. d_addrs d ! NDIRECT)) (\<lambda>a.
        kthen (bfree dev a)
        (set_d ip (\<lambda>d. d\<lparr>d_addrs := (d_addrs d)[NDIRECT := 0]\<rparr>)))))))))
    (kthen (set_d ip (\<lambda>d. d\<lparr>d_size := 0\<rparr>))
     (iupdate ip))))"

definition iput :: "nat \<Rightarrow> (unit, 'z fsst_scheme) km" where
  "iput ip =
     kthen (acquire LItable)
    (kbind (get_i ip (\<lambda>x. x)) (\<lambda>x.
     kthen (kwhen (i_ref x = 1 \<and> i_valid x \<and> d_nlink (i_din x) = 0)
       (kthen (acquiresleep (LInode ip))
       (kthen (release LItable)
       (kthen (itrunc ip)
       (kthen (set_d ip (\<lambda>d. d\<lparr>d_type := 0\<rparr>))
       (kthen (iupdate ip)
       (kthen (set_i ip (\<lambda>x. x\<lparr>i_valid := False\<rparr>))
       (kthen (releasesleep (LInode ip))
        (acquire LItable)))))))))
    (kthen (set_i ip (\<lambda>x. x\<lparr>i_ref := i_ref x - 1\<rparr>))
     (release LItable))))"

definition iunlockput :: "nat \<Rightarrow> (unit, 'z fsst_scheme) km" where
  "iunlockput ip = kthen (iunlock ip) (iput ip)"

definition ireclaim_body :: "u32 \<Rightarrow> u32 \<Rightarrow> (u32 + unit, 'z fsst_scheme) km" where
  "ireclaim_body dev inum =
     kbind (kget sb) (\<lambda>sblk.
       if sb_ninodes sblk \<le> inum then kret (Inr ())
       else
         kbind (bread dev (IBLOCK inum sblk)) (\<lambda>bp.
         kbind (get_buf bp (\<lambda>x. dec_dinode (dip_off inum) (b_data x))) (\<lambda>dip.
         kbind (if d_type dip \<noteq> 0 \<and> d_nlink dip = 0
                then kbind (iget dev inum) (\<lambda>ip. kret (Some ip)) else kret None) (\<lambda>ip.
         kthen (brelse bp)
        (kthen (case ip of
             None \<Rightarrow> kret ()
           | Some ip \<Rightarrow>
               kthen begin_op
              (kthen (ilock ip)
              (kthen (iunlock ip)
              (kthen (iput ip)
               end_op))))
         (kret (Inl (inum + 1))))))))"

definition ireclaim :: "u32 \<Rightarrow> (unit, 'z fsst_scheme) km" where
  "ireclaim dev = (\<lambda>s. kloop (unat (sb_ninodes (sb s)) + 1) (ireclaim_body dev) 1 s)"

definition fsinit :: "u32 \<Rightarrow> (unit, 'z fsst_scheme) km" where
  "fsinit dev =
     kthen (readsb dev)
    (kbind (kget sb) (\<lambda>sblk.
       if sb_magic sblk \<noteq> FSMAGIC then kpanic ''invalid file system''
       else kthen (initlog dev (sb_logstart sblk)) (ireclaim dev)))"

record stat =
  st_dev :: u32
  st_ino :: u32
  st_type :: u16
  st_nlink :: u16
  st_size :: u64

definition stati :: "nat \<Rightarrow> (stat, 'z fsst_scheme) km" where
  "stati ip = get_i ip (\<lambda>x. \<lparr>st_dev = i_dev x, st_ino = i_inum x, st_type = d_type (i_din x),
     st_nlink = d_nlink (i_din x), st_size = ucast (d_size (i_din x))\<rparr>)"

text \<open>
  Where \<open>readi\<close> copies to and \<open>writei\<close> copies from: a user address, or a kernel buffer. The bytes for a
  kernel buffer are the second component of the result of \<open>readi\<close>.
\<close>

datatype rdst = UserDst u64 | KernelDst
datatype wsrc = UserSrc u64 | KernelSrc "u8 list"

fun dst_plus :: "rdst \<Rightarrow> u32 \<Rightarrow> rdst" where
  "dst_plus (UserDst va) m = UserDst (va + ucast m)"
| "dst_plus KernelDst m = KernelDst"

fun src_plus :: "wsrc \<Rightarrow> u32 \<Rightarrow> wsrc" where
  "src_plus (UserSrc va) m = UserSrc (va + ucast m)"
| "src_plus (KernelSrc bs) m = KernelSrc (drop (unat m) bs)"

fun copy_to :: "rdst \<Rightarrow> u8 list \<Rightarrow> (int \<times> u8 list, 'z procst_scheme) km" where
  "copy_to (UserDst va) bs = kbind (either_copyout True va bs) (\<lambda>r. kret (r, []))"
| "copy_to KernelDst bs = kbind myproc (\<lambda>_. kret (0, bs))"

fun copy_from :: "wsrc \<Rightarrow> u32 \<Rightarrow> (int \<times> u8 list, 'z procst_scheme) km" where
  "copy_from (UserSrc va) m = either_copyin True va (ucast m)"
| "copy_from (KernelSrc bs) m = kbind myproc (\<lambda>_. kret (0, take (unat m) bs))"

text \<open>The bytes that one round of \<open>readi\<close> or \<open>writei\<close> handles.\<close>

definition chunk :: "u32 \<Rightarrow> u32 \<Rightarrow> u32" where
  "chunk left off = min left (of_nat BSIZE - off mod of_nat BSIZE)"

definition readi_body ::
    "nat \<Rightarrow> u32 \<Rightarrow> u32 \<times> u32 \<times> rdst \<times> u8 list \<Rightarrow>
     ((u32 \<times> u32 \<times> rdst \<times> u8 list) + (int \<times> u8 list), 'z fsst_scheme) km" where
  "readi_body ip n = (\<lambda>(tot, off, dst, acc).
     if n \<le> tot then kret (Inr (sint tot, acc))
     else
       kbind (bmap ip (off div of_nat BSIZE)) (\<lambda>addr.
         if addr = 0 then kret (Inr (sint tot, acc))
         else
           kbind (get_i ip i_dev) (\<lambda>dev.
           kbind (bread dev addr) (\<lambda>bp.
             let m = chunk (n - tot) off
             in kbind (get_buf bp b_data) (\<lambda>d.
                kbind (copy_to dst (take (unat m) (drop (unat (off mod of_nat BSIZE)) d))) (\<lambda>(r, bs).
                kthen (brelse bp)
                (if r = - 1 then kret (Inr (- 1, acc))
                 else kret (Inl (tot + m, off + m, dst_plus dst m, acc @ bs)))))))))"

definition readi :: "nat \<Rightarrow> rdst \<Rightarrow> u32 \<Rightarrow> u32 \<Rightarrow> (int \<times> u8 list, 'z fsst_scheme) km" where
  "readi ip dst off n0 =
     kbind (get_d ip d_size) (\<lambda>sz.
       if sz < off \<or> off + n0 < off then kret (0, [])
       else
         (let n = (if sz < off + n0 then sz - off else n0)
          in kloop (unat n + 1) (readi_body ip n) (0, off, dst, [])))"

definition writei_body ::
    "nat \<Rightarrow> u32 \<Rightarrow> u32 \<times> u32 \<times> wsrc \<Rightarrow> ((u32 \<times> u32 \<times> wsrc) + (u32 \<times> u32), 'z fsst_scheme) km" where
  "writei_body ip n = (\<lambda>(tot, off, src).
     if n \<le> tot then kret (Inr (tot, off))
     else
       kbind (bmap ip (off div of_nat BSIZE)) (\<lambda>addr.
         if addr = 0 then kret (Inr (tot, off))
         else
           kbind (get_i ip i_dev) (\<lambda>dev.
           kbind (bread dev addr) (\<lambda>bp.
             let m = chunk (n - tot) off
             in kbind (copy_from src m) (\<lambda>(r, bs).
                kthen (set_data bp (put_at (unat (off mod of_nat BSIZE)) bs))
                (if r = - 1 then kthen (brelse bp) (kret (Inr (tot, off)))
                 else
                   kthen (log_write bp)
                  (kthen (brelse bp)
                   (kret (Inl (tot + m, off + m, src_plus src m))))))))))"

definition writei :: "nat \<Rightarrow> wsrc \<Rightarrow> u32 \<Rightarrow> u32 \<Rightarrow> (int, 'z fsst_scheme) km" where
  "writei ip src off n =
     kbind (get_d ip d_size) (\<lambda>sz.
       if sz < off \<or> off + n < off then kret (- 1)
       else if of_nat (MAXFILE * BSIZE) < off + n then kret (- 1)
       else
         kbind (kloop (unat n + 1) (writei_body ip n) (0, off, src)) (\<lambda>(tot, off).
         kthen (kbind (get_d ip d_size) (\<lambda>sz.
            kwhen (sz < off) (set_d ip (\<lambda>d. d\<lparr>d_size := off\<rparr>))))
        (kthen (iupdate ip)
         (kret (sint tot)))))"

section \<open>Directories\<close>

text \<open>A name is the list of the bytes that were stored in its array; the rest is never looked at.\<close>

definition name_ptr :: "u8 list \<Rightarrow> cptr" where
  "name_ptr bs i = (if i < length bs then bs ! i else 0)"

definition namecmp :: "u8 list \<Rightarrow> u8 list \<Rightarrow> int" where
  "namecmp s t = strncmp (name_ptr s) (name_ptr t) DIRSIZ"

definition dirlookup_body ::
    "nat \<Rightarrow> u8 list \<Rightarrow> u32 \<Rightarrow> (u32 + (nat \<times> u32) option, 'z fsst_scheme) km" where
  "dirlookup_body dp name off =
     kbind (get_d dp d_size) (\<lambda>sz.
       if sz \<le> off then kret (Inr None)
       else
         kbind (readi dp KernelDst off 16) (\<lambda>(r, de).
           if r \<noteq> 16 then kpanic ''dirlookup read''
           else if get16 0 de = 0 then kret (Inl (off + 16))
           else if namecmp name (drop 2 de) = 0 then
             kbind (get_i dp i_dev) (\<lambda>dev.
             kbind (iget dev (ucast (get16 0 de))) (\<lambda>ip.
             kret (Inr (Some (ip, off)))))
           else kret (Inl (off + 16))))"

definition dirlookup :: "nat \<Rightarrow> u8 list \<Rightarrow> ((nat \<times> u32) option, 'z fsst_scheme) km" where
  "dirlookup dp name =
     kbind (get_d dp (\<lambda>d. d)) (\<lambda>d.
       if d_type d \<noteq> T_DIR then kpanic ''dirlookup not DIR''
       else kloop (unat (d_size d) div 16 + 2) (dirlookup_body dp name) 0)"

definition dirlink_body :: "nat \<Rightarrow> u32 \<Rightarrow> (u32 + u32, 'z fsst_scheme) km" where
  "dirlink_body dp off =
     kbind (get_d dp d_size) (\<lambda>sz.
       if sz \<le> off then kret (Inr off)
       else
         kbind (readi dp KernelDst off 16) (\<lambda>(r, de).
           if r \<noteq> 16 then kpanic ''dirlink read''
           else if get16 0 de = 0 then kret (Inr off)
           else kret (Inl (off + 16))))"

definition dirlink :: "nat \<Rightarrow> u8 list \<Rightarrow> u32 \<Rightarrow> (int, 'z fsst_scheme) km" where
  "dirlink dp name inum =
     kbind (dirlookup dp name) (\<lambda>r.
       case r of
         Some (ip, _) \<Rightarrow> kthen (iput ip) (kret (- 1))
       | None \<Rightarrow>
           kbind (get_d dp d_size) (\<lambda>sz.
           kbind (kloop (unat sz div 16 + 2) (dirlink_body dp) 0) (\<lambda>off.
           kbind (writei dp (KernelSrc (enc_dirent (ucast inum) (strncpy (name_ptr name) DIRSIZ))) off 16)
             (\<lambda>r. kret (if r \<noteq> 16 then - 1 else 0)))))"

section \<open>Paths\<close>

abbreviation (input) slash :: u8 where "slash \<equiv> 0x2f"

text \<open>A path is the list of its bytes before the terminating null byte.\<close>

definition skipelem :: "u8 list \<Rightarrow> (u8 list \<times> u8 list) option" where
  "skipelem path0 =
     (let path = dropWhile (\<lambda>c. c = slash) path0
      in if path = [] then None
         else
           (let s = takeWhile (\<lambda>c. c \<noteq> slash) path;
                name = (if DIRSIZ \<le> length s then take DIRSIZ s else s @ [0])
            in Some (dropWhile (\<lambda>c. c = slash) (dropWhile (\<lambda>c. c \<noteq> slash) path), name)))"

definition namex_body ::
    "bool \<Rightarrow> nat \<times> u8 list \<times> u8 list \<Rightarrow>
     ((nat \<times> u8 list \<times> u8 list) + (nat \<times> u8 list) option, 'z fsst_scheme) km" where
  "namex_body parent = (\<lambda>(ip, path, name).
     case skipelem path of
       None \<Rightarrow>
         if parent then kthen (iput ip) (kret (Inr None)) else kret (Inr (Some (ip, name)))
     | Some (path, name) \<Rightarrow>
         kthen (ilock ip)
        (kbind (get_d ip d_type) (\<lambda>ty.
           if ty \<noteq> T_DIR then kthen (iunlockput ip) (kret (Inr None))
           else if parent \<and> path = [] then kthen (iunlock ip) (kret (Inr (Some (ip, name))))
           else
             kbind (dirlookup ip name) (\<lambda>r.
               case r of
                 None \<Rightarrow> kthen (iunlockput ip) (kret (Inr None))
               | Some (next, _) \<Rightarrow> kthen (iunlockput ip) (kret (Inl (next, path, name)))))))"

definition namex :: "u8 list \<Rightarrow> bool \<Rightarrow> ((nat \<times> u8 list) option, 'z fsst_scheme) km" where
  "namex path parent =
     kbind (if path \<noteq> [] \<and> hd path = slash then iget ROOTDEV ROOTINO
            else
              kbind cur (\<lambda>p.
              kbind (get_proc p p_cwd) (\<lambda>c.
                case c of None \<Rightarrow> kpanic ''kerneltrap'' | Some ip \<Rightarrow> idup ip)))
       (\<lambda>ip. kloop (length path + 1) (namex_body parent) (ip, path, []))"

definition namei :: "u8 list \<Rightarrow> (nat option, 'z fsst_scheme) km" where
  "namei path = kbind (namex path False) (\<lambda>r. kret (map_option fst r))"

definition nameiparent :: "u8 list \<Rightarrow> ((nat \<times> u8 list) option, 'z fsst_scheme) km" where
  "nameiparent path = namex path True"

section \<open>Bytes in a block\<close>

lemma length_concat_le_split: "length (concat (map (le_split n) xs)) = n * length xs"
  by (induction xs) simp_all

lemma slice_concat:
  "i < length xs \<Longrightarrow> take n (drop (n * i) (concat (map (le_split n) xs))) = le_split n (xs ! i)"
proof (induction xs arbitrary: i)
  case (Cons x xs)
  then show ?case by (cases i) simp_all
qed simp

lemma length_enc_dinode: "length (d_addrs d) = NDIRECT + 1 \<Longrightarrow> length (enc_dinode d) = 64"
  by (simp add: enc_dinode_def length_concat_le_split)

lemma enc_slices:
  "take 2 (drop 0 (enc_dinode d)) = le_split 2 (d_type d)"
  "take 2 (drop 2 (enc_dinode d)) = le_split 2 (d_major d)"
  "take 2 (drop 4 (enc_dinode d)) = le_split 2 (d_minor d)"
  "take 2 (drop 6 (enc_dinode d)) = le_split 2 (d_nlink d)"
  "take 4 (drop 8 (enc_dinode d)) = le_split 4 (d_size d)"
  "i < length (d_addrs d) \<Longrightarrow> take 4 (drop (12 + 4 * i) (enc_dinode d)) = le_split 4 (d_addrs d ! i)"
  by (simp_all add: enc_dinode_def slice_concat)

lemma dec_enc_dinode:
  assumes "length (d_addrs d) = NDIRECT + 1" and "off + 64 \<le> length bs"
  shows "dec_dinode off (put_at off (enc_dinode d) bs) = d"
proof -
  note len = length_enc_dinode [OF assms(1)]
  have s: "take n (drop (off + k) (put_at off (enc_dinode d) bs)) = take n (drop k (enc_dinode d))"
    if "k + n \<le> 64" for k n
    using assms(2) len that by (intro slice_put_in) simp_all
  have a: "map (\<lambda>i. get32 (off + 12 + 4 * i) (put_at off (enc_dinode d) bs)) [0..<NDIRECT + 1] = d_addrs d"
  proof (rule nth_equalityI)
    fix i assume "i < length (map (\<lambda>i. get32 (off + 12 + 4 * i) (put_at off (enc_dinode d) bs)) [0..<NDIRECT + 1])"
    then have i: "i < 13" by simp
    then have "map (\<lambda>i. get32 (off + 12 + 4 * i) (put_at off (enc_dinode d) bs)) [0..<NDIRECT + 1] ! i =
        get32 (off + (12 + 4 * i)) (put_at off (enc_dinode d) bs)"
      by (simp add: nth_append add.assoc del: upt_rec_numeral)
    also have "\<dots> = d_addrs d ! i"
      using s [of "12 + 4 * i" 4] enc_slices(6) [of i d] i assms(1) by (simp add: get32_def le_join_split)
    finally show "map (\<lambda>i. get32 (off + 12 + 4 * i) (put_at off (enc_dinode d) bs)) [0..<NDIRECT + 1] ! i =
        d_addrs d ! i" .
  qed (simp add: assms)
  show ?thesis
    using s [of 0 2] s [of 2 2] s [of 4 2] s [of 6 2] s [of 8 4] a
    by (simp add: dec_dinode_def get16_def get32_def enc_slices [simplified] le_join_split
        del: upt_rec_numeral upt_Suc)
qed

lemma dec_dinode_other:
  assumes "off + length new \<le> length bs" and "a + 64 \<le> off \<or> off + length new \<le> a"
  shows "dec_dinode a (put_at off new bs) = dec_dinode a bs"
proof -
  have s: "take n (drop (a + k) (put_at off new bs)) = take n (drop (a + k) bs)" if "k + n \<le> 64" for k n
    using assms that by (intro slice_put_out) auto
  have "get32 (a + 12 + 4 * i) (put_at off new bs) = get32 (a + 12 + 4 * i) bs" if "i < 13" for i
    using s [of "12 + 4 * i" 4] that by (simp add: get32_def add.assoc)
  then show ?thesis
    using s [of 0 2] s [of 2 2] s [of 4 2] s [of 6 2] s [of 8 4]
    by (simp add: dec_dinode_def get16_def get32_def del: upt_rec_numeral upt_Suc)
qed



section \<open>The block bitmap\<close>

definition used :: "u8 list \<Rightarrow> nat \<Rightarrow> bool" where
  "used d c \<longleftrightarrow> bit (d ! (c div 8)) (c mod 8)"

lemma used_iff: "d ! (c div 8) AND bit_of c = 0 \<longleftrightarrow> \<not> used d c"
  by (simp add: used_def bit_of_def bit_iff_and_push_bit_not_eq_0)

lemma bit_bit_of: "bit (bit_of c) k \<longleftrightarrow> k = c mod 8"
proof -
  have "c mod 8 < 8" by simp
  then show ?thesis by (auto simp: bit_of_def push_bit_of_1 bit_exp_iff)
qed

lemma used_set:
  assumes "c div 8 < length d" and "e div 8 < length d"
  shows "used (d[c div 8 := d ! (c div 8) OR bit_of c]) e \<longleftrightarrow> used d e \<or> e = c"
proof -
  have "e = c \<longleftrightarrow> e div 8 = c div 8 \<and> e mod 8 = c mod 8"
    using div_mult_mod_eq [of e 8] div_mult_mod_eq [of c 8] by metis
  then show ?thesis
    using assms by (cases "e div 8 = c div 8") (auto simp: used_def bit_or_iff bit_bit_of)
qed

lemma clear_set:
  assumes "c div 8 < length d" and "\<not> used d c"
  shows "(d ! (c div 8) OR bit_of c) AND NOT (bit_of c) = d ! (c div 8)"
  using assms by (auto intro!: bit_eqI simp: bit_simps bit_bit_of used_def)



section \<open>The inode table holds an inode once\<close>

definition i_key :: "u32 \<Rightarrow> u32 \<Rightarrow> inode \<Rightarrow> bool" where
  "i_key dev inum x \<longleftrightarrow> 0 < i_ref x \<and> i_dev x = dev \<and> i_inum x = inum"

text \<open>
  C36: The single pass of \<open>iget\<close> over the table is equivalent to two searches: the first entry in use
  for the inode, and, when there is none, the first free entry.
\<close>

theorem iget_scan_equiv:
  "iget_scan tbl dev inum ips None =
     (case find (\<lambda>ip. i_key dev inum (tbl ip)) ips of
        Some ip \<Rightarrow> Inr ip
      | None \<Rightarrow> Inl (find (\<lambda>ip. i_ref (tbl ip) = 0) ips))"
proof -
  have "iget_scan tbl dev inum ips sp =
     (case find (\<lambda>ip. i_key dev inum (tbl ip)) ips of
        Some ip \<Rightarrow> Inr ip
      | None \<Rightarrow> Inl (if sp = None then find (\<lambda>ip. i_ref (tbl ip) = 0) ips else sp))" for sp
    by (induction ips arbitrary: sp) (auto simp: i_key_def split: option.splits)
  then show ?thesis by (simp cong: option.case_cong)
qed

lemma iget_scan_cases:
  "iget_scan tbl dev inum ips sp = Inr ip \<Longrightarrow> ip \<in> set ips \<and> i_key dev inum (tbl ip)"
  "iget_scan tbl dev inum ips sp = Inl r \<Longrightarrow> (\<forall>ip \<in> set ips. \<not> i_key dev inum (tbl ip)) \<and>
     (\<forall>ip. r = Some ip \<longrightarrow> sp = Some ip \<or> ip \<in> set ips \<and> i_ref (tbl ip) = 0)"
  by (induction ips arbitrary: sp) (auto simp: i_key_def split: if_splits)

text \<open>No two table entries in use hold the same inode.\<close>

definition i_unique :: "(nat \<Rightarrow> inode) \<Rightarrow> bool" where
  "i_unique tbl \<longleftrightarrow> (\<forall>i < NINODE. \<forall>j < NINODE. 0 < i_ref (tbl i) \<longrightarrow>
     i_key (i_dev (tbl i)) (i_inum (tbl i)) (tbl j) \<longrightarrow> i = j)"


definition small_inode :: inode where
  "small_inode = \<lparr>i_dev = 0, i_inum = 0, i_ref = 0, i_valid = False,
     i_din = \<lparr>d_type = 0, d_major = 0, d_minor = 0, d_nlink = 0, d_size = 0, d_addrs = replicate 13 0\<rparr>\<rparr>"

definition small_fsst :: fsst where
  "small_fsst = (let s = small_logst in
     \<lparr>lks = lks s, mem = mem s, freelist = freelist s, k_end = k_end s, procs = procs s,
       nextpid = nextpid s, initproc = initproc s, ticks = ticks s,
       kernel_pagetable = kernel_pagetable s, csr = csr s, ksym = ksym s,
       fork_first = fork_first s, timer = timer s, rounds = rounds s, slocks = slocks s,
       rdisk = rdisk s, rdisk_size = rdisk_size s, disk_writes = disk_writes s, bufs = bufs s,
       klog = klog s,
       sb = \<lparr>sb_magic = FSMAGIC, sb_size = 2000, sb_nblocks = 1953, sb_ninodes = 200, sb_nlog = 31,
         sb_logstart = 2, sb_inodestart = 33, sb_bmapstart = 46\<rparr>,
       itable = (\<lambda>_. small_inode), junk = (\<lambda>_. 0)\<rparr>)"

lemma small_fsst_sel [simp]:
  "lks small_fsst = busy_lkst" "slocks small_fsst = (\<lambda>_. free_sl)" "rounds small_fsst = 10"
  "procs small_fsst = (\<lambda>p. zero_proc\<lparr>p_pid := int p + 1\<rparr>)" "bufs small_fsst = small_bufs"
  "klog small_fsst = small_wal" "itable small_fsst = (\<lambda>_. small_inode)"
  by (simp_all add: small_fsst_def)

lemma iget_scan_free:
  "(\<And>ip. i_ref (tbl ip) = 0) \<Longrightarrow> iget_scan tbl dev inum ips (Some x) = Inl (Some x)"
  by (induction ips) auto


section \<open>Path names\<close>

text \<open>The components of a path: the non-empty pieces between slashes.\<close>

fun pieces :: "u8 list \<Rightarrow> u8 list list" where
  "pieces [] = [[]]"
| "pieces (c # cs) =
     (if c = slash then [] # pieces cs
      else (case pieces cs of w # ws \<Rightarrow> (c # w) # ws | [] \<Rightarrow> [[c]]))"

definition components :: "u8 list \<Rightarrow> u8 list list" where
  "components path = filter (\<lambda>w. w \<noteq> []) (pieces path)"

lemma pieces_unfold:
  "pieces p = takeWhile (\<lambda>c. c \<noteq> slash) p #
     (case dropWhile (\<lambda>c. c \<noteq> slash) p of [] \<Rightarrow> [] | _ # q \<Rightarrow> pieces q)"
  by (induction p) auto

lemma components_slash: "components (dropWhile (\<lambda>c. c = slash) p) = components p"
  by (induction p) (auto simp: components_def)

lemma components_nil: "components p = [] \<longleftrightarrow> dropWhile (\<lambda>c. c = slash) p = []"
proof (induction p)
  case (Cons c p)
  show ?case
  proof (cases "c = slash")
    case True
    then show ?thesis using Cons by (simp add: components_def)
  next
    case False
    then show ?thesis using pieces_unfold [of "c # p"] by (simp add: components_def del: pieces.simps)
  qed
qed (simp add: components_def)

text \<open>
  C37: \<open>skipelem\<close> takes a path apart at its slashes. It fails exactly when the path has no component
  left; otherwise it yields the first component, cut off after 14 bytes, and a shorter rest
  whose components are the remaining ones and which is empty exactly when there are none.
\<close>

theorem skipelem_components:
  "case components p of
     [] \<Rightarrow> skipelem p = None
   | w # ws \<Rightarrow> \<exists>rest. skipelem p = Some (rest, if DIRSIZ \<le> length w then take DIRSIZ w else w @ [0]) \<and>
       components rest = ws \<and> (rest = [] \<longleftrightarrow> ws = []) \<and> length rest < length p"
proof (cases "dropWhile (\<lambda>c. c = slash) p")
  case Nil
  then have "components p = []" by (simp add: components_nil)
  then show ?thesis using Nil by (simp add: skipelem_def)
next
  case (Cons c q)
  let ?p = "c # q" and ?ns = "\<lambda>c. c \<noteq> slash"
  have c: "c \<noteq> slash" using Cons by (metis (mono_tags, lifting) dropWhile_eq_Cons_conv)
  let ?w = "takeWhile ?ns ?p" and ?rest = "dropWhile (\<lambda>c. c = slash) (dropWhile ?ns ?p)"
  have "components p = components ?p" using components_slash [of p] Cons by simp
  also have "\<dots> = ?w # components (dropWhile ?ns ?p)"
  proof (cases "dropWhile ?ns ?p")
    case Nil
    then show ?thesis
      using c pieces_unfold [of ?p] by (simp add: components_def del: pieces.simps(2) dropWhile_eq_Nil_conv)
  next
    case (Cons d r)
    then have "d = slash" by (metis (mono_tags, lifting) dropWhile_eq_Cons_conv)
    then have "components (d # r) = filter (\<lambda>w. w \<noteq> []) (pieces r)" by (simp add: components_def)
    then show ?thesis
      using c Cons pieces_unfold [of ?p] by (simp add: components_def del: pieces.simps)
  qed
  also have "components (dropWhile ?ns ?p) = components ?rest" by (simp add: components_slash)
  finally have comps: "components p = ?w # components ?rest" .
  have "length ?rest \<le> length (dropWhile ?ns ?p)" by (rule length_dropWhile_le)
  also have "\<dots> \<le> length q" using c length_dropWhile_le [of ?ns q] by simp
  also have "\<dots> < length p" using Cons length_dropWhile_le [of "\<lambda>c. c = slash" p] by simp
  finally have "length ?rest < length p" .
  moreover have "?rest = [] \<longleftrightarrow> components ?rest = []" by (simp add: components_slash components_nil)
  moreover have "skipelem p = Some (?rest, if DIRSIZ \<le> length ?w then take DIRSIZ ?w else ?w @ [0])"
    using Cons by (simp add: skipelem_def Let_def)
  ultimately show ?thesis unfolding comps by (simp only: list.case) blast
qed

end
