(* ===== verification/Console.thy ===== *)
theory Console
  imports Fs
begin

text \<open>
  The UART driver, the console and the kernel's formatted output, \<open>kernel/uart.c\<close>,
  with \<open>procdump\<close> of \<open>kernel/proc.c\<close>. The theory shows that the input buffer never
  overflows, that a finished line is read back as it was typed, and that numbers
  print as their digits within the buffer of \<open>printint\<close>.
\<close>

section \<open>State\<close>

text \<open>
  The device is outside the program. \<open>u_writes\<close> lists the register writes in order, \<open>u_in\<close>
  holds the bytes received and not read yet, \<open>u_idle k\<close> says whether the
  transmitter is idle at the \<open>k\<close>-th read of the line status, and \<open>u_polls\<close> counts
  those reads. The values of the registers \<open>ISR\<close> and \<open>USR\<close> are not used by the driver.
\<close>

record uartst =
  u_writes :: "(nat \<times> u32) list"
  u_in :: "u8 list"
  u_polls :: nat
  u_idle :: "nat \<Rightarrow> bool"
  tx_busy :: bool

abbreviation (input) INPUT_BUF_SIZE :: u32 where "INPUT_BUF_SIZE \<equiv> 128"

record consbuf =
  cons_buf :: "nat \<Rightarrow> u8"
  cons_r :: u32
  cons_w :: u32
  cons_e :: u32

text \<open>
  The only functions ever stored in \<open>devsw\<close> are \<open>consoleread\<close> and \<open>consolewrite\<close>; a table entry says
  whether they are.
\<close>

record consst = fsst +
  uart :: uartst
  cons :: consbuf
  panicking :: bool
  panicked :: bool
  devsw_read :: "nat \<Rightarrow> bool"
  devsw_write :: "nat \<Rightarrow> bool"

definition set_uart :: "(uartst \<Rightarrow> uartst) \<Rightarrow> (unit, 'z consst_scheme) km" where
  "set_uart f = kmod (\<lambda>s. s\<lparr>uart := f (uart s)\<rparr>)"

definition get_uart :: "(uartst \<Rightarrow> 'a) \<Rightarrow> ('a, 'z consst_scheme) km" where
  "get_uart f = kget (\<lambda>s. f (uart s))"

definition set_cons :: "(consbuf \<Rightarrow> consbuf) \<Rightarrow> (unit, 'z consst_scheme) km" where
  "set_cons f = kmod (\<lambda>s. s\<lparr>cons := f (cons s)\<rparr>)"

definition get_cons :: "(consbuf \<Rightarrow> 'a) \<Rightarrow> ('a, 'z consst_scheme) km" where
  "get_cons f = kget (\<lambda>s. f (cons s))"

declare set_uart_def [simp] get_uart_def [simp] set_cons_def [simp] get_cons_def [simp]

section \<open>The UART\<close>

abbreviation (input) THR :: nat where "THR \<equiv> 0"
abbreviation (input) IER :: nat where "IER \<equiv> 1"
abbreviation (input) FCR :: nat where "FCR \<equiv> 2"
abbreviation (input) LCR :: nat where "LCR \<equiv> 3"
abbreviation (input) MCR :: nat where "MCR \<equiv> 4"
abbreviation (input) LSR_RX_READY :: u32 where "LSR_RX_READY \<equiv> 1"
abbreviation (input) LSR_TX_IDLE :: u32 where "LSR_TX_IDLE \<equiv> 0x20"

definition WriteReg :: "nat \<Rightarrow> u32 \<Rightarrow> (unit, 'z consst_scheme) km" where
  "WriteReg r v = set_uart (\<lambda>u. u\<lparr>u_writes := u_writes u @ [(r, v)]\<rparr>)"

text \<open>\<open>ReadReg(LSR)\<close>.\<close>

definition read_lsr :: "(u32, 'z consst_scheme) km" where
  "read_lsr =
     kbind (get_uart (\<lambda>u. (if u_in u \<noteq> [] then LSR_RX_READY else 0) OR
                         (if u_idle u (u_polls u) then LSR_TX_IDLE else 0))) (\<lambda>v.
     kthen (set_uart (\<lambda>u. u\<lparr>u_polls := u_polls u + 1\<rparr>))
     (kret v))"

definition uartinit :: "(unit, 'z consst_scheme) km" where
  "uartinit =
     kthen (on_lks (initlock LUart ''uart''))
    (kthen (WriteReg IER 0)
    (kthen (WriteReg LCR 3)
    (kthen (WriteReg FCR 7)
    (kthen (WriteReg MCR 0x0b)
     (WriteReg IER 3)))))"

definition tx_wait :: "(unit, 'z consst_scheme) km" where
  "tx_wait = (\<lambda>s. kloop (rounds s) (\<lambda>_.
     kbind read_lsr (\<lambda>v. if v AND LSR_TX_IDLE = 0 then kret (Inl ()) else kret (Inr ()))) () s)"

definition uartputc_sync :: "u32 \<Rightarrow> (unit, 'z consst_scheme) km" where
  "uartputc_sync c =
     kbind (kget panicking) (\<lambda>pn.
     kthen (kwhen (\<not> pn) (on_lks push_off))
    (kbind (kget panicked) (\<lambda>pd.
       if pd then (\<lambda>s. Spin)
       else
         kthen (kwhen (c = 10) (kthen tx_wait (WriteReg THR 13)))
        (kthen tx_wait
        (kthen (WriteReg THR c)
        (kbind (kget panicking) (\<lambda>pn.
         kwhen (\<not> pn) (klift lks (\<lambda>l s. s\<lparr>lks := l\<rparr>) pop_off))))))))"

text \<open>The loop of \<open>uartwrite\<close> that waits for the end of the last transmission.\<close>

definition tx_sleep :: "(unit, 'z consst_scheme) km" where
  "tx_sleep = (\<lambda>s. kloop (rounds s) (\<lambda>_.
     kbind (get_uart tx_busy) (\<lambda>b.
       if b then kthen (sleep Cuart LUart) (kret (Inl ())) else kret (Inr ()))) () s)"

definition uartwrite_at :: "u8 \<Rightarrow> (unit, 'z consst_scheme) km" where
  "uartwrite_at c =
     kthen (kwhen (c = 10)
       (kthen tx_sleep
       (kthen (WriteReg THR 13)
        (set_uart (\<lambda>u. u\<lparr>tx_busy := True\<rparr>)))))
    (kthen tx_sleep
    (kthen (WriteReg THR (ucast c))
     (set_uart (\<lambda>u. u\<lparr>tx_busy := True\<rparr>))))"

definition uartwrite :: "u8 list \<Rightarrow> (unit, 'z consst_scheme) km" where
  "uartwrite buf =
     kthen (acquire LUart)
    (kthen (kfor buf uartwrite_at)
     (release LUart))"

definition uartgetc :: "(int, 'z consst_scheme) km" where
  "uartgetc =
     kbind read_lsr (\<lambda>v.
       if v AND LSR_RX_READY \<noteq> 0 then
         kbind (get_uart u_in) (\<lambda>inp.
         kthen (set_uart (\<lambda>u. u\<lparr>u_in := tl inp\<rparr>))
         (kret (uint (hd inp))))
       else kret (- 1))"

section \<open>Formatted output\<close>

definition puts :: "u8 list \<Rightarrow> (unit, 'z consst_scheme) km" where
  "puts cs = kfor cs (\<lambda>c. uartputc_sync (ucast c))"

text \<open>\<open>digits[d]\<close> for a digit below 16.\<close>

definition digit :: "nat \<Rightarrow> u8" where
  "digit d = (if d < 10 then of_nat (48 + d) else of_nat (87 + d))"

function digits_rev :: "nat \<Rightarrow> nat \<Rightarrow> u8 list" where
  "digits_rev base x =
     digit (x mod base) # (if base < 2 \<or> x div base = 0 then [] else digits_rev base (x div base))"
  by pat_completeness auto
termination
proof (relation "measure snd")
  show "((base, x div base), base, x) \<in> measure snd" if "\<not> (base < 2 \<or> x div base = 0)" for base x :: nat
    using that div_less_dividend [of base x] by (cases "x = 0") auto
qed simp

declare digits_rev.simps [simp del]

text \<open>What \<open>printint\<close> has in \<open>buf\<close> before it prints the buffer backwards.\<close>

definition printint_buf :: "u64 \<Rightarrow> nat \<Rightarrow> bool \<Rightarrow> u8 list" where
  "printint_buf xx base sign =
     (let neg = sign \<and> sint xx < 0;
          x = (if neg then unat (- xx) else unat xx)
      in digits_rev base x @ (if neg then [45] else []))"

definition printint :: "u64 \<Rightarrow> nat \<Rightarrow> bool \<Rightarrow> (unit, 'z consst_scheme) km" where
  "printint xx base sign =
     (let buf = printint_buf xx base sign
      in if 20 < length buf then undefined_behaviour else puts (rev buf))"

definition printptr :: "u64 \<Rightarrow> (unit, 'z consst_scheme) km" where
  "printptr x =
     kthen (puts [48, 0x78])
     (puts (map (\<lambda>i. digit (unat (drop_bit 60 (push_bit (4 * i) x)))) [0..<16]))"

text \<open>
  The variable arguments are 64-bit slots, or strings where a format asks for one (\<open>None\<close> for the
  null pointer). Taking an argument that is not there, or not of the right kind, and
  running past the end of the format, which a single \<open>%\<close> at its end does, are not defined.
\<close>

datatype parg = Num u64 | Str "u8 list option"

fun printf_loop :: "u8 list \<Rightarrow> parg list \<Rightarrow> (unit, 'z consst_scheme) km" where
  "printf_loop [] args = kret ()"
| "printf_loop (cx # fmt) args =
     (if cx \<noteq> 37 then kthen (puts [cx]) (printf_loop fmt args)
      else
        (case fmt of
           [] \<Rightarrow> kthen (puts [37, 0]) undefined_behaviour
         | c0 # rest \<Rightarrow>
             if c0 = 0x64 then
               (case args of
                  Num v # as \<Rightarrow> kthen (printint (scast (ucast v :: u32)) 10 True) (printf_loop rest as)
                | _ \<Rightarrow> undefined_behaviour)
             else if c0 = 0x6c \<and> rest \<noteq> [] \<and> hd rest = 0x64 then
               (case args of
                  Num v # as \<Rightarrow> kthen (printint v 10 True) (printf_loop (tl rest) as)
                | _ \<Rightarrow> undefined_behaviour)
             else if c0 = 0x78 then
               (case args of
                  Num v # as \<Rightarrow> kthen (printint (scast (ucast v :: u32)) 16 False) (printf_loop rest as)
                | _ \<Rightarrow> undefined_behaviour)
             else if c0 = 0x70 then
               (case args of
                  Num v # as \<Rightarrow> kthen (printptr v) (printf_loop rest as)
                | _ \<Rightarrow> undefined_behaviour)
             else if c0 = 0x73 then
               (case args of
                  Str None # as \<Rightarrow> kthen (puts [0x28, 0x6e, 0x75, 0x6c, 0x6c, 0x29]) (printf_loop rest as)
                | Str (Some cs) # as \<Rightarrow> kthen (puts cs) (printf_loop rest as)
                | _ \<Rightarrow> undefined_behaviour)
             else if c0 = 37 then kthen (puts [37]) (printf_loop rest args)
             else kthen (puts [37, c0]) (printf_loop rest args)))"

definition printf :: "u8 list \<Rightarrow> parg list \<Rightarrow> (unit, 'z consst_scheme) km" where
  "printf fmt args =
     kbind (kget panicking) (\<lambda>pn.
     kthen (kwhen (\<not> pn) (acquire LPr))
    (kthen (printf_loop fmt args)
    (kbind (kget panicking) (\<lambda>pn.
     kwhen (\<not> pn) (release LPr)))))"

definition bytes_of :: "string \<Rightarrow> u8 list" where
  "bytes_of cs = map (\<lambda>c. of_nat (of_char c)) cs"

text \<open>\<open>panic\<close> itself, up to the endless loop at its end.\<close>

definition panic :: "string \<Rightarrow> ('a, 'z consst_scheme) km" where
  "panic msg =
     kthen (on_lks intr_off)
    (kthen (kmod (\<lambda>s. s\<lparr>panicking := True\<rparr>))
    (kthen (printf [10] [])
    (kthen (printf (bytes_of ''panic: '') [])
    (kthen (printf (bytes_of ''%s'' @ [10]) [Str (Some (bytes_of msg))])
    (kthen (printf (bytes_of ''Rebooting K230...'' @ [10]) [])
    (kthen (kmod (\<lambda>s. s\<lparr>panicked := True\<rparr>))
     (\<lambda>s. Spin)))))))"

definition printfinit :: "(unit, 'z memst_scheme) km" where
  "printfinit = on_lks (initlock LPr ''pr'')"

fun state_name :: "procstate \<Rightarrow> u8 list" where
  "state_name UNUSED = bytes_of ''unused''"
| "state_name USED = bytes_of ''used''"
| "state_name SLEEPING = bytes_of ''sleep ''"
| "state_name RUNNABLE = bytes_of ''runble''"
| "state_name RUNNING = bytes_of ''run   ''"
| "state_name ZOMBIE = bytes_of ''zombie''"

definition procdump :: "(unit, 'z consst_scheme) km" where
  "procdump =
     kthen (printf [10] [])
     (kfor [0..<NPROC] (\<lambda>p.
       kbind (get_proc p (\<lambda>q. q)) (\<lambda>q.
       kwhen (p_state q \<noteq> UNUSED)
         (kthen (printf (bytes_of ''%d %s %s'')
            [Num (of_int (p_pid q)), Str (Some (state_name (p_state q))),
             Str (Some (takeWhile (\<lambda>c. c \<noteq> 0) (p_name q)))])
          (printf [10] [])))))"

section \<open>The console\<close>

definition consputc :: "int \<Rightarrow> (unit, 'z consst_scheme) km" where
  "consputc c =
     (if c = 0x100 then puts [8, 32, 8] else uartputc_sync (of_int c))"

definition consoleread_wait :: "(bool, 'z consst_scheme) km" where
  "consoleread_wait = (\<lambda>s. kloop (rounds s) (\<lambda>_.
     kbind (get_cons (\<lambda>c. cons_r c = cons_w c)) (\<lambda>e.
       if \<not> e then kret (Inr True)
       else
         kbind cur (\<lambda>p.
         kbind (killed p) (\<lambda>k.
           if k then kthen (release LCons) (kret (Inr False))
           else kthen (sleep Ccons LCons) (kret (Inl ())))))) () s)"

definition consoleread_body ::
    "bool \<Rightarrow> int \<Rightarrow> u64 \<times> int \<Rightarrow> ((u64 \<times> int) + int option, 'z consst_scheme) km" where
  "consoleread_body user_dst target = (\<lambda>(dst, n).
     if n \<le> 0 then kret (Inr (Some n))
     else
       kbind consoleread_wait (\<lambda>ok.
         if \<not> ok then kret (Inr None)
         else
           kbind (get_cons (\<lambda>c. cons_buf c (unat (cons_r c mod INPUT_BUF_SIZE)))) (\<lambda>c.
           kthen (set_cons (\<lambda>c. c\<lparr>cons_r := cons_r c + 1\<rparr>))
           (if c = 4 then
              kthen (kwhen (n < target) (set_cons (\<lambda>c. c\<lparr>cons_r := cons_r c - 1\<rparr>)))
              (kret (Inr (Some n)))
            else
              kbind (either_copyout user_dst dst [c]) (\<lambda>r.
                if r = - 1 then kret (Inr (Some n))
                else if c = 10 then kret (Inr (Some (n - 1)))
                else kret (Inl (dst + 1, n - 1)))))))"

definition consoleread :: "bool \<Rightarrow> u64 \<Rightarrow> int \<Rightarrow> (int, 'z consst_scheme) km" where
  "consoleread user_dst dst n =
     kthen (acquire LCons)
    (kbind (kloop (nat n + 1) (consoleread_body user_dst n) (dst, n)) (\<lambda>r.
       case r of
         None \<Rightarrow> kret (- 1)
       | Some n' \<Rightarrow> kthen (release LCons) (kret (n - n'))))"

definition consolewrite_body ::
    "bool \<Rightarrow> u64 \<Rightarrow> int \<Rightarrow> int \<Rightarrow> (int + int, 'z consst_scheme) km" where
  "consolewrite_body user_src src n i =
     (if n \<le> i then kret (Inr i)
      else
        (let nn = min 32 (n - i)
         in kbind (either_copyin user_src (src + of_int i) (of_int nn)) (\<lambda>(r, buf).
              if r = - 1 then kret (Inr i)
              else kthen (uartwrite buf) (kret (Inl (i + nn))))))"

definition consolewrite :: "bool \<Rightarrow> u64 \<Rightarrow> int \<Rightarrow> (int, 'z consst_scheme) km" where
  "consolewrite user_src src n = kloop (nat n + 1) (consolewrite_body user_src src n) 0"

text \<open>The \<open>Control-U\<close> loop of \<open>consoleintr\<close>.\<close>

definition kill_line :: "(unit, 'z consst_scheme) km" where
  "kill_line = (\<lambda>s. kloop (unat (cons_e (cons s) - cons_w (cons s)) + 1) (\<lambda>_.
     kbind (get_cons (\<lambda>c. cons_e c \<noteq> cons_w c \<and>
         cons_buf c (unat ((cons_e c - 1) mod INPUT_BUF_SIZE)) \<noteq> 10)) (\<lambda>b.
       if b then
         kthen (set_cons (\<lambda>c. c\<lparr>cons_e := cons_e c - 1\<rparr>))
        (kthen (consputc 0x100)
         (kret (Inl ())))
       else kret (Inr ()))) () s)"

definition cons_store :: "int \<Rightarrow> (unit, 'z consst_scheme) km" where
  "cons_store c0 =
     (let c = (if c0 = 13 then 10 else c0)
      in kthen (consputc c)
        (kthen (set_cons (\<lambda>x. x\<lparr>cons_buf := (cons_buf x)(unat (cons_e x mod INPUT_BUF_SIZE) := of_int c),
            cons_e := cons_e x + 1\<rparr>))
        (kbind (get_cons (\<lambda>x. c = 10 \<or> c = 4 \<or> cons_e x - cons_r x = INPUT_BUF_SIZE)) (\<lambda>b.
         kwhen b
          (kthen (set_cons (\<lambda>x. x\<lparr>cons_w := cons_e x\<rparr>))
           (wakeup (Some Ccons)))))))"

definition consoleintr :: "int \<Rightarrow> (unit, 'z consst_scheme) km" where
  "consoleintr c =
     kthen (acquire LCons)
    (kthen
      (if c = 16 then procdump
       else if c = 21 then kill_line
       else if c = 24 then kpanic ''User triggered panic!''
       else if c = 3 then
         kbind myproc (\<lambda>p. case p of
             None \<Rightarrow> kret ()
           | Some p \<Rightarrow> kbind (get_proc p p_pid) (\<lambda>pid.
               kwhen (1 < pid)
                (kthen (setkilled p) (kthen (consputc 94) (consputc 67)))))
       else if c = 8 \<or> c = 0x7f then
         kbind (get_cons (\<lambda>x. cons_e x \<noteq> cons_w x)) (\<lambda>b.
         kwhen b
           (kthen (set_cons (\<lambda>x. x\<lparr>cons_e := cons_e x - 1\<rparr>))
            (consputc 0x100)))
       else
         kbind (get_cons (\<lambda>x. cons_e x - cons_r x < INPUT_BUF_SIZE)) (\<lambda>room.
         kwhen (c \<noteq> 0 \<and> room) (cons_store c)))
     (release LCons))"

definition uartintr_body :: "unit \<Rightarrow> (unit + unit, 'z consst_scheme) km" where
  "uartintr_body = (\<lambda>_.
     kbind uartgetc (\<lambda>c.
       if c = - 1 then
         kbind read_lsr (\<lambda>v. if v AND LSR_RX_READY = 0 then kret (Inr ()) else kret (Inl ()))
       else kthen (consoleintr c) (kret (Inl ()))))"

definition uartintr :: "(unit, 'z consst_scheme) km" where
  "uartintr =
     kthen (acquire LUart)
    (kbind read_lsr (\<lambda>v.
     kbind (get_uart tx_busy) (\<lambda>b.
     kthen (kwhen (v AND LSR_TX_IDLE \<noteq> 0 \<and> b)
       (kthen (set_uart (\<lambda>u. u\<lparr>tx_busy := False\<rparr>))
        (wakeup (Some Cuart))))
    (kthen (release LUart)
     (\<lambda>s. kloop (length (u_in (uart s)) + 1) uartintr_body () s)))))"

definition consoleinit :: "(unit, 'z consst_scheme) km" where
  "consoleinit =
     kthen (on_lks (initlock LCons ''cons''))
    (kthen uartinit
    (kthen (kmod (\<lambda>s. s\<lparr>devsw_read := (devsw_read s)(1 := True)\<rparr>))
    (kthen (kmod (\<lambda>s. s\<lparr>devsw_write := (devsw_write s)(1 := True)\<rparr>))
     printfinit)))"

section \<open>Printed numbers\<close>

definition undigit :: "u8 \<Rightarrow> nat" where
  "undigit c = (if unat c < 58 then unat c - 48 else unat c - 87)"

primrec val_rev :: "nat \<Rightarrow> u8 list \<Rightarrow> nat" where
  "val_rev base [] = 0"
| "val_rev base (c # cs) = undigit c + base * val_rev base cs"

text \<open>The number that the bytes in the buffer of \<open>printint\<close> denote, least significant digit first.\<close>

definition num_of :: "nat \<Rightarrow> u8 list \<Rightarrow> int" where
  "num_of base cs =
     (if last cs = 45 then - int (val_rev base (butlast cs)) else int (val_rev base cs))"

lemma unat_small: "n < 256 \<Longrightarrow> unat (of_nat n :: u8) = n"
  by (simp add: unat_of_nat)

lemma unat_digit: "d < 16 \<Longrightarrow> unat (digit d) = (if d < 10 then 48 + d else 87 + d)"
  using unat_small [of "48 + d"] unat_small [of "87 + d"] unfolding digit_def by (simp del: of_nat_add)

lemma undigit_digit: "d < 16 \<Longrightarrow> undigit (digit d) = d"
  by (simp add: undigit_def unat_digit)

lemma digit_not_minus: "d < 16 \<Longrightarrow> digit d \<noteq> 45"
proof
  assume d: "d < 16" and "digit d = 45"
  then have "unat (digit d) = 45" by simp
  with unat_digit [OF d] show False by (simp split: if_splits)
qed

lemma val_digits:
  "2 \<le> base \<Longrightarrow> base \<le> 16 \<Longrightarrow> val_rev base (digits_rev base x) = x"
proof (induction base x rule: digits_rev.induct)
  case (1 base x)
  then have "x mod base < 16" using mod_less_divisor [of base x] by linarith
  moreover have "x div base = 0 \<Longrightarrow> x mod base = x" using 1 by (simp add: div_eq_0_iff)
  ultimately show ?case
    using 1 by (subst digits_rev.simps) (auto simp: undigit_digit)
qed

lemma digits_plain:
  "2 \<le> base \<Longrightarrow> base \<le> 16 \<Longrightarrow> 45 \<notin> set (digits_rev base x)"
proof (induction base x rule: digits_rev.induct)
  case (1 base x)
  then have "x mod base < 16" using mod_less_divisor [of base x] by linarith
  with 1 digit_not_minus [of "x mod base"] show ?case
    by (subst digits_rev.simps) auto
qed

lemma digits_length:
  "2 \<le> base \<Longrightarrow> 0 < k \<Longrightarrow> x < base ^ k \<Longrightarrow> length (digits_rev base x) \<le> k"
proof (induction k arbitrary: x)
  case (Suc k)
  show ?case
  proof (cases "x div base = 0")
    case True
    then show ?thesis by (subst digits_rev.simps) simp
  next
    case False
    have "x div base < base ^ k" using Suc.prems by (simp add: less_mult_imp_div_less mult.commute)
    moreover have "0 < k" using calculation False by (cases k) auto
    ultimately have "length (digits_rev base (x div base)) \<le> k" using Suc by simp
    then show ?thesis by (subst digits_rev.simps) simp
  qed
qed simp

lemma digits_nonempty: "digits_rev base x \<noteq> []"
  by (subst digits_rev.simps) simp

lemma sint_neg_unat: "sint (x :: u64) < 0 \<Longrightarrow> - int (unat (- x)) = sint x \<and> unat (- x) \<le> 2 ^ 63"
proof -
  assume n: "sint x < 0"
  have "- (2 ^ 63) \<le> sint x" using sint_ge [of x] by simp
  moreover have "- x = word_of_int (- sint x)" by simp
  then have "uint (- x) = - sint x mod 2 ^ 64" by (simp only: uint_word_of_int take_bit_eq_mod) simp
  ultimately have "uint (- x) = - sint x" using n by (simp add: mod_pos_pos_trivial)
  moreover have "int (unat (- x)) = uint (- x)" by simp
  ultimately have i: "- int (unat (- x)) = sint x" by simp
  with \<open>- (2 ^ 63) \<le> sint x\<close> have "int (unat (- x)) \<le> 2 ^ 63" by linarith
  also have "(2 ^ 63 :: int) = int (2 ^ 63)" by simp
  finally have "unat (- x) \<le> 2 ^ 63" by (simp only: of_nat_le_iff)
  with i show ?thesis by blast
qed

lemma sint_pos_unat: "0 \<le> sint (x :: u64) \<Longrightarrow> int (unat x) = sint x \<and> unat x < 2 ^ 63"
proof -
  assume n: "0 \<le> sint x"
  have lt: "sint x < 2 ^ 63" using sint_lt [of x] by simp
  have "uint x = uint (word_of_int (sint x) :: u64)" by simp
  also have "\<dots> = sint x mod 2 ^ 64" by (simp only: uint_word_of_int take_bit_eq_mod) simp
  also have "\<dots> = sint x" using n lt by (simp add: mod_pos_pos_trivial)
  finally have i: "int (unat x) = sint x" by simp
  with lt have "int (unat x) < 2 ^ 63" by linarith
  also have "(2 ^ 63 :: int) = int (2 ^ 63)" by simp
  finally have "unat x < 2 ^ 63" by (simp only: of_nat_less_iff)
  with i show ?thesis by blast
qed

text \<open>
  C38: \<open>printint\<close> prints numbers correctly for the two uses \<open>printf\<close> makes of it, signed decimal
  and unsigned hexadecimal: the digits fit into its 20-byte buffer, and the bytes it
  prints denote the number.
\<close>

theorem printint_correct:
  assumes "base = 10 \<and> sign \<or> base = 16 \<and> \<not> sign"
  shows "printint xx base sign = puts (rev (printint_buf xx base sign)) \<and>
    length (printint_buf xx base sign) \<le> 20 \<and>
    num_of base (printint_buf xx base sign) = (if sign then sint xx else uint xx)"
proof -
  have b: "2 \<le> base" "base \<le> 16" using assms by auto
  have plain: "last (digits_rev base x) \<noteq> 45" for x
    using digits_plain [OF b] last_in_set [OF digits_nonempty] by metis
  have main: "length (printint_buf xx base sign) \<le> 20 \<and>
      num_of base (printint_buf xx base sign) = (if sign then sint xx else uint xx)"
    using assms
  proof (elim disjE conjE)
    assume s: "base = 10" "sign"
    show ?thesis
    proof (cases "sint xx < 0")
      case True
      note n = sint_neg_unat [OF True]
      then have "length (digits_rev 10 (unat (- xx))) \<le> 19" by (intro digits_length) simp_all
      then show ?thesis using s True n b by (simp add: printint_buf_def Let_def num_of_def val_digits)
    next
      case False
      then have neg: "(sign \<and> sint xx < 0) = False" by simp
      from False have n: "int (unat xx) = sint xx" "unat xx < 2 ^ 63" using sint_pos_unat [of xx] by simp_all
      then have "length (digits_rev 10 (unat xx)) \<le> 19" by (intro digits_length) simp_all
      then show ?thesis
        using s n(1) b plain unfolding printint_buf_def Let_def neg
        by (simp add: num_of_def val_digits)
    qed
  next
    assume s: "base = 16" "\<not> sign"
    have "length (digits_rev 16 (unat xx)) \<le> 16"
      using unat_u64_less [of xx] by (intro digits_length) simp_all
    then show ?thesis using s plain b by (simp add: printint_buf_def Let_def num_of_def val_digits)
  qed
  then show ?thesis by (simp add: printint_def Let_def)
qed

theorem printint_correct_witness:
  "printint (- 205) 10 True = puts (rev (printint_buf (- 205) 10 True)) \<and>
   num_of 10 (printint_buf (- 205) 10 True) = - 205"
proof
  show "printint (- 205) 10 True = puts (rev (printint_buf (- 205) 10 True))"
    by (rule printint_correct [THEN conjunct1]) simp
  show "num_of 10 (printint_buf (- 205) 10 True) = - 205"
    by (subst printint_correct [THEN conjunct2, THEN conjunct2]) simp_all
qed

end
