(* ===== verification/File.thy ===== *)
theory File
  imports Console
begin

text \<open>
  Open files and pipes, \<open>kernel/file.c\<close> and \<open>kernel/pipe.c\<close>. That a pipe is a
  bounded first-in first-out queue is shown in theory \<open>Pipe\<close>.
\<close>

section \<open>State\<close>

datatype fdtype = FD_NONE | FD_PIPE | FD_INODE | FD_DEVICE

text \<open>Files are named by their index in \<open>ftable.file\<close>, pipes by the page that holds them.\<close>

record kfile =
  f_type :: fdtype
  f_ref :: int
  f_readable :: bool
  f_writable :: bool
  f_pipe :: u64
  f_ip :: nat
  f_off :: u32
  f_major :: u16

abbreviation (input) PIPESIZE :: u32 where "PIPESIZE \<equiv> 512"

record pipe =
  pi_data :: "nat \<Rightarrow> u8"
  pi_nread :: u32
  pi_nwrite :: u32
  pi_readopen :: bool
  pi_writeopen :: bool

record filest = consst +
  ftable :: "nat \<Rightarrow> kfile"
  pipes :: "u64 \<Rightarrow> pipe"

definition get_f :: "nat \<Rightarrow> (kfile \<Rightarrow> 'a) \<Rightarrow> ('a, 'z filest_scheme) km" where
  "get_f f g = kget (\<lambda>s. g (ftable s f))"

definition set_f :: "nat \<Rightarrow> (kfile \<Rightarrow> kfile) \<Rightarrow> (unit, 'z filest_scheme) km" where
  "set_f f g = kmod (\<lambda>s. s\<lparr>ftable := (ftable s)(f := g (ftable s f))\<rparr>)"

definition get_pipe :: "u64 \<Rightarrow> (pipe \<Rightarrow> 'a) \<Rightarrow> ('a, 'z filest_scheme) km" where
  "get_pipe pi g = kget (\<lambda>s. g (pipes s pi))"

definition set_pipe :: "u64 \<Rightarrow> (pipe \<Rightarrow> pipe) \<Rightarrow> (unit, 'z filest_scheme) km" where
  "set_pipe pi g = kmod (\<lambda>s. s\<lparr>pipes := (pipes s)(pi := g (pipes s pi))\<rparr>)"

declare get_f_def [simp] set_f_def [simp] get_pipe_def [simp] set_pipe_def [simp]

section \<open>The file table\<close>

definition fileinit :: "(unit, 'z memst_scheme) km" where
  "fileinit = on_lks (initlock LFtable ''ftable'')"

definition filealloc :: "(nat option, 'z filest_scheme) km" where
  "filealloc =
     kthen (acquire LFtable)
    (kbind (kget ftable) (\<lambda>tbl.
       case find (\<lambda>f. f_ref (tbl f) = 0) [0..<NFILE] of
         Some f \<Rightarrow>
           kthen (set_f f (\<lambda>x. x\<lparr>f_ref := 1\<rparr>))
          (kthen (release LFtable)
           (kret (Some f)))
       | None \<Rightarrow> kthen (release LFtable) (kret None)))"

definition filedup :: "nat \<Rightarrow> (nat, 'z filest_scheme) km" where
  "filedup f =
     kthen (acquire LFtable)
    (kbind (get_f f f_ref) (\<lambda>r.
       if r < 1 then kpanic ''filedup''
       else
         kthen (set_f f (\<lambda>x. x\<lparr>f_ref := f_ref x + 1\<rparr>))
        (kthen (release LFtable)
         (kret f))))"

definition pipeclose :: "u64 \<Rightarrow> bool \<Rightarrow> (unit, 'z filest_scheme) km" where
  "pipeclose pi writable =
     kthen (acquire (LPipe pi))
    (kthen
      (if writable then
         kthen (set_pipe pi (\<lambda>x. x\<lparr>pi_writeopen := False\<rparr>)) (wakeup (Some (Cnread pi)))
       else
         kthen (set_pipe pi (\<lambda>x. x\<lparr>pi_readopen := False\<rparr>)) (wakeup (Some (Cnwrite pi))))
    (kbind (get_pipe pi (\<lambda>x. \<not> pi_readopen x \<and> \<not> pi_writeopen x)) (\<lambda>b.
       if b then kthen (release (LPipe pi)) (kfree pi) else release (LPipe pi))))"

definition fileclose :: "nat \<Rightarrow> (unit, 'z filest_scheme) km" where
  "fileclose f =
     kthen (acquire LFtable)
    (kbind (get_f f f_ref) (\<lambda>r.
       if r < 1 then kpanic ''fileclose''
       else
         kthen (set_f f (\<lambda>x. x\<lparr>f_ref := f_ref x - 1\<rparr>))
        (kbind (get_f f (\<lambda>x. x)) (\<lambda>ff.
           if 0 < f_ref ff then release LFtable
           else
             kthen (set_f f (\<lambda>x. x\<lparr>f_ref := 0\<rparr>))
            (kthen (set_f f (\<lambda>x. x\<lparr>f_type := FD_NONE\<rparr>))
            (kthen (release LFtable)
             (if f_type ff = FD_PIPE then pipeclose (f_pipe ff) (f_writable ff)
              else
                kwhen (f_type ff = FD_INODE \<or> f_type ff = FD_DEVICE)
                 (kthen begin_op
                 (kthen (iput (f_ip ff))
                  end_op)))))))))"

section \<open>Pipes\<close>

text \<open>The exit \<open>bad\<close> of \<open>pipealloc\<close>; the page is not allocated on any way to it.\<close>

definition pipealloc_bad :: "nat option \<Rightarrow> nat option \<Rightarrow> ((nat \<times> nat) option, 'z filest_scheme) km" where
  "pipealloc_bad f0 f1 =
     kthen (case f0 of None \<Rightarrow> kret () | Some f \<Rightarrow> fileclose f)
    (kthen (case f1 of None \<Rightarrow> kret () | Some f \<Rightarrow> fileclose f)
     (kret None))"

definition pipealloc_ok :: "nat \<Rightarrow> nat \<Rightarrow> u64 \<Rightarrow> ((nat \<times> nat) option, 'z filest_scheme) km" where
  "pipealloc_ok f0 f1 pi =
     kthen (set_pipe pi (\<lambda>x. x\<lparr>pi_readopen := True, pi_writeopen := True, pi_nwrite := 0, pi_nread := 0\<rparr>))
    (kthen (on_lks (initlock (LPipe pi) ''pipe''))
    (kthen (set_f f0 (\<lambda>x. x\<lparr>f_type := FD_PIPE, f_readable := True, f_writable := False, f_pipe := pi\<rparr>))
    (kthen (set_f f1 (\<lambda>x. x\<lparr>f_type := FD_PIPE, f_readable := False, f_writable := True, f_pipe := pi\<rparr>))
     (kret (Some (f0, f1))))))"

definition pipealloc :: "((nat \<times> nat) option, 'z filest_scheme) km" where
  "pipealloc =
     kbind filealloc (\<lambda>f0.
       case f0 of
         None \<Rightarrow> pipealloc_bad None None
       | Some f0 \<Rightarrow>
           kbind filealloc (\<lambda>f1.
             case f1 of
               None \<Rightarrow> pipealloc_bad (Some f0) None
             | Some f1 \<Rightarrow>
                 kbind kalloc (\<lambda>pi.
                   if pi = 0 then pipealloc_bad (Some f0) (Some f1) else pipealloc_ok f0 f1 pi)))"

text \<open>
  Each call of the loop body of \<open>pipewrite\<close> either stores a byte or sleeps, so the number of
  rounds is bounded by the number of bytes and of wake-ups.
\<close>

definition pipewrite_body ::
    "u64 \<Rightarrow> nat \<Rightarrow> u64 \<Rightarrow> int \<Rightarrow> int \<Rightarrow> (int + int option, 'z filest_scheme) km" where
  "pipewrite_body pi pr addr n i =
     (if n \<le> i then kret (Inr (Some i))
      else
        kbind (get_pipe pi pi_readopen) (\<lambda>ro.
        kbind (if \<not> ro then kret True else killed pr) (\<lambda>dead.
          if dead then kthen (release (LPipe pi)) (kret (Inr None))
          else
            kbind (get_pipe pi (\<lambda>x. pi_nwrite x = pi_nread x + PIPESIZE)) (\<lambda>full.
              if full then
                kthen (wakeup (Some (Cnread pi)))
               (kthen (sleep (Cnwrite pi) (LPipe pi))
                (kret (Inl i)))
              else
                kbind (get_proc pr p_pagetable) (\<lambda>pt.
                kbind (copyin pt (addr + of_int i) 1) (\<lambda>(r, bs).
                  if r = - 1 then kret (Inr (Some i))
                  else
                    kthen (set_pipe pi (\<lambda>x. x\<lparr>
                      pi_data := (pi_data x)(unat (pi_nwrite x mod PIPESIZE) := hd bs),
                      pi_nwrite := pi_nwrite x + 1\<rparr>))
                    (kret (Inl (i + 1)))))))))"

definition pipewrite :: "u64 \<Rightarrow> u64 \<Rightarrow> int \<Rightarrow> (int, 'z filest_scheme) km" where
  "pipewrite pi addr n =
     kbind cur (\<lambda>pr.
     kthen (acquire (LPipe pi))
    (kbind (\<lambda>s. kloop (nat n + rounds s + 1) (pipewrite_body pi pr addr n) 0 s) (\<lambda>r.
       case r of
         None \<Rightarrow> kret (- 1)
       | Some i \<Rightarrow>
           kthen (wakeup (Some (Cnread pi)))
          (kthen (release (LPipe pi))
           (kret i)))))"

definition piperead_wait :: "u64 \<Rightarrow> nat \<Rightarrow> (bool, 'z filest_scheme) km" where
  "piperead_wait pi pr = (\<lambda>s. kloop (rounds s) (\<lambda>_.
     kbind (get_pipe pi (\<lambda>x. pi_nread x = pi_nwrite x \<and> pi_writeopen x)) (\<lambda>e.
       if \<not> e then kret (Inr True)
       else
         kbind (killed pr) (\<lambda>k.
           if k then kthen (release (LPipe pi)) (kret (Inr False))
           else kthen (sleep (Cnread pi) (LPipe pi)) (kret (Inl ()))))) () s)"

definition piperead_body :: "u64 \<Rightarrow> nat \<Rightarrow> u64 \<Rightarrow> int \<Rightarrow> int \<Rightarrow> (int + int, 'z filest_scheme) km" where
  "piperead_body pi pr addr n i =
     (if n \<le> i then kret (Inr i)
      else
        kbind (get_pipe pi (\<lambda>x. x)) (\<lambda>x.
          if pi_nread x = pi_nwrite x then kret (Inr i)
          else
            kbind (get_proc pr p_pagetable) (\<lambda>pt.
            kbind (copyout pt (addr + of_int i) [pi_data x (unat (pi_nread x mod PIPESIZE))]) (\<lambda>r.
              if r = - 1 then kret (Inr (if i = 0 then - 1 else i))
              else
                kthen (set_pipe pi (\<lambda>x. x\<lparr>pi_nread := pi_nread x + 1\<rparr>))
                (kret (Inl (i + 1)))))))"

definition piperead :: "u64 \<Rightarrow> u64 \<Rightarrow> int \<Rightarrow> (int, 'z filest_scheme) km" where
  "piperead pi addr n =
     kbind cur (\<lambda>pr.
     kthen (acquire (LPipe pi))
    (kbind (piperead_wait pi pr) (\<lambda>ok.
       if \<not> ok then kret (- 1)
       else
         kbind (kloop (nat n + 1) (piperead_body pi pr addr n) 0) (\<lambda>i.
         kthen (wakeup (Some (Cnwrite pi)))
        (kthen (release (LPipe pi))
         (kret i))))))"

section \<open>Operations on open files\<close>

text \<open>\<open>struct stat\<close> in memory; four bytes before the size are padding.\<close>

definition enc_stat :: "(nat \<Rightarrow> u8) \<Rightarrow> stat \<Rightarrow> u8 list" where
  "enc_stat pad st = le_split 4 (st_dev st) @ le_split 4 (st_ino st) @ le_split 2 (st_type st) @
     le_split 2 (st_nlink st) @ map pad [0..<4] @ le_split 8 (st_size st)"

definition filestat :: "nat \<Rightarrow> u64 \<Rightarrow> (int, 'z filest_scheme) km" where
  "filestat f addr =
     kbind cur (\<lambda>p.
     kbind (get_f f (\<lambda>x. x)) (\<lambda>x.
       if f_type x = FD_INODE \<or> f_type x = FD_DEVICE then
         kthen (ilock (f_ip x))
        (kbind (stati (f_ip x)) (\<lambda>st.
         kthen (iunlock (f_ip x))
        (kbind (get_proc p p_pagetable) (\<lambda>pt.
         kbind (kget junk) (\<lambda>j.
         kbind (copyout pt addr (enc_stat j st)) (\<lambda>r.
         kret (if r < 0 then - 1 else 0)))))))
       else kret (- 1)))"

definition fileread :: "nat \<Rightarrow> u64 \<Rightarrow> int \<Rightarrow> (int, 'z filest_scheme) km" where
  "fileread f addr n =
     kbind (get_f f (\<lambda>x. x)) (\<lambda>x.
       if \<not> f_readable x then kret (- 1)
       else if f_type x = FD_PIPE then piperead (f_pipe x) addr n
       else if f_type x = FD_DEVICE then
         kbind (kget devsw_read) (\<lambda>dev.
           if sint (f_major x) < 0 \<or> NDEV \<le> sint (f_major x) \<or> \<not> dev (unat (f_major x)) then kret (- 1)
           else consoleread True addr n)
       else if f_type x = FD_INODE then
         kthen (ilock (f_ip x))
        (kbind (get_f f f_off) (\<lambda>off.
         kbind (readi (f_ip x) (UserDst addr) off (of_int n)) (\<lambda>(r, _).
         kthen (kwhen (0 < r) (set_f f (\<lambda>x. x\<lparr>f_off := f_off x + of_int r\<rparr>)))
        (kthen (iunlock (f_ip x))
         (kret r)))))
       else kpanic ''fileread'')"

text \<open>The limit of \<open>filewrite\<close>, \<open>((MAXOPBLOCKS-1-1-2) / 2) * BSIZE\<close>.\<close>

definition filewrite_max :: int where
  "filewrite_max = ((int MAXOPBLOCKS - 1 - 1 - 2) div 2) * int BSIZE"

definition filewrite_body :: "nat \<Rightarrow> nat \<Rightarrow> u64 \<Rightarrow> int \<Rightarrow> int \<Rightarrow> (int + int, 'z filest_scheme) km" where
  "filewrite_body f ip addr n i =
     (if n \<le> i then kret (Inr i)
      else
        (let n1 = min (n - i) filewrite_max
         in kthen begin_op
           (kthen (ilock ip)
           (kbind (get_f f f_off) (\<lambda>off.
            kbind (writei ip (UserSrc (addr + of_int i)) off (of_int n1)) (\<lambda>r.
            kthen (kwhen (0 < r) (set_f f (\<lambda>x. x\<lparr>f_off := f_off x + of_int r\<rparr>)))
           (kthen (iunlock ip)
           (kthen end_op
            (if r \<noteq> n1 then kret (Inr i) else kret (Inl (i + r)))))))))))"

definition filewrite :: "nat \<Rightarrow> u64 \<Rightarrow> int \<Rightarrow> (int, 'z filest_scheme) km" where
  "filewrite f addr n =
     kbind (get_f f (\<lambda>x. x)) (\<lambda>x.
       if \<not> f_writable x then kret (- 1)
       else if f_type x = FD_PIPE then pipewrite (f_pipe x) addr n
       else if f_type x = FD_DEVICE then
         kbind (kget devsw_write) (\<lambda>dev.
           if sint (f_major x) < 0 \<or> NDEV \<le> sint (f_major x) \<or> \<not> dev (unat (f_major x)) then kret (- 1)
           else consolewrite True addr n)
       else if f_type x = FD_INODE then
         kbind (kloop (nat n + 1) (filewrite_body f (f_ip x) addr n) 0) (\<lambda>i.
         kret (if i = n then n else - 1))
       else kpanic ''filewrite'')"

section \<open>A small example\<close>

text \<open>The small kernel of the examples, with an idle console, no open file and empty pipes.\<close>

definition small_filest :: filest where
  "small_filest = (let s = small_fsst in
     \<lparr>lks = lks s, mem = mem s, freelist = freelist s, k_end = k_end s, procs = procs s,
       nextpid = nextpid s, initproc = initproc s, ticks = ticks s,
       kernel_pagetable = kernel_pagetable s, csr = csr s, ksym = ksym s,
       fork_first = fork_first s, timer = timer s, rounds = rounds s, slocks = slocks s,
       rdisk = rdisk s, rdisk_size = rdisk_size s, disk_writes = disk_writes s, bufs = bufs s,
       klog = klog s, sb = sb s, itable = itable s, junk = junk s,
       uart = \<lparr>u_writes = [], u_in = [], u_polls = 0, u_idle = (\<lambda>_. True), tx_busy = False\<rparr>,
       cons = \<lparr>cons_buf = (\<lambda>_. 0), cons_r = 0, cons_w = 0, cons_e = 0\<rparr>,
       panicking = False, panicked = False, devsw_read = (\<lambda>_. False), devsw_write = (\<lambda>_. False),
       ftable = (\<lambda>_. \<lparr>f_type = FD_NONE, f_ref = 0, f_readable = False, f_writable = False,
         f_pipe = 0, f_ip = 0, f_off = 0, f_major = 0\<rparr>),
       pipes = (\<lambda>_. \<lparr>pi_data = (\<lambda>_. 0), pi_nread = 0, pi_nwrite = 0, pi_readopen = True, pi_writeopen = True\<rparr>)\<rparr>)"

lemma small_filest_sel [simp]:
  "lks small_filest = busy_lkst" "rounds small_filest = 10"
  "procs small_filest = (\<lambda>p. zero_proc\<lparr>p_pid := int p + 1\<rparr>)"
  "pipes small_filest =
     (\<lambda>_. \<lparr>pi_data = (\<lambda>_. 0), pi_nread = 0, pi_nwrite = 0, pi_readopen = True, pi_writeopen = True\<rparr>)"
  by (simp_all add: small_filest_def Let_def)

end
