(* ===== verification/Exec.thy ===== *)
theory Exec
  imports File
begin

text \<open>
  Program loading, \<open>kernel/exec.c\<close>, and the parts of \<open>kernel/proc.c\<close> that need the file
  system: \<open>kfork\<close>, \<open>userinit\<close> and \<open>forkret\<close>.
\<close>

abbreviation (input) ELF_MAGIC :: u32 where "ELF_MAGIC \<equiv> 0x464C457F"
abbreviation (input) ELF_PROG_LOAD :: u32 where "ELF_PROG_LOAD \<equiv> 1"
abbreviation (input) USERSTACK :: u64 where "USERSTACK \<equiv> 1"

section \<open>ELF headers\<close>

definition get64 :: "nat \<Rightarrow> u8 list \<Rightarrow> u64" where
  "get64 off bs = le_join (take 8 (drop off bs))"

text \<open>The fields of \<open>struct elfhdr\<close> and \<open>struct proghdr\<close> that the kernel reads.\<close>

record elfhdr =
  e_magic :: u32
  e_entry :: u64
  e_phoff :: u64
  e_phnum :: u16

record proghdr =
  ph_type :: u32
  ph_flags :: u32
  ph_off :: u64
  ph_vaddr :: u64
  ph_filesz :: u64
  ph_memsz :: u64

definition dec_elfhdr :: "u8 list \<Rightarrow> elfhdr" where
  "dec_elfhdr bs = \<lparr>e_magic = get32 0 bs, e_entry = get64 24 bs, e_phoff = get64 32 bs,
     e_phnum = get16 56 bs\<rparr>"

definition dec_proghdr :: "u8 list \<Rightarrow> proghdr" where
  "dec_proghdr bs = \<lparr>ph_type = get32 0 bs, ph_flags = get32 4 bs, ph_off = get64 8 bs,
     ph_vaddr = get64 16 bs, ph_filesz = get64 32 bs, ph_memsz = get64 40 bs\<rparr>"

definition flags2perm :: "u32 \<Rightarrow> u64" where
  "flags2perm flags =
     (let perm = (if flags AND 1 \<noteq> 0 then PTE_X else 0)
      in if flags AND 2 \<noteq> 0 then perm OR PTE_W else perm)"

section \<open>Loading segments\<close>

text \<open>How much of a segment one round of \<open>loadseg\<close> reads: up to the end of the page.\<close>

definition seg_chunk :: "u64 \<Rightarrow> u32 \<Rightarrow> u32 \<Rightarrow> u32" where
  "seg_chunk va sz i =
     (let off_in_page = (va + ucast i) mod PGSIZE
      in if ucast (sz - i) < PGSIZE - off_in_page then sz - i else ucast (PGSIZE - off_in_page))"

definition loadseg_body ::
    "u64 \<Rightarrow> u64 \<Rightarrow> nat \<Rightarrow> u32 \<Rightarrow> u32 \<Rightarrow> u32 \<Rightarrow> (u32 + int, 'z fsst_scheme) km" where
  "loadseg_body pt va ip offset sz i =
     (if sz \<le> i then kret (Inr 0)
      else
        kbind (walkaddr pt (va + ucast i)) (\<lambda>pa.
          if pa = 0 then kpanic ''loadseg: address should exist''
          else
            (let off_in_page = (va + ucast i) mod PGSIZE;
                 n = seg_chunk va sz i
             in kbind (readi ip KernelDst (offset + i) n) (\<lambda>(r, bs).
                kthen (st_bytes (pa + off_in_page) bs)
                (if of_int r \<noteq> n then kret (Inr (- 1)) else kret (Inl (i + n)))))))"

definition loadseg :: "u64 \<Rightarrow> u64 \<Rightarrow> nat \<Rightarrow> u32 \<Rightarrow> u32 \<Rightarrow> (int, 'z fsst_scheme) km" where
  "loadseg pt va ip offset sz = kloop (unat sz + 1) (loadseg_body pt va ip offset sz) 0"

text \<open>
  The program-header loop of \<open>kexec\<close>; its result says whether all went well, with the
  size reached.
\<close>

definition exec_seg ::
    "nat \<Rightarrow> u64 \<Rightarrow> u64 \<Rightarrow> proghdr \<Rightarrow> (u64 + u64, 'z fsst_scheme) km" where
  "exec_seg ip pt sz ph =
     (if ph_memsz ph < ph_filesz ph then kret (Inr sz)
      else if ph_vaddr ph + ph_memsz ph < ph_vaddr ph then kret (Inr sz)
      else
        kbind (uvmalloc pt sz (ph_vaddr ph + ph_memsz ph) (flags2perm (ph_flags ph))) (\<lambda>sz1.
          if sz1 = 0 then kret (Inr sz)
          else
            kbind (loadseg pt (ph_vaddr ph) ip (ucast (ph_off ph)) (ucast (ph_filesz ph))) (\<lambda>r.
              if r < 0 then kret (Inr sz1) else kret (Inl sz1))))"

definition exec_segs_body ::
    "nat \<Rightarrow> u64 \<Rightarrow> nat \<Rightarrow> nat \<times> u32 \<times> u64 \<Rightarrow> ((nat \<times> u32 \<times> u64) + (bool \<times> u64), 'z fsst_scheme) km" where
  "exec_segs_body ip pt phnum = (\<lambda>(i, off, sz).
     if phnum \<le> i then kret (Inr (True, sz))
     else
       kbind (readi ip KernelDst off 56) (\<lambda>(r, bs).
         if r \<noteq> 56 then kret (Inr (False, sz))
         else if ph_type (dec_proghdr bs) \<noteq> ELF_PROG_LOAD then kret (Inl (i + 1, off + 56, sz))
         else
           kbind (exec_seg ip pt sz (dec_proghdr bs)) (\<lambda>x.
             case x of
               Inr sz1 \<Rightarrow> kret (Inr (False, sz1))
             | Inl sz1 \<Rightarrow> kret (Inl (i + 1, off + 56, sz1)))))"

section \<open>The new user stack\<close>

text \<open>The argument loop of \<open>kexec\<close>; \<open>ustack\<close> are the addresses pushed so far.\<close>

primrec exec_push ::
    "u64 \<Rightarrow> u64 \<Rightarrow> u8 list list \<Rightarrow> u64 \<Rightarrow> u64 list \<Rightarrow> ((u64 \<times> u64 list) option, 'z procst_scheme) km" where
  "exec_push pt stackbase [] sp ustack = kret (Some (sp, ustack))"
| "exec_push pt stackbase (a # as) sp ustack =
     (if MAXARG \<le> length ustack then kret None
      else
        (let sp1 = sp - of_nat (length a + 1);
             sp2 = sp1 - sp1 mod 16
         in if sp2 < stackbase then kret None
            else
              kbind (copyout pt sp2 (a @ [0])) (\<lambda>r.
                if r < 0 then kret None
                else exec_push pt stackbase as sp2 (ustack @ [sp2]))))"

text \<open>Pushing the array \<open>ustack\<close> itself; its terminating null must fit into its \<open>MAXARG\<close> entries.\<close>

definition exec_ustack :: "u64 \<Rightarrow> u64 \<Rightarrow> u64 \<Rightarrow> u64 list \<Rightarrow> (u64 option, 'z procst_scheme) km" where
  "exec_ustack pt stackbase sp ustack =
     (if MAXARG \<le> length ustack then undefined_behaviour
      else
        (let sp1 = sp - of_nat (length ustack + 1) * 8;
             sp2 = sp1 - sp1 mod 16
         in if sp2 < stackbase then kret None
            else
              kbind (copyout pt sp2 (concat (map (le_split 8) (ustack @ [0])))) (\<lambda>r.
              kret (if r < 0 then None else Some sp2))))"

section \<open>kexec\<close>

definition exec_bad :: "u64 \<Rightarrow> u64 \<Rightarrow> nat option \<Rightarrow> (int, 'z fsst_scheme) km" where
  "exec_bad pt sz ip =
     kthen (kwhen (pt \<noteq> 0) (proc_freepagetable pt sz))
    (kthen (case ip of None \<Rightarrow> kret () | Some ip \<Rightarrow> kthen (iunlockput ip) end_op)
     (kret (- 1)))"

definition exec_name :: "u8 list \<Rightarrow> u8 list" where
  "exec_name path = rev (takeWhile (\<lambda>c. c \<noteq> slash) (rev path))"

definition exec_commit :: "nat \<Rightarrow> u64 \<Rightarrow> u64 \<Rightarrow> u64 \<Rightarrow> u64 \<Rightarrow> u64 \<Rightarrow> u8 list \<Rightarrow> (unit, 'z fsst_scheme) km" where
  "exec_commit p pt sz sp entry oldsz path =
     kthen (set_tf p TFa1 sp)
    (kthen (set_proc p (\<lambda>q. q\<lparr>p_name := put_at 0 (safestrcpy (name_ptr (exec_name path)) 16) (p_name q)\<rparr>))
    (kbind (get_proc p p_pagetable) (\<lambda>oldpt.
     kthen (set_proc p (\<lambda>q. q\<lparr>p_pagetable := pt\<rparr>))
    (kthen (set_proc p (\<lambda>q. q\<lparr>p_sz := sz\<rparr>))
    (kthen (set_tf p TFepc entry)
    (kthen (set_tf p TFsp sp)
     (proc_freepagetable oldpt oldsz)))))))"

definition exec_stack :: "u64 \<Rightarrow> u64 \<Rightarrow> elfhdr \<Rightarrow> u8 list \<Rightarrow> u8 list list \<Rightarrow> (int, 'z fsst_scheme) km" where
  "exec_stack pt sz0 elf path argv =
     kbind cur (\<lambda>p.
     kbind (get_proc p p_sz) (\<lambda>oldsz.
       let sz = PGROUNDUP sz0
       in kbind (uvmalloc pt sz (sz + (USERSTACK + 1) * PGSIZE) PTE_W) (\<lambda>sz1.
         if sz1 = 0 then exec_bad pt sz None
         else
           kthen (uvmclear pt (sz1 - (USERSTACK + 1) * PGSIZE))
          (kbind (exec_push pt (sz1 - USERSTACK * PGSIZE) argv sz1 []) (\<lambda>r.
             case r of
               None \<Rightarrow> exec_bad pt sz1 None
             | Some (sp, ustack) \<Rightarrow>
                 kbind (exec_ustack pt (sz1 - USERSTACK * PGSIZE) sp ustack) (\<lambda>r.
                   case r of
                     None \<Rightarrow> exec_bad pt sz1 None
                   | Some sp \<Rightarrow>
                       kthen (exec_commit p pt sz1 sp (e_entry elf) oldsz path)
                       (kret (int (length ustack)))))))))"

definition exec_load :: "nat \<Rightarrow> nat \<Rightarrow> u8 list \<Rightarrow> u8 list list \<Rightarrow> (int, 'z fsst_scheme) km" where
  "exec_load p ip path argv =
     kbind (readi ip KernelDst 0 64) (\<lambda>(r, bs).
       if r \<noteq> 64 then exec_bad 0 0 (Some ip)
       else if e_magic (dec_elfhdr bs) \<noteq> ELF_MAGIC then exec_bad 0 0 (Some ip)
       else
         kbind (proc_pagetable p) (\<lambda>pt.
           if pt = 0 then exec_bad 0 0 (Some ip)
           else
             kbind (kloop (unat (e_phnum (dec_elfhdr bs)) + 1)
                 (exec_segs_body ip pt (unat (e_phnum (dec_elfhdr bs))))
                 (0, ucast (e_phoff (dec_elfhdr bs)), 0)) (\<lambda>(ok, sz).
               if \<not> ok then exec_bad pt sz (Some ip)
               else
                 kthen (iunlockput ip)
                (kthen end_op
                 (exec_stack pt sz (dec_elfhdr bs) path argv)))))"

text \<open>The strings of \<open>argv\<close> are passed as the lists of their bytes before the null byte.\<close>

definition kexec :: "u8 list \<Rightarrow> u8 list list \<Rightarrow> (int, 'z fsst_scheme) km" where
  "kexec path argv =
     kbind cur (\<lambda>p.
     kbind (get_proc p p_cwd) (\<lambda>cwd.
       if cwd = None then kret (- 1)
       else
         kthen begin_op
        (kbind (namei path) (\<lambda>r.
           case r of
             None \<Rightarrow> kthen end_op (kret (- 1))
           | Some ip \<Rightarrow> kthen (ilock ip) (exec_load p ip path argv)))))"

section \<open>Creating processes\<close>

definition userinit :: "(unit, 'z fsst_scheme) km" where
  "userinit =
     kbind allocproc (\<lambda>r.
     kthen (kmod (\<lambda>s. s\<lparr>initproc := r\<rparr>))
     (case r of
        None \<Rightarrow> kpanic ''kerneltrap''
      | Some p \<Rightarrow>
          kthen (set_proc p (\<lambda>q. q\<lparr>p_name := put_at 0 (safestrcpy (name_ptr (bytes_of ''init'')) 16) (p_name q)\<rparr>))
         (kbind (namei [slash]) (\<lambda>cwd.
          kthen (set_proc p (\<lambda>q. q\<lparr>p_cwd := cwd\<rparr>))
         (kthen (set_proc p (\<lambda>q. q\<lparr>p_sz := 0\<rparr>))
         (kthen (set_proc p (\<lambda>q. q\<lparr>p_state := RUNNABLE\<rparr>))
          (release (LProc p))))))))"

text \<open>The last steps of \<open>forkret\<close> and \<open>usertrap\<close>: the value that the trampoline puts into \<open>satp\<close>.\<close>

definition forkret :: "(u64, 'z fsst_scheme) km" where
  "forkret =
     kbind cur (\<lambda>p.
     kthen (release (LProc p))
    (kbind (kget fork_first) (\<lambda>first.
     kthen (kwhen first
       (kthen (fsinit ROOTDEV)
       (kthen (kmod (\<lambda>s. s\<lparr>fork_first := False\<rparr>))
       (kbind (kexec (bytes_of ''/init'') [bytes_of ''/init'']) (\<lambda>r.
        kthen (set_tf p TFa0 (of_int r))
       (kbind (get_tf p TFa0) (\<lambda>a0.
        kwhen (a0 = - 1) (kpanic ''exec''))))))))
    (kthen prepare_return
    (kbind (get_proc p p_pagetable) (\<lambda>pt.
     kret (MAKE_SATP pt)))))))"

definition kfork_file :: "nat \<Rightarrow> nat \<Rightarrow> nat \<Rightarrow> (unit, 'z filest_scheme) km" where
  "kfork_file p np i =
     kbind (get_proc p (\<lambda>q. p_ofile q i)) (\<lambda>f.
       case f of
         None \<Rightarrow> kret ()
       | Some f \<Rightarrow> kbind (filedup f) (\<lambda>g. set_proc np (\<lambda>q. q\<lparr>p_ofile := (p_ofile q)(i := Some g)\<rparr>)))"

definition kfork_start :: "nat \<Rightarrow> nat \<Rightarrow> (int, 'z filest_scheme) km" where
  "kfork_start p np =
     kbind (get_proc np p_pid) (\<lambda>pid.
     kthen (release (LProc np))
    (kthen (acquire LWait)
    (kthen (set_proc np (\<lambda>q. q\<lparr>p_parent := Some p\<rparr>))
    (kthen (release LWait)
    (kthen (acquire (LProc np))
    (kthen (set_proc np (\<lambda>q. q\<lparr>p_state := RUNNABLE\<rparr>))
    (kthen (release (LProc np))
     (kret pid))))))))"

definition kfork_copy :: "nat \<Rightarrow> nat \<Rightarrow> (int, 'z filest_scheme) km" where
  "kfork_copy p np =
     kbind (get_proc p p_sz) (\<lambda>sz.
     kthen (set_proc np (\<lambda>q. q\<lparr>p_sz := sz\<rparr>))
    (kbind (get_proc p p_trapframe) (\<lambda>tf.
     kbind (get_proc np p_trapframe) (\<lambda>ntf.
     kthen (kmemmove ntf tf 288)
    (kthen (set_tf np TFa0 0)
    (kthen (kfor [0..<NOFILE] (kfork_file p np))
    (kbind (get_proc p p_cwd) (\<lambda>cwd.
       case cwd of
         None \<Rightarrow> kpanic ''kerneltrap''
       | Some ip \<Rightarrow>
           kbind (idup ip) (\<lambda>ip.
           kthen (set_proc np (\<lambda>q. q\<lparr>p_cwd := Some ip\<rparr>))
          (kbind (get_proc p p_name) (\<lambda>nm.
           kthen (set_proc np (\<lambda>q. q\<lparr>p_name := put_at 0 (safestrcpy (name_ptr nm) 16) (p_name q)\<rparr>))
           (kfork_start p np))))))))))))"

definition kfork :: "(int, 'z filest_scheme) km" where
  "kfork =
     kbind cur (\<lambda>p.
     kbind allocproc (\<lambda>r.
       case r of
         None \<Rightarrow> kret (- 1)
       | Some np \<Rightarrow>
           kbind (get_proc p (\<lambda>q. (p_pagetable q, p_sz q))) (\<lambda>(pt, sz).
           kbind (get_proc np p_pagetable) (\<lambda>npt.
           kbind (uvmcopy pt npt sz) (\<lambda>r.
             if r < 0 then kthen (freeproc np) (kthen (release (LProc np)) (kret (- 1)))
             else kfork_copy p np)))))"

end
