(* ===== verification/Syscall.thy ===== *)
theory Syscall
  imports Exec
begin

text \<open>
  System calls: argument fetching and dispatch, \<open>kernel/syscall.c\<close>, the process calls of
  \<open>kernel/sysproc.c\<close> and the file calls of \<open>kernel/sysfile.c\<close>.
\<close>

section \<open>Arguments\<close>

definition fetchaddr :: "u64 \<Rightarrow> (int \<times> u64, 'z procst_scheme) km" where
  "fetchaddr addr =
     kbind cur (\<lambda>p.
     kbind (get_proc p (\<lambda>q. (p_sz q, p_pagetable q))) (\<lambda>(sz, pt).
       if sz \<le> addr \<or> sz < addr + 8 then kret (- 1, 0)
       else
         kbind (copyin pt addr 8) (\<lambda>(r, bs).
         kret (if r \<noteq> 0 then (- 1, 0) else (0, get64 0 bs)))))"

text \<open>The second component is what was stored in the buffer.\<close>

definition fetchstr :: "u64 \<Rightarrow> u64 \<Rightarrow> (int \<times> u8 list, 'z procst_scheme) km" where
  "fetchstr addr mx =
     kbind cur (\<lambda>p.
     kbind (get_proc p p_pagetable) (\<lambda>pt.
     kbind (copyinstr pt addr mx) (\<lambda>(r, buf).
     kret (if r < 0 then - 1 else int (length (takeWhile (\<lambda>c. c \<noteq> 0) buf)), buf))))"

definition argraw :: "nat \<Rightarrow> (u64, 'z procst_scheme) km" where
  "argraw n =
     kbind cur (\<lambda>p.
       if n = 0 then get_tf p TFa0
       else if n = 1 then get_tf p TFa1
       else if n = 2 then get_tf p TFa2
       else if n = 3 then get_tf p TFa3
       else if n = 4 then get_tf p TFa4
       else if n = 5 then get_tf p TFa5
       else kpanic ''argraw'')"

definition argint :: "nat \<Rightarrow> (u32, 'z procst_scheme) km" where
  "argint n = kbind (argraw n) (\<lambda>v. kret (ucast v))"

definition argaddr :: "nat \<Rightarrow> (u64, 'z procst_scheme) km" where
  "argaddr n = argraw n"

text \<open>The string comes without its terminating null byte.\<close>

definition argstr :: "nat \<Rightarrow> nat \<Rightarrow> (int \<times> u8 list, 'z procst_scheme) km" where
  "argstr n mx =
     kbind (argaddr n) (\<lambda>addr.
     kbind (fetchstr addr (of_nat mx)) (\<lambda>(r, buf).
     kret (r, takeWhile (\<lambda>c. c \<noteq> 0) buf)))"

section \<open>Process calls\<close>

definition sys_exit :: "(u64, 'z procst_scheme) km" where
  "sys_exit = kbind (argint 0) kexit"

definition sys_getpid :: "(u64, 'z procst_scheme) km" where
  "sys_getpid = kbind cur (\<lambda>p. kbind (get_proc p p_pid) (\<lambda>pid. kret (of_int pid)))"

definition sys_fork :: "(u64, 'z filest_scheme) km" where
  "sys_fork = kbind kfork (\<lambda>r. kret (of_int r))"

definition sys_wait :: "(u64, 'z procst_scheme) km" where
  "sys_wait = kbind (argaddr 0) (\<lambda>p. kbind (kwait p) (\<lambda>r. kret (of_int r)))"

definition sys_sbrk :: "(u64, 'z procst_scheme) km" where
  "sys_sbrk =
     kbind (argint 0) (\<lambda>n.
     kbind (argint 1) (\<lambda>t.
     kbind cur (\<lambda>p.
     kbind (get_proc p p_sz) (\<lambda>addr.
       if t = 1 \<or> sint n < 0 then
         kbind (growproc n) (\<lambda>r. kret (if r < 0 then - 1 else addr))
       else if addr + scast n < addr then kret (- 1)
       else if TRAPFRAME < addr + scast n then kret (- 1)
       else
         kbind cur (\<lambda>p.
         kthen (set_proc p (\<lambda>q. q\<lparr>p_sz := p_sz q + scast n\<rparr>))
         (kret addr))))))"

definition sys_pause_body :: "u32 \<Rightarrow> u32 \<Rightarrow> unit \<Rightarrow> (unit + u64, 'z procst_scheme) km" where
  "sys_pause_body n ticks0 = (\<lambda>_.
     kbind (kget ticks) (\<lambda>t.
       if n \<le> t - ticks0 then kthen (release LTicks) (kret (Inr 0))
       else
         kbind cur (\<lambda>p.
         kbind (killed p) (\<lambda>k.
           if k then kthen (release LTicks) (kret (Inr (- 1)))
           else kthen (sleep Cticks LTicks) (kret (Inl ()))))))"

definition sys_pause :: "(u64, 'z procst_scheme) km" where
  "sys_pause =
     kbind (argint 0) (\<lambda>n0.
       let n = (if sint n0 < 0 then 0 else n0)
       in kthen (acquire LTicks)
         (kbind (kget ticks) (\<lambda>ticks0.
          (\<lambda>s. kloop (rounds s) (sys_pause_body n ticks0) () s))))"

definition sys_kill :: "(u64, 'z procst_scheme) km" where
  "sys_kill = kbind (argint 0) (\<lambda>pid. kbind (kkill (sint pid)) (\<lambda>r. kret (of_int r)))"

definition sys_uptime :: "(u64, 'z procst_scheme) km" where
  "sys_uptime =
     kthen (acquire LTicks)
    (kbind (kget ticks) (\<lambda>x.
     kthen (release LTicks)
     (kret (ucast x))))"

section \<open>File descriptors\<close>

definition argfd :: "nat \<Rightarrow> ((nat \<times> nat) option, 'z procst_scheme) km" where
  "argfd n =
     kbind (argint n) (\<lambda>fd.
       if sint fd < 0 \<or> int NOFILE \<le> sint fd then kret None
       else
         kbind cur (\<lambda>p.
         kbind (get_proc p (\<lambda>q. p_ofile q (unat fd))) (\<lambda>f.
         kret (map_option (\<lambda>f. (unat fd, f)) f))))"

definition fdalloc :: "nat \<Rightarrow> (nat option, 'z procst_scheme) km" where
  "fdalloc f =
     kbind cur (\<lambda>p.
     kbind (get_proc p p_ofile) (\<lambda>tbl.
       case find (\<lambda>fd. tbl fd = None) [0..<NOFILE] of
         None \<Rightarrow> kret None
       | Some fd \<Rightarrow>
           kthen (set_proc p (\<lambda>q. q\<lparr>p_ofile := (p_ofile q)(fd := Some f)\<rparr>))
           (kret (Some fd))))"

definition sys_dup :: "(u64, 'z filest_scheme) km" where
  "sys_dup =
     kthen (printf (bytes_of ''sys_dup'') [])
    (kbind (argfd 0) (\<lambda>r.
       case r of
         None \<Rightarrow> kret (- 1)
       | Some (_, f) \<Rightarrow>
           kbind (fdalloc f) (\<lambda>r.
             case r of
               None \<Rightarrow> kret (- 1)
             | Some fd \<Rightarrow>
                 kbind (filedup f) (\<lambda>_.
                 kthen (printf (bytes_of ''sys_dup: fd=%d'' @ [10]) [Num (of_nat fd)])
                 (kret (of_nat fd))))))"

definition sys_read :: "(u64, 'z filest_scheme) km" where
  "sys_read =
     kbind (argaddr 1) (\<lambda>p.
     kbind (argint 2) (\<lambda>n.
     kbind (argfd 0) (\<lambda>r.
       case r of
         None \<Rightarrow> kret (- 1)
       | Some (_, f) \<Rightarrow> kbind (fileread f p (sint n)) (\<lambda>r. kret (of_int r)))))"

definition sys_write :: "(u64, 'z filest_scheme) km" where
  "sys_write =
     kbind (argaddr 1) (\<lambda>p.
     kbind (argint 2) (\<lambda>n.
     kbind (argfd 0) (\<lambda>r.
       case r of
         None \<Rightarrow> kret (- 1)
       | Some (_, f) \<Rightarrow> kbind (filewrite f p (sint n)) (\<lambda>r. kret (of_int r)))))"

definition clear_fd :: "nat \<Rightarrow> nat \<Rightarrow> (unit, 'z procst_scheme) km" where
  "clear_fd p fd = set_proc p (\<lambda>q. q\<lparr>p_ofile := (p_ofile q)(fd := None)\<rparr>)"

definition sys_close :: "(u64, 'z filest_scheme) km" where
  "sys_close =
     kbind (argfd 0) (\<lambda>r.
       case r of
         None \<Rightarrow> kret (- 1)
       | Some (fd, f) \<Rightarrow>
           kbind cur (\<lambda>p.
           kthen (clear_fd p fd)
          (kthen (fileclose f)
           (kret 0))))"

definition sys_fstat :: "(u64, 'z filest_scheme) km" where
  "sys_fstat =
     kbind (argaddr 1) (\<lambda>st.
     kbind (argfd 0) (\<lambda>r.
       case r of
         None \<Rightarrow> kret (- 1)
       | Some (_, f) \<Rightarrow> kbind (filestat f st) (\<lambda>r. kret (of_int r))))"

section \<open>Links\<close>

definition add_nlink :: "nat \<Rightarrow> u16 \<Rightarrow> (unit, 'z fsst_scheme) km" where
  "add_nlink ip k = set_d ip (\<lambda>d. d\<lparr>d_nlink := d_nlink d + k\<rparr>)"

definition sys_link_bad :: "nat \<Rightarrow> (u64, 'z fsst_scheme) km" where
  "sys_link_bad ip =
     kthen (ilock ip)
    (kthen (add_nlink ip (- 1))
    (kthen (iupdate ip)
    (kthen (iunlockput ip)
    (kthen end_op
     (kret (- 1))))))"

definition sys_link_dir :: "nat \<Rightarrow> nat \<Rightarrow> u8 list \<Rightarrow> (u64, 'z fsst_scheme) km" where
  "sys_link_dir ip dp name =
     kthen (ilock dp)
    (kbind (get_i dp i_dev) (\<lambda>ddev.
     kbind (get_i ip i_dev) (\<lambda>idev.
     kbind (if ddev \<noteq> idev then kret True
            else kbind (get_i ip i_inum) (\<lambda>inum. kbind (dirlink dp name inum) (\<lambda>r. kret (r < 0)))) (\<lambda>bad.
       if bad then kthen (iunlockput dp) (sys_link_bad ip)
       else
         kthen (iunlockput dp)
        (kthen (iput ip)
        (kthen end_op
         (kret 0)))))))"

definition sys_link :: "(u64, 'z fsst_scheme) km" where
  "sys_link =
     kbind (argstr 0 MAXPATH) (\<lambda>(r0, old).
       if r0 < 0 then kret (- 1)
       else kbind (argstr 1 MAXPATH) (\<lambda>(r1, new).
       if r1 < 0 then kret (- 1)
       else
         kthen begin_op
        (kbind (namei old) (\<lambda>r.
           case r of
             None \<Rightarrow> kthen end_op (kret (- 1))
           | Some ip \<Rightarrow>
               kthen (ilock ip)
              (kbind (get_d ip d_type) (\<lambda>ty.
                 if ty = T_DIR then kthen (iunlockput ip) (kthen end_op (kret (- 1)))
                 else
                   kthen (add_nlink ip 1)
                  (kthen (iupdate ip)
                  (kthen (iunlock ip)
                  (kbind (nameiparent new) (\<lambda>r.
                     case r of
                       None \<Rightarrow> sys_link_bad ip
                     | Some (dp, name) \<Rightarrow> sys_link_dir ip dp name))))))))))"

definition isdirempty_body :: "nat \<Rightarrow> u32 \<Rightarrow> (u32 + bool, 'z fsst_scheme) km" where
  "isdirempty_body dp off =
     kbind (get_d dp d_size) (\<lambda>sz.
       if sz \<le> off then kret (Inr True)
       else
         kbind (readi dp KernelDst off 16) (\<lambda>(r, de).
           if r \<noteq> 16 then kpanic ''isdirempty: readi''
           else if get16 0 de \<noteq> 0 then kret (Inr False)
           else kret (Inl (off + 16))))"

definition isdirempty :: "nat \<Rightarrow> (bool, 'z fsst_scheme) km" where
  "isdirempty dp =
     kbind (get_d dp d_size) (\<lambda>sz. kloop (unat sz div 16 + 2) (isdirempty_body dp) 32)"

definition sys_unlink_bad :: "nat \<Rightarrow> (u64, 'z fsst_scheme) km" where
  "sys_unlink_bad dp = kthen (iunlockput dp) (kthen end_op (kret (- 1)))"

definition sys_unlink_at :: "nat \<Rightarrow> nat \<Rightarrow> u32 \<Rightarrow> (u64, 'z fsst_scheme) km" where
  "sys_unlink_at dp ip off =
     kthen (ilock ip)
    (kbind (get_d ip (\<lambda>d. d)) (\<lambda>d.
       if sint (d_nlink d) < 1 then kpanic ''unlink: nlink < 1''
       else
         kbind (if d_type d = T_DIR then kbind (isdirempty ip) (\<lambda>e. kret (\<not> e)) else kret False) (\<lambda>full.
           if full then kthen (iunlockput ip) (sys_unlink_bad dp)
           else
             kbind (writei dp (KernelSrc (replicate 16 0)) off 16) (\<lambda>r.
               if r \<noteq> 16 then kpanic ''unlink: writei''
               else
                 kbind (get_d ip d_type) (\<lambda>ty.
                 kthen (kwhen (ty = T_DIR) (kthen (add_nlink dp (- 1)) (iupdate dp)))
                (kthen (iunlockput dp)
                (kthen (add_nlink ip (- 1))
                (kthen (iupdate ip)
                (kthen (iunlockput ip)
                (kthen end_op
                 (kret 0)))))))))))"

definition sys_unlink :: "(u64, 'z fsst_scheme) km" where
  "sys_unlink =
     kbind (argstr 0 MAXPATH) (\<lambda>(r, path).
       if r < 0 then kret (- 1)
       else
         kthen begin_op
        (kbind (nameiparent path) (\<lambda>r.
           case r of
             None \<Rightarrow> kthen end_op (kret (- 1))
           | Some (dp, name) \<Rightarrow>
               kthen (ilock dp)
               (if namecmp name [46] = 0 \<or> namecmp name [46, 46] = 0 then sys_unlink_bad dp
                else
                  kbind (dirlookup dp name) (\<lambda>r.
                    case r of
                      None \<Rightarrow> sys_unlink_bad dp
                    | Some (ip, off) \<Rightarrow> sys_unlink_at dp ip off)))))"

section \<open>Creating and opening\<close>

definition create_fail :: "nat \<Rightarrow> nat \<Rightarrow> (nat option, 'z fsst_scheme) km" where
  "create_fail dp ip =
     kthen (set_d ip (\<lambda>d. d\<lparr>d_nlink := 0\<rparr>))
    (kthen (iupdate ip)
    (kthen (iunlockput ip)
    (kthen (iunlockput dp)
     (kret None))))"

text \<open>The entries \<open>.\<close> and \<open>..\<close> of a new directory.\<close>

definition create_dots :: "nat \<Rightarrow> nat \<Rightarrow> (bool, 'z fsst_scheme) km" where
  "create_dots dp ip =
     kbind (get_i ip i_inum) (\<lambda>inum.
     kbind (dirlink ip [46] inum) (\<lambda>r.
       if r < 0 then kret False
       else
         kbind (get_i dp i_inum) (\<lambda>dinum.
         kbind (dirlink ip [46, 46] dinum) (\<lambda>r.
         kret (\<not> r < 0)))))"

definition create_link :: "nat \<Rightarrow> nat \<Rightarrow> u8 list \<Rightarrow> u16 \<Rightarrow> (nat option, 'z fsst_scheme) km" where
  "create_link dp ip name type =
     kbind (if type = T_DIR then create_dots dp ip else kret True) (\<lambda>ok.
       if \<not> ok then create_fail dp ip
       else
         kbind (get_i ip i_inum) (\<lambda>inum.
         kbind (dirlink dp name inum) (\<lambda>r.
           if r < 0 then create_fail dp ip
           else
             kthen (kwhen (type = T_DIR) (kthen (add_nlink dp 1) (iupdate dp)))
            (kthen (iunlockput dp)
             (kret (Some ip))))))"

definition create :: "u8 list \<Rightarrow> u16 \<Rightarrow> u16 \<Rightarrow> u16 \<Rightarrow> (nat option, 'z fsst_scheme) km" where
  "create path type major minor =
     kbind (nameiparent path) (\<lambda>r.
       case r of
         None \<Rightarrow> kret None
       | Some (dp, name) \<Rightarrow>
           kthen (ilock dp)
          (kbind (dirlookup dp name) (\<lambda>r.
             case r of
               Some (ip, _) \<Rightarrow>
                 kthen (iunlockput dp)
                (kthen (ilock ip)
                (kbind (get_d ip d_type) (\<lambda>ty.
                   if type = T_FILE \<and> (ty = T_FILE \<or> ty = T_DEVICE) then kret (Some ip)
                   else kthen (iunlockput ip) (kret None))))
             | None \<Rightarrow>
                 kbind (get_i dp i_dev) (\<lambda>dev.
                 kbind (ialloc dev type) (\<lambda>r.
                   case r of
                     None \<Rightarrow> kthen (iunlockput dp) (kret None)
                   | Some ip \<Rightarrow>
                       kthen (ilock ip)
                      (kthen (set_d ip (\<lambda>d. d\<lparr>d_major := major, d_minor := minor, d_nlink := 1\<rparr>))
                      (kthen (iupdate ip)
                       (create_link dp ip name type))))))))"

abbreviation (input) O_WRONLY :: u32 where "O_WRONLY \<equiv> 1"
abbreviation (input) O_RDWR :: u32 where "O_RDWR \<equiv> 2"
abbreviation (input) O_CREATE :: u32 where "O_CREATE \<equiv> 0x200"
abbreviation (input) O_TRUNC :: u32 where "O_TRUNC \<equiv> 0x400"

definition sys_open_inode :: "u8 list \<Rightarrow> u32 \<Rightarrow> (nat option, 'z fsst_scheme) km" where
  "sys_open_inode path omode =
     (if omode AND O_CREATE \<noteq> 0 then
        kbind (create path T_FILE 0 0) (\<lambda>r.
          case r of None \<Rightarrow> kthen end_op (kret None) | Some ip \<Rightarrow> kret (Some ip))
      else
        kbind (namei path) (\<lambda>r.
          case r of
            None \<Rightarrow> kthen end_op (kret None)
          | Some ip \<Rightarrow>
              kthen (ilock ip)
             (kbind (get_d ip d_type) (\<lambda>ty.
                if ty = T_DIR \<and> omode \<noteq> 0 then kthen (iunlockput ip) (kthen end_op (kret None))
                else kret (Some ip)))))"

definition sys_open_file :: "nat \<Rightarrow> nat \<Rightarrow> nat \<Rightarrow> u32 \<Rightarrow> (u64, 'z filest_scheme) km" where
  "sys_open_file ip f fd omode =
     kbind (get_d ip (\<lambda>d. d)) (\<lambda>d.
     kthen (if d_type d = T_DEVICE then set_f f (\<lambda>x. x\<lparr>f_type := FD_DEVICE, f_major := d_major d\<rparr>)
            else set_f f (\<lambda>x. x\<lparr>f_type := FD_INODE, f_off := 0\<rparr>))
    (kthen (set_f f (\<lambda>x. x\<lparr>f_ip := ip, f_readable := (omode AND O_WRONLY = 0),
        f_writable := (omode AND O_WRONLY \<noteq> 0 \<or> omode AND O_RDWR \<noteq> 0)\<rparr>))
    (kthen (kwhen (omode AND O_TRUNC \<noteq> 0 \<and> d_type d = T_FILE) (itrunc ip))
    (kthen (iunlock ip)
    (kthen end_op
     (kret (of_nat fd)))))))"

definition sys_open :: "(u64, 'z filest_scheme) km" where
  "sys_open =
     kbind (argint 1) (\<lambda>omode.
     kbind (argstr 0 MAXPATH) (\<lambda>(n, path).
       if n < 0 then kret (- 1)
       else
         kthen begin_op
        (kbind (sys_open_inode path omode) (\<lambda>r.
           case r of
             None \<Rightarrow> kret (- 1)
           | Some ip \<Rightarrow>
               kbind (get_d ip (\<lambda>d. d)) (\<lambda>d.
                 if d_type d = T_DEVICE \<and> (sint (d_major d) < 0 \<or> NDEV \<le> sint (d_major d))
                 then kthen (iunlockput ip) (kthen end_op (kret (- 1)))
                 else
                   kbind filealloc (\<lambda>r.
                     case r of
                       None \<Rightarrow> kthen (iunlockput ip) (kthen end_op (kret (- 1)))
                     | Some f \<Rightarrow>
                         kbind (fdalloc f) (\<lambda>r.
                           case r of
                             None \<Rightarrow>
                               kthen (fileclose f)
                              (kthen (iunlockput ip)
                              (kthen end_op
                               (kret (- 1))))
                           | Some fd \<Rightarrow> sys_open_file ip f fd omode)))))))"

text \<open>The common end of \<open>sys_mkdir\<close> and \<open>sys_mknod\<close>.\<close>

definition finish_create :: "nat option \<Rightarrow> (u64, 'z fsst_scheme) km" where
  "finish_create r =
     (case r of
        None \<Rightarrow> kthen end_op (kret (- 1))
      | Some ip \<Rightarrow> kthen (iunlockput ip) (kthen end_op (kret 0)))"

definition sys_mkdir :: "(u64, 'z fsst_scheme) km" where
  "sys_mkdir =
     kthen begin_op
    (kbind (argstr 0 MAXPATH) (\<lambda>(n, path).
     kbind (if n < 0 then kret None else create path T_DIR 0 0) finish_create))"

definition sys_mknod :: "(u64, 'z fsst_scheme) km" where
  "sys_mknod =
     kthen begin_op
    (kbind (argint 1) (\<lambda>major.
     kbind (argint 2) (\<lambda>minor.
     kbind (argstr 0 MAXPATH) (\<lambda>(n, path).
     kbind (if n < 0 then kret None else create path T_DEVICE (ucast major) (ucast minor))
       finish_create))))"

definition sys_chdir :: "(u64, 'z fsst_scheme) km" where
  "sys_chdir =
     kbind cur (\<lambda>p.
     kthen begin_op
    (kbind (argstr 0 MAXPATH) (\<lambda>(n, path).
     kbind (if n < 0 then kret None else namei path) (\<lambda>r.
       case r of
         None \<Rightarrow> kthen end_op (kret (- 1))
       | Some ip \<Rightarrow>
           kthen (ilock ip)
          (kbind (get_d ip d_type) (\<lambda>ty.
             if ty \<noteq> T_DIR then kthen (iunlockput ip) (kthen end_op (kret (- 1)))
             else
               kthen (iunlock ip)
              (kbind (get_proc p p_cwd) (\<lambda>cwd.
                 case cwd of
                   None \<Rightarrow> kpanic ''kerneltrap''
                 | Some old \<Rightarrow>
                     kthen (iput old)
                    (kthen end_op
                    (kthen (set_proc p (\<lambda>q. q\<lparr>p_cwd := Some ip\<rparr>))
                     (kret 0)))))))))))"

section \<open>exec and pipe\<close>

definition free_pages :: "u64 list \<Rightarrow> (unit, 'z memst_scheme) km" where
  "free_pages pgs = kfor pgs kfree"

text \<open>
  The loop of \<open>sys_exec\<close> that copies the argument strings into pages of their own; the
  result is the pages, and the strings unless it failed.
\<close>

definition sys_exec_body ::
    "u64 \<Rightarrow> nat \<times> u64 list \<times> u8 list list \<Rightarrow>
     ((nat \<times> u64 list \<times> u8 list list) + (u64 list \<times> u8 list list option), 'z procst_scheme) km" where
  "sys_exec_body uargv = (\<lambda>(i, pgs, strs).
     if MAXARG \<le> i then kret (Inr (pgs, None))
     else
       kbind (fetchaddr (uargv + 8 * of_nat i)) (\<lambda>(r, uarg).
         if r < 0 then kret (Inr (pgs, None))
         else if uarg = 0 then kret (Inr (pgs, Some strs))
         else
           kbind kalloc (\<lambda>pg.
             if pg = 0 then kret (Inr (pgs, None))
             else
               kbind (fetchstr uarg PGSIZE) (\<lambda>(r, buf).
               kthen (st_bytes pg buf)
               (if r < 0 then kret (Inr (pgs @ [pg], None))
                else kret (Inl (i + 1, pgs @ [pg], strs @ [takeWhile (\<lambda>c. c \<noteq> 0) buf])))))))"

definition sys_exec :: "(u64, 'z fsst_scheme) km" where
  "sys_exec =
     kbind (argaddr 1) (\<lambda>uargv.
     kbind (argstr 0 MAXPATH) (\<lambda>(n, path).
       if n < 0 then kret (- 1)
       else
         kbind (kloop (MAXARG + 1) (sys_exec_body uargv) (0, [], [])) (\<lambda>(pgs, r).
           case r of
             None \<Rightarrow> kthen (free_pages pgs) (kret (- 1))
           | Some strs \<Rightarrow>
               kbind (kexec path strs) (\<lambda>ret.
               kthen (free_pages pgs)
               (kret (of_int ret))))))"

definition sys_pipe_fail :: "nat \<Rightarrow> nat \<Rightarrow> (u64, 'z filest_scheme) km" where
  "sys_pipe_fail rf wr = kthen (fileclose rf) (kthen (fileclose wr) (kret (- 1)))"

definition sys_pipe_out :: "nat \<Rightarrow> u64 \<Rightarrow> nat \<Rightarrow> nat \<Rightarrow> nat \<Rightarrow> nat \<Rightarrow> (u64, 'z filest_scheme) km" where
  "sys_pipe_out p fdarray rf wr fd0 fd1 =
     kbind (get_proc p p_pagetable) (\<lambda>pt.
     kbind (copyout pt fdarray (le_split 4 (of_nat fd0 :: u32))) (\<lambda>r0.
     kbind (if r0 < 0 then kret (- 1)
            else copyout pt (fdarray + 4) (le_split 4 (of_nat fd1 :: u32))) (\<lambda>r1.
       if r1 < 0 then
         kthen (clear_fd p fd0)
        (kthen (clear_fd p fd1)
         (sys_pipe_fail rf wr))
       else kret 0)))"

definition sys_pipe :: "(u64, 'z filest_scheme) km" where
  "sys_pipe =
     kbind cur (\<lambda>p.
     kbind (argaddr 0) (\<lambda>fdarray.
     kbind pipealloc (\<lambda>r.
       case r of
         None \<Rightarrow> kret (- 1)
       | Some (rf, wr) \<Rightarrow>
           kbind (fdalloc rf) (\<lambda>r0.
             case r0 of
               None \<Rightarrow> sys_pipe_fail rf wr
             | Some fd0 \<Rightarrow>
                 kbind (fdalloc wr) (\<lambda>r1.
                   case r1 of
                     None \<Rightarrow> kthen (clear_fd p fd0) (sys_pipe_fail rf wr)
                   | Some fd1 \<Rightarrow> sys_pipe_out p fdarray rf wr fd0 fd1)))))"

section \<open>Dispatch\<close>

definition syscalls :: "int \<Rightarrow> (u64, 'z filest_scheme) km option" where
  "syscalls num =
     (if num = 1 then Some sys_fork
      else if num = 2 then Some sys_exit
      else if num = 3 then Some sys_wait
      else if num = 4 then Some sys_pipe
      else if num = 5 then Some sys_read
      else if num = 6 then Some sys_kill
      else if num = 7 then Some sys_exec
      else if num = 8 then Some sys_fstat
      else if num = 9 then Some sys_chdir
      else if num = 10 then Some sys_dup
      else if num = 11 then Some sys_getpid
      else if num = 12 then Some sys_sbrk
      else if num = 13 then Some sys_pause
      else if num = 14 then Some sys_uptime
      else if num = 15 then Some sys_open
      else if num = 16 then Some sys_write
      else if num = 17 then Some sys_mknod
      else if num = 18 then Some sys_unlink
      else if num = 19 then Some sys_link
      else if num = 20 then Some sys_mkdir
      else if num = 21 then Some sys_close
      else None)"

definition syscall :: "(unit, 'z filest_scheme) km" where
  "syscall =
     kbind cur (\<lambda>p.
     kbind (get_tf p TFa7) (\<lambda>a7.
       let num = sint (ucast a7 :: u32)
       in case syscalls num of
            Some h \<Rightarrow> kbind h (\<lambda>r. set_tf p TFa0 r)
          | None \<Rightarrow>
              kbind (get_proc p (\<lambda>q. q)) (\<lambda>q.
              kthen (printf (bytes_of ''%d %s: unknown sys call %d'' @ [10])
                [Num (of_int (p_pid q)), Str (Some (takeWhile (\<lambda>c. c \<noteq> 0) (p_name q))), Num (of_int num)])
              (set_tf p TFa0 (- 1)))))"

end
