(* ===== verification/Trap.thy ===== *)
theory Trap
  imports Syscall
begin

text \<open>
  Traps, interrupts and start-up: \<open>kernel/trap.c\<close>, \<open>kernel/plic.c\<close>, \<open>kernel/timer.c\<close>,
  \<open>kernel/main.c\<close>, \<open>kernel/start.c\<close> and \<open>ramdisk_init\<close> of \<open>kernel/ramdisk.c\<close>.
\<close>

section \<open>State\<close>

text \<open>
  Machine-mode registers that \<open>start\<close> writes on the hart it runs on.
\<close>

record mcsrs =
  m_mstatus :: u64
  m_mepc :: u64
  m_medeleg :: u64
  m_mideleg :: u64
  m_mie :: u64
  m_menvcfg :: u64
  m_mcounteren :: u64
  m_mxstatus :: u64
  m_pmpaddr3 :: u64
  m_pmpcfg0 :: u64
  m_tp :: u64

text \<open>
  The interrupt controller is outside the program: \<open>plic_pending h\<close> are the interrupts that
  successive claims of hart \<open>h\<close> return, and \<open>mmio\<close> lists the writes to its registers.
\<close>

record trapst = filest +
  plic_pending :: "nat \<Rightarrow> u32 list"
  mmio :: "(u64 \<times> u32) list"
  sie :: "nat \<Rightarrow> u64"
  mcsr :: mcsrs

section \<open>Interrupt controller and timer\<close>

abbreviation (input) UART0_IRQ :: u32 where "UART0_IRQ \<equiv> 16"
abbreviation (input) VIRTIO0_IRQ :: u32 where "VIRTIO0_IRQ \<equiv> 1"

definition mmio_write :: "u64 \<Rightarrow> u32 \<Rightarrow> (unit, 'z trapst_scheme) km" where
  "mmio_write a v = kmod (\<lambda>s. s\<lparr>mmio := mmio s @ [(a, v)]\<rparr>)"

definition plicinit :: "(unit, 'z trapst_scheme) km" where
  "plicinit = mmio_write (PLIC + ucast UART0_IRQ * 4) 1"

definition PLIC_SENABLE :: "nat \<Rightarrow> u64" where
  "PLIC_SENABLE h = PLIC + 0x2080 + of_nat h * 0x100"

definition PLIC_SPRIORITY :: "nat \<Rightarrow> u64" where
  "PLIC_SPRIORITY h = PLIC + 0x201000 + of_nat h * 0x2000"

definition PLIC_SCLAIM :: "nat \<Rightarrow> u64" where
  "PLIC_SCLAIM h = PLIC + 0x201004 + of_nat h * 0x2000"

definition plicinithart :: "(unit, 'z trapst_scheme) km" where
  "plicinithart =
     kbind (kget (\<lambda>s. cpuid (lks s))) (\<lambda>h.
     kthen (mmio_write (PLIC_SENABLE h) (push_bit (unat UART0_IRQ) 1))
     (mmio_write (PLIC_SPRIORITY h) 0))"

definition plic_claim :: "(u32, 'z trapst_scheme) km" where
  "plic_claim =
     kbind (kget (\<lambda>s. cpuid (lks s))) (\<lambda>h.
     kbind (kget (\<lambda>s. plic_pending s h)) (\<lambda>q.
     kthen (kmod (\<lambda>s. s\<lparr>plic_pending := (plic_pending s)(h := tl q)\<rparr>))
     (kret (if q = [] then 0 else hd q))))"

definition plic_complete :: "u32 \<Rightarrow> (unit, 'z trapst_scheme) km" where
  "plic_complete irq =
     kbind (kget (\<lambda>s. cpuid (lks s))) (\<lambda>h. mmio_write (PLIC_SCLAIM h) irq)"

definition set_timer :: "u64 \<Rightarrow> (unit, 'z procst_scheme) km" where
  "set_timer v = set_csr (\<lambda>c. c\<lparr>csr_stimecmp := v\<rparr>)"

definition timerinit :: "(unit, 'z trapst_scheme) km" where
  "timerinit =
     kthen (kmod (\<lambda>s. s\<lparr>sie := (sie s)(cpuid (lks s) := sie s (cpuid (lks s)) OR 0x20)\<rparr>))
    (kbind (kget timer) (\<lambda>t. set_timer (t + 270000)))"

section \<open>Traps\<close>

definition trapinit :: "(unit, 'z memst_scheme) km" where
  "trapinit = on_lks (initlock LTicks ''time'')"

definition trapinithart :: "(unit, 'z procst_scheme) km" where
  "trapinithart = kbind (kget ksym) (\<lambda>y. set_csr (\<lambda>c. c\<lparr>csr_stvec := sym_kernelvec y\<rparr>))"

definition clockintr :: "(unit, 'z procst_scheme) km" where
  "clockintr =
     kbind (kget (\<lambda>s. cpuid (lks s))) (\<lambda>h.
     kthen (kwhen (h = 0)
       (kthen (acquire LTicks)
       (kthen (kmod (\<lambda>s. s\<lparr>ticks := ticks s + 1\<rparr>))
       (kthen (wakeup (Some Cticks))
        (release LTicks)))))
    (kbind (kget timer) (\<lambda>t.
     set_csr (\<lambda>c. c\<lparr>csr_stimecmp := t + 1000000\<rparr>))))"

definition devintr :: "(int, 'z trapst_scheme) km" where
  "devintr =
     kbind (get_csr csr_scause) (\<lambda>scause.
       if scause = 0x8000000000000009 then
         kbind plic_claim (\<lambda>irq.
         kthen
           (if irq = UART0_IRQ then uartintr
            else if irq = VIRTIO0_IRQ then kret ()
            else kwhen (irq \<noteq> 0)
              (printf (bytes_of ''unexpected interrupt irq=%d'' @ [10]) [Num (ucast irq)]))
        (kthen (kwhen (irq \<noteq> 0) (plic_complete irq))
         (kret 1)))
       else if scause = 0x8000000000000005 then kthen clockintr (kret 2)
       else kret 0)"

text \<open>
  The body of \<open>if(which_dev == 2)\<close> is the next statement after the comments,
  \<open>w_sepc(sepc)\<close>.
\<close>

definition kerneltrap :: "(unit, 'z trapst_scheme) km" where
  "kerneltrap =
     kbind (get_csr (\<lambda>c. (csr_sepc c, csr_scause c))) (\<lambda>(sepc, scause).
     kbind (kget (\<lambda>s. r_sstatus (lks s))) (\<lambda>sstatus.
       if sstatus AND SSTATUS_SPP = 0 then kpanic ''kerneltrap: not from supervisor mode''
       else kbind (kget (\<lambda>s. intr_get (lks s))) (\<lambda>i.
       if i then kpanic ''kerneltrap: interrupts enabled''
       else
         kbind devintr (\<lambda>which_dev.
           if which_dev = 0 then
             kbind (get_csr (\<lambda>c. (csr_sepc c, csr_stval c))) (\<lambda>(e, v).
             kthen (printf (bytes_of ''scause=0x%p sepc=0x%p stval=0x%p'' @ [10]) [Num scause, Num e, Num v])
             (kpanic ''kerneltrap''))
           else
             kthen (kwhen (which_dev = 2) (set_csr (\<lambda>c. c\<lparr>csr_sepc := sepc\<rparr>)))
             (on_lks (w_sstatus sstatus))))))"

definition usertrap_syscall :: "nat \<Rightarrow> (unit, 'z trapst_scheme) km" where
  "usertrap_syscall p =
     kbind (killed p) (\<lambda>k.
     kthen (kwhen k (kexit (- 1)))
    (kbind (get_tf p TFepc) (\<lambda>epc.
     kthen (set_tf p TFepc (epc + 4))
    (kthen (on_lks intr_on)
     syscall))))"

definition usertrap_fault :: "nat \<Rightarrow> (unit, 'z trapst_scheme) km" where
  "usertrap_fault p =
     kbind (get_csr (\<lambda>c. c)) (\<lambda>c.
       if csr_scause c = 15 \<or> csr_scause c = 13 then
         kbind (get_proc p p_pagetable) (\<lambda>pt.
         kbind (vmfault pt (csr_stval c)) (\<lambda>_. kret ()))
       else
         kbind (get_proc p p_pid) (\<lambda>pid.
         kthen (printf (bytes_of ''usertrap(): unexpected scause 0x%lx pid=%d'' @ [10])
            [Num (csr_scause c), Num (of_int pid)])
        (kthen (printf (bytes_of ''            sepc=0x%lx stval=0x%lx'' @ [10])
            [Num (csr_sepc c), Num (csr_stval c)])
         (setkilled p))))"

definition usertrap :: "(u64, 'z trapst_scheme) km" where
  "usertrap =
     kbind (kget (\<lambda>s. r_sstatus (lks s))) (\<lambda>st.
       if st AND SSTATUS_SPP \<noteq> 0 then kpanic ''usertrap: not from user mode''
       else
         kthen trapinithart
        (kbind cur (\<lambda>p.
         kbind (get_csr csr_sepc) (\<lambda>sepc.
         kthen (set_tf p TFepc sepc)
        (kbind (get_csr csr_scause) (\<lambda>scause.
         kbind (if scause = 8 then kthen (usertrap_syscall p) (kret 0)
                else
                  kbind devintr (\<lambda>w.
                    if w \<noteq> 0 then kret w else kthen (usertrap_fault p) (kret 0))) (\<lambda>which_dev.
         kbind (killed p) (\<lambda>k.
         kthen (kwhen k (kexit (- 1)))
        (kthen (kwhen (which_dev = 2) yield)
        (kthen prepare_return
        (kbind (get_proc p p_pagetable) (\<lambda>pt.
         kret (MAKE_SATP pt)))))))))))))"

section \<open>Start-up\<close>

text \<open>The image lies at \<open>fs_img_start\<close>, an address of the linker.\<close>

definition ramdisk_init :: "u64 \<Rightarrow> (unit, 'z consst_scheme) km" where
  "ramdisk_init fs_img_start =
     kbind (kget rdisk_size) (\<lambda>size0.
     printf (bytes_of ''ramdisk: mapped at %p - %p, size %d KB'' @ [10])
       [Num fs_img_start, Num (fs_img_start + of_nat size0), Num (of_nat (size0 div 1024))])"

definition main :: "u64 \<Rightarrow> nat \<Rightarrow> (unit, 'z trapst_scheme) km" where
  "main fs_img_start passes =
     kbind (kget (\<lambda>s. cpuid (lks s))) (\<lambda>h.
     kthen (kwhen (h = 0)
       (kthen consoleinit
       (kthen (on_lks cpuinit)
       (kthen kinit
       (kthen kvminit
       (kthen kvminithart
       (kthen procinit
       (kthen trapinit
       (kthen trapinithart
       (kthen plicinit
       (kthen plicinithart
       (kthen binit
       (kthen iinit
       (kthen fileinit
       (kthen (ramdisk_init fs_img_start)
        userinit)))))))))))))))
    (kthen (printf (bytes_of ''hart %d starting'' @ [10]) [Num (of_nat h)])
     (scheduler passes)))"

definition set_m :: "(mcsrs \<Rightarrow> mcsrs) \<Rightarrow> (unit, 'z trapst_scheme) km" where
  "set_m f = kmod (\<lambda>s. s\<lparr>mcsr := f (mcsr s)\<rparr>)"

definition timer_s_init :: "(unit, 'z trapst_scheme) km" where
  "timer_s_init =
     kthen (set_m (\<lambda>m. m\<lparr>m_mie := m_mie m OR 0x20\<rparr>))
    (kthen (set_m (\<lambda>m. m\<lparr>m_menvcfg := m_menvcfg m OR push_bit 63 1\<rparr>))
    (kthen (set_m (\<lambda>m. m\<lparr>m_mcounteren := m_mcounteren m OR 2\<rparr>))
    (kbind (kget timer) (\<lambda>t.
     set_csr (\<lambda>c. c\<lparr>csr_stimecmp := t + 1000000\<rparr>)))))"

text \<open>
  \<open>start\<close> on the hart with the given number, up to \<open>mret\<close>: \<open>edata\<close> and \<open>main_addr\<close> are addresses of
  the linker, and the byte loop clears the memory from \<open>edata\<close> to the end of the kernel.
\<close>

definition start :: "u64 \<Rightarrow> u64 \<Rightarrow> nat \<Rightarrow> (unit, 'z trapst_scheme) km" where
  "start edata main_addr mhartid =
     kthen (kmod (\<lambda>s. s\<lparr>mem := (\<lambda>a. if edata \<le> a \<and> a < k_end s then 0 else mem s a)\<rparr>))
    (kthen (set_m (\<lambda>m. m\<lparr>m_mstatus := (m_mstatus m AND NOT 0x1800) OR 0x800\<rparr>))
    (kthen (set_m (\<lambda>m. m\<lparr>m_mepc := main_addr\<rparr>))
    (kthen (set_csr (\<lambda>c. c\<lparr>csr_satp := 0\<rparr>))
    (kthen (set_m (\<lambda>m. m\<lparr>m_medeleg := 0xffff AND NOT 0x200\<rparr>))
    (kthen (set_m (\<lambda>m. m\<lparr>m_mideleg := 0xffff\<rparr>))
    (kthen (kmod (\<lambda>s. s\<lparr>sie := (sie s)(cpuid (lks s) := sie s (cpuid (lks s)) OR 0x200 OR 0x20)\<rparr>))
    (kthen timer_s_init
    (kthen (mmio_write (PLIC + 0x01FFFFC) 1)
    (kthen (set_m (\<lambda>m. m\<lparr>m_pmpaddr3 := - 1\<rparr>))
    (kthen (set_m (\<lambda>m. m\<lparr>m_pmpcfg0 := push_bit 24 0x1f\<rparr>))
     (set_m (\<lambda>m. m\<lparr>m_tp := of_nat mhartid\<rparr>))))))))))))"

end
