(* ===== verification/Kinv.thy ===== *)
theory Kinv
  imports Rely Trap
begin

text \<open>
  The data-type invariant of the kernel: the fixed-size arrays inside inodes and buffers keep their size,
  the console and pipe buffers never hold more than they can, the log never has more blocks than
  its header, and no file has a negative reference count. Every routine of the kernel keeps it, whatever
  the other threads do while the routine sleeps; this theory goes up to the file system.
\<close>

section \<open>The invariant\<close>

definition pipe_ok :: "pipe \<Rightarrow> bool" where
  "pipe_ok x \<longleftrightarrow> pi_nwrite x - pi_nread x \<le> PIPESIZE"

definition cons_ok :: "consbuf \<Rightarrow> bool" where
  "cons_ok c \<longleftrightarrow> cons_e c - cons_r c \<le> INPUT_BUF_SIZE \<and> cons_w c - cons_r c \<le> cons_e c - cons_r c"

definition buf_ok :: "buf \<Rightarrow> bool" where
  "buf_ok x \<longleftrightarrow> length (b_data x) = BSIZE"

definition din_ok :: "dinode \<Rightarrow> bool" where
  "din_ok d \<longleftrightarrow> length (d_addrs d) = NDIRECT + 1"

definition log_ok :: "wal \<Rightarrow> bool" where
  "log_ok l \<longleftrightarrow> lh_n l \<le> int LOGBLOCKS"

definition kinv :: "'z filest_scheme \<Rightarrow> bool" where
  "kinv s \<longleftrightarrow> (\<forall>b. buf_ok (bufs s b)) \<and> log_ok (klog s) \<and> (\<forall>i. din_ok (i_din (itable s i))) \<and>
     cons_ok (cons s) \<and> (\<forall>f. 0 \<le> f_ref (ftable s f)) \<and> (\<forall>p. pipe_ok (pipes s p))"

lemma kinv_other [simp]:
  "kinv (s\<lparr>lks := a1\<rparr>) = kinv s" "kinv (s\<lparr>mem := a2\<rparr>) = kinv s" "kinv (s\<lparr>freelist := a3\<rparr>) = kinv s"
  "kinv (s\<lparr>procs := a4\<rparr>) = kinv s" "kinv (s\<lparr>nextpid := a5\<rparr>) = kinv s" "kinv (s\<lparr>initproc := a6\<rparr>) = kinv s"
  "kinv (s\<lparr>ticks := a7\<rparr>) = kinv s" "kinv (s\<lparr>kernel_pagetable := a8\<rparr>) = kinv s" "kinv (s\<lparr>csr := a9\<rparr>) = kinv s"
  "kinv (s\<lparr>fork_first := b1\<rparr>) = kinv s" "kinv (s\<lparr>timer := b2\<rparr>) = kinv s" "kinv (s\<lparr>slocks := b3\<rparr>) = kinv s"
  "kinv (s\<lparr>rdisk := b4\<rparr>) = kinv s" "kinv (s\<lparr>rdisk_size := b5\<rparr>) = kinv s" "kinv (s\<lparr>disk_writes := b6\<rparr>) = kinv s"
  "kinv (s\<lparr>sb := b7\<rparr>) = kinv s" "kinv (s\<lparr>junk := b8\<rparr>) = kinv s" "kinv (s\<lparr>uart := b9\<rparr>) = kinv s"
  "kinv (s\<lparr>panicking := c1\<rparr>) = kinv s" "kinv (s\<lparr>panicked := c2\<rparr>) = kinv s"
  "kinv (s\<lparr>devsw_read := c3\<rparr>) = kinv s" "kinv (s\<lparr>devsw_write := c4\<rparr>) = kinv s"
  by (simp_all add: kinv_def)

lemma kinv_trap [simp]:
  "kinv (t\<lparr>plic_pending := d1\<rparr>) = kinv t" "kinv (t\<lparr>mmio := d2\<rparr>) = kinv t"
  "kinv (t\<lparr>sie := d3\<rparr>) = kinv t" "kinv (t\<lparr>mcsr := d4\<rparr>) = kinv t"
  by (simp_all add: kinv_def)

lemma kinv_parts:
  "kinv s \<Longrightarrow> buf_ok (bufs s b)" "kinv s \<Longrightarrow> log_ok (klog s)" "kinv s \<Longrightarrow> din_ok (i_din (itable s i))"
  "kinv s \<Longrightarrow> cons_ok (cons s)" "kinv s \<Longrightarrow> 0 \<le> f_ref (ftable s f)" "kinv s \<Longrightarrow> pipe_ok (pipes s p)"
  by (simp_all add: kinv_def)

lemma kinv_set [simp]:
  "kinv s \<Longrightarrow> kinv (s\<lparr>bufs := (bufs s)(b := x)\<rparr>) = buf_ok x"
  "kinv s \<Longrightarrow> kinv (s\<lparr>klog := l\<rparr>) = log_ok l"
  "kinv s \<Longrightarrow> kinv (s\<lparr>itable := (itable s)(i := y)\<rparr>) = din_ok (i_din y)"
  "kinv s \<Longrightarrow> kinv (s\<lparr>cons := c\<rparr>) = cons_ok c"
  "kinv s \<Longrightarrow> kinv (s\<lparr>ftable := (ftable s)(f := z)\<rparr>) = (0 \<le> f_ref z)"
  "kinv s \<Longrightarrow> kinv (s\<lparr>pipes := (pipes s)(p := w)\<rparr>) = pipe_ok w"
  by (auto simp: kinv_def)

lemma mt_set [mt_rules]:
  "(\<And>x. buf_ok x \<Longrightarrow> buf_ok (f1 x)) \<Longrightarrow> maintains kinv (set_buf b f1)"
  "(\<And>d. length d = BSIZE \<Longrightarrow> length (f2 d) = BSIZE) \<Longrightarrow> maintains kinv (set_data b f2)"
  "(\<And>x. log_ok x \<Longrightarrow> log_ok (f3 x)) \<Longrightarrow> maintains kinv (set_log f3)"
  "(\<And>x. din_ok (i_din x) \<Longrightarrow> din_ok (i_din (f4 x))) \<Longrightarrow> maintains kinv (set_i i f4)"
  "(\<And>x. din_ok x \<Longrightarrow> din_ok (f5 x)) \<Longrightarrow> maintains kinv (set_d i f5)"
  "(\<And>x. cons_ok x \<Longrightarrow> cons_ok (f6 x)) \<Longrightarrow> maintains kinv (set_cons f6)"
  "(\<And>x. 0 \<le> f_ref x \<Longrightarrow> 0 \<le> f_ref (f7 x)) \<Longrightarrow> maintains kinv (set_f k f7)"
  "(\<And>x. pipe_ok x \<Longrightarrow> pipe_ok (f8 x)) \<Longrightarrow> maintains kinv (set_pipe p f8)"
  unfolding set_buf_def set_log_def set_i_def set_d_def set_cons_def set_f_def set_pipe_def set_data_def
  by (intro mt_rules; simp add: kinv_parts; simp add: buf_ok_def kinv_def)+

lemma mt_read [mt_rules]:
  "maintains kinv (get_buf b g1)" "maintains kinv (get_log g2)" "maintains kinv (get_i i g3)" "maintains kinv (get_d i g4)"
  "maintains kinv (get_cons g5)" "maintains kinv (get_f f g6)" "maintains kinv (get_pipe p g7)"
  "maintains kinv (get_sl l g8)" "maintains kinv (get_uart g9)"
  by (simp_all add: mt_rules)

lemma mt_acc [mt_rules]:
  "maintains kinv (ld64 a)" "maintains kinv (st64 a v)" "maintains kinv (kmemset a c n)" "maintains kinv (kmemmove a b n)"
  "maintains kinv (st_bytes a bs)" "maintains kinv (set_proc p f)" "maintains kinv (get_proc p g)"
  "maintains kinv (get_tf p r)" "maintains kinv (set_tf p r w)" "maintains kinv (set_csr h)" "maintains kinv (get_csr j)"
  "maintains kinv (on_lks q)" "maintains kinv (deref64 a)" "maintains kinv (set_sl l k)" "maintains kinv (set_uart u)"
  by (simp_all add: mt_rules deref64_def)

lemma mt_acquire [mt_rules]: "maintains kinv (acquire lk)" "maintains kinv (release lk)"
  by (intro maintainsI rg_intros; simp)+

lemma mt_klift_lks [mt_rules]:
  assumes "nosw m"
  shows "maintains (kinv :: 'z filest_scheme \<Rightarrow> bool) (klift lks (\<lambda>l s. s\<lparr>lks := l\<rparr>) m)"
proof (rule maintainsI)
  fix s :: "'z filest_scheme"
  assume "kinv s"
  then show "rg kinv (klift lks (\<lambda>l s. s\<lparr>lks := l\<rparr>) m) (\<lambda>_. kinv) s"
    using assms by (cases "m (lks s)") (simp_all add: rg_def klift_def nosw_def)
qed

lemma ok_other [simp]:
  "buf_ok (x\<lparr>b_valid := a1\<rparr>) = buf_ok x" "buf_ok (x\<lparr>b_dev := a2\<rparr>) = buf_ok x" "buf_ok (x\<lparr>b_blockno := a3\<rparr>) = buf_ok x"
  "buf_ok (x\<lparr>b_refcnt := a4\<rparr>) = buf_ok x" "buf_ok (x\<lparr>b_prev := a5\<rparr>) = buf_ok x" "buf_ok (x\<lparr>b_next := a6\<rparr>) = buf_ok x"
  "buf_ok (x\<lparr>b_data := d\<rparr>) = (length d = BSIZE)"
  "log_ok (l\<lparr>lg_start := b1\<rparr>) = log_ok l" "log_ok (l\<lparr>lg_outstanding := b2\<rparr>) = log_ok l"
  "log_ok (l\<lparr>lg_committing := b3\<rparr>) = log_ok l" "log_ok (l\<lparr>lg_dev := b4\<rparr>) = log_ok l" "log_ok (l\<lparr>lh_block := b5\<rparr>) = log_ok l"
  "log_ok (l\<lparr>lh_n := n\<rparr>) = (n \<le> int LOGBLOCKS)"
  "din_ok (e\<lparr>d_type := c1\<rparr>) = din_ok e" "din_ok (e\<lparr>d_major := c2\<rparr>) = din_ok e" "din_ok (e\<lparr>d_minor := c3\<rparr>) = din_ok e"
  "din_ok (e\<lparr>d_nlink := c4\<rparr>) = din_ok e" "din_ok (e\<lparr>d_size := c5\<rparr>) = din_ok e"
  "din_ok (e\<lparr>d_addrs := c6\<rparr>) = (length c6 = NDIRECT + 1)"
  "cons_ok (c\<lparr>cons_buf := d1\<rparr>) = cons_ok c"
  "pipe_ok (p\<lparr>pi_data := e1\<rparr>) = pipe_ok p" "pipe_ok (p\<lparr>pi_readopen := e2\<rparr>) = pipe_ok p"
  "pipe_ok (p\<lparr>pi_writeopen := e3\<rparr>) = pipe_ok p"
  by (simp_all add: buf_ok_def log_ok_def din_ok_def cons_ok_def pipe_ok_def)

lemma mt_get_buf: "(\<And>x. buf_ok x \<Longrightarrow> maintains kinv (f (g x))) \<Longrightarrow> maintains kinv (kbind (get_buf b g) f)"
  by (intro maintainsI rg_intros) (simp add: rg_def maintains_def kinv_parts)

lemma mt_get_d: "(\<And>x. din_ok x \<Longrightarrow> maintains kinv (f (g x))) \<Longrightarrow> maintains kinv (kbind (get_d i g) f)"
  by (intro maintainsI rg_intros) (simp add: rg_def maintains_def kinv_parts)

lemma mt_get_i: "(\<And>x. din_ok (i_din x) \<Longrightarrow> maintains kinv (f (g x))) \<Longrightarrow> maintains kinv (kbind (get_i i g) f)"
  by (intro maintainsI rg_intros) (simp add: rg_def maintains_def kinv_parts)

section \<open>Memory\<close>

lemma mt_myproc [mt_rules]: "maintains kinv myproc"
  unfolding myproc_def by (intro mt_rules nosw_rules; simp)

lemma mt_cur [mt_rules]: "maintains kinv cur"
  unfolding cur_def by (intro mt_rules; simp)
lemma mt_kfree [mt_rules]: "maintains kinv (kfree x1)"
  unfolding kfree_def by (intro mt_rules; simp)

lemma mt_kalloc [mt_rules]: "maintains kinv kalloc"
  unfolding kalloc_def by (intro mt_rules; simp)

lemma mt_freerange_loop [mt_rules]: "maintains kinv (freerange_loop x1 x2 x3)"
  by (induction x1 arbitrary: x2 x3) (auto intro!: mt_rules)

lemma mt_freerange [mt_rules]: "maintains kinv (freerange x1 x2)"
  unfolding freerange_def by (intro mt_rules; simp)

lemma mt_kinit [mt_rules]: "maintains kinv kinit"
  unfolding kinit_def
  by (intro mt_rules mt_read_state [where m = "\<lambda>x. freerange x PHYSTOP" and f = k_end]) simp

section \<open>Virtual memory\<close>

lemma mt_walk_from [mt_rules]: "maintains kinv (walk_from x1 x2 x3 x4)"
  by (induction x1 arbitrary: x2 x3 x4) (auto intro!: mt_rules)

lemma mt_walk [mt_rules]: "maintains kinv (walk x1 x2 x3)"
  unfolding walk_def by (intro mt_rules; simp)

lemma mt_mappages_body [mt_rules]: "maintains kinv (mappages_body x1 x2 x3 x4)"
  unfolding mappages_body_def by (intro mt_rules; simp)

lemma mt_mappages [mt_rules]: "maintains kinv (mappages x1 x2 x3 x4 x5)"
  unfolding mappages_def by (intro mt_rules; simp)

lemma mt_kvmmap [mt_rules]: "maintains kinv (kvmmap x1 x2 x3 x4 x5)"
  unfolding kvmmap_def by (intro mt_rules; simp)

lemma mt_proc_mapstacks [mt_rules]: "maintains kinv (proc_mapstacks x1)"
  unfolding proc_mapstacks_def by (intro mt_rules; simp)

lemma mt_kvmmake [mt_rules]: "maintains kinv kvmmake"
  unfolding kvmmake_def by (intro mt_rules; simp)

lemma mt_kvminit [mt_rules]: "maintains kinv kvminit"
  unfolding kvminit_def by (intro mt_rules; simp)

lemma mt_kvminithart [mt_rules]: "maintains kinv kvminithart"
  unfolding kvminithart_def by (intro mt_rules; simp)

lemma mt_uvmunmap [mt_rules]: "maintains kinv (uvmunmap x1 x2 x3 x4)"
  unfolding uvmunmap_def by (intro mt_rules; simp)

lemma mt_freewalk_at [mt_rules]: "maintains kinv (freewalk_at x1 x2)"
  by (induction x1 arbitrary: x2) (auto intro!: mt_rules)

lemma mt_freewalk [mt_rules]: "maintains kinv (freewalk x1)"
  unfolding freewalk_def by (intro mt_rules; simp)

lemma mt_uvmfree [mt_rules]: "maintains kinv (uvmfree x1 x2)"
  unfolding uvmfree_def by (intro mt_rules; simp)

lemma mt_uvmcreate [mt_rules]: "maintains kinv uvmcreate"
  unfolding uvmcreate_def by (intro mt_rules; simp)

lemma mt_uvmdealloc [mt_rules]: "maintains kinv (uvmdealloc x1 x2 x3)"
  unfolding uvmdealloc_def Let_def by (intro mt_rules; simp)

lemma mt_uvmalloc [mt_rules]: "maintains kinv (uvmalloc x1 x2 x3 x4)"
  unfolding uvmalloc_def Let_def by (intro mt_rules; simp)

lemma mt_uvminit [mt_rules]: "maintains kinv (uvminit x1 x2)"
  unfolding uvminit_def by (intro mt_rules; simp)

lemma mt_uvmclear [mt_rules]: "maintains kinv (uvmclear x1 x2)"
  unfolding uvmclear_def by (intro mt_rules; simp)

lemma mt_uvmcopy [mt_rules]: "maintains kinv (uvmcopy x1 x2 x3)"
  unfolding uvmcopy_def by (intro mt_rules; simp)

lemma mt_walkaddr [mt_rules]: "maintains kinv (walkaddr x1 x2)"
  unfolding walkaddr_def by (intro mt_rules; simp)

lemma mt_ismapped [mt_rules]: "maintains kinv (ismapped x1 x2)"
  unfolding ismapped_def by (intro mt_rules; simp)

lemma mt_vmfault [mt_rules]: "maintains kinv (vmfault x1 x2)"
  unfolding vmfault_def Let_def by (intro mt_rules; simp)

lemma mt_user_page [mt_rules]: "maintains kinv (user_page x1 x2)"
  unfolding user_page_def by (intro mt_rules; simp)

lemma mt_copyout [mt_rules]: "maintains kinv (copyout x1 x2 x3)"
  unfolding copyout_def Let_def by (intro mt_rules; simp)

lemma mt_copyin [mt_rules]: "maintains kinv (copyin x1 x2 x3)"
  unfolding copyin_def Let_def by (intro mt_rules; simp)

lemma mt_copyinstr [mt_rules]: "maintains kinv (copyinstr x1 x2 x3)"
  unfolding copyinstr_def Let_def by (intro mt_rules; simp)

section \<open>Processes\<close>

lemma mt_procinit [mt_rules]: "maintains kinv procinit"
  unfolding procinit_def by (intro mt_rules; simp)

lemma mt_swtch [mt_rules]: "maintains kinv swtch"
  by (simp add: swtch_def maintains_def rg_def)

lemma mt_set_cpu_proc [mt_rules]: "maintains kinv (set_cpu_proc x1 x2)"
  unfolding set_cpu_proc_def by (intro mt_rules; simp)

lemma mt_sched_scan [mt_rules]: "maintains kinv (sched_scan x1 x2 x3)"
  by (induction x2 arbitrary: x1 x3) (auto intro!: mt_rules)

lemma mt_scheduler [mt_rules]: "maintains kinv (scheduler n)"
  unfolding scheduler_def Let_def
  by (rule mt_read_state [where f = "\<lambda>s. cpuid (lks s)"]) (intro mt_rules)

lemma mt_sched [mt_rules]: "maintains kinv sched"
  unfolding sched_def Let_def
  by (intro mt_rules) (rule mt_read_state [where f = "\<lambda>s. intena (mycpu (lks s))"], intro mt_rules)

lemma mt_yield [mt_rules]: "maintains kinv yield"
  unfolding yield_def by (intro mt_rules; simp)

lemma mt_proc_freepagetable [mt_rules]: "maintains kinv (proc_freepagetable x1 x2)"
  unfolding proc_freepagetable_def by (intro mt_rules; simp)

lemma mt_freeproc [mt_rules]: "maintains kinv (freeproc x1)"
  unfolding freeproc_def by (intro mt_rules; simp)

lemma mt_allocpid [mt_rules]: "maintains kinv allocpid"
  unfolding allocpid_def by (intro mt_rules; simp)

lemma mt_proc_pagetable [mt_rules]: "maintains kinv (proc_pagetable x1)"
  unfolding proc_pagetable_def by (intro mt_rules; simp)

lemma mt_allocproc_undo [mt_rules]: "maintains kinv (allocproc_undo x1)"
  unfolding allocproc_undo_def by (intro mt_rules; simp)

lemma mt_allocproc_pt [mt_rules]: "maintains kinv (allocproc_pt x1 x2)"
  unfolding allocproc_pt_def by (intro mt_rules; simp)

lemma mt_allocproc_tf [mt_rules]: "maintains kinv (allocproc_tf x1 x2)"
  unfolding allocproc_tf_def by (intro mt_rules; simp)

lemma mt_allocproc_found [mt_rules]: "maintains kinv (allocproc_found x1)"
  unfolding allocproc_found_def by (intro mt_rules; simp)

lemma mt_allocproc_at [mt_rules]: "maintains kinv (allocproc_at x1)"
  unfolding allocproc_at_def by (intro mt_rules; simp)

lemma mt_allocproc [mt_rules]: "maintains kinv allocproc"
  unfolding allocproc_def by (intro mt_rules; simp)

lemma mt_prepare_return [mt_rules]: "maintains kinv prepare_return"
  unfolding prepare_return_def by (intro mt_rules; simp)

lemma mt_growproc [mt_rules]: "maintains kinv (growproc x1)"
  unfolding growproc_def by (intro mt_rules; simp)

lemma mt_sleep [mt_rules]: "maintains kinv (sleep x1 x2)"
  unfolding sleep_def by (intro mt_rules; simp)

lemma mt_wakeup_at [mt_rules]: "maintains kinv (wakeup_at x1 x2)"
  unfolding wakeup_at_def by (intro mt_rules; simp)

lemma mt_wakeup [mt_rules]: "maintains kinv (wakeup x1)"
  unfolding wakeup_def by (intro mt_rules; simp)

lemma mt_setkilled [mt_rules]: "maintains kinv (setkilled x1)"
  unfolding setkilled_def by (intro mt_rules; simp)

lemma mt_killed [mt_rules]: "maintains kinv (killed x1)"
  unfolding killed_def by (intro mt_rules; simp)

lemma mt_kkill_at [mt_rules]: "maintains kinv (kkill_at x1 x2)"
  unfolding kkill_at_def by (intro mt_rules; simp)

lemma mt_kkill [mt_rules]: "maintains kinv (kkill x1)"
  unfolding kkill_def by (intro mt_rules; simp)

lemma mt_reparent_at [mt_rules]: "maintains kinv (reparent_at x1 x2)"
  unfolding reparent_at_def by (intro mt_rules; simp)

lemma mt_reparent [mt_rules]: "maintains kinv (reparent x1)"
  unfolding reparent_def by (intro mt_rules; simp)

lemma mt_kexit [mt_rules]: "maintains kinv (kexit x1)"
  unfolding kexit_def by (intro mt_rules; simp)

lemma mt_kwait_scan [mt_rules]: "maintains kinv (kwait_scan x1 x2 x3 x4)"
  by (induction x3 arbitrary: x1 x2 x4) (auto intro!: mt_rules)

lemma mt_kwait [mt_rules]: "maintains kinv (kwait x1)"
  unfolding kwait_def by (intro mt_rules; simp)

lemma mt_either_copyout [mt_rules]: "maintains kinv (either_copyout x1 x2 x3)"
  unfolding either_copyout_def by (intro mt_rules; simp)

lemma mt_either_copyin [mt_rules]: "maintains kinv (either_copyin x1 x2 x3)"
  unfolding either_copyin_def by (intro mt_rules; simp)

section \<open>Sleep locks\<close>

lemma mt_initsleeplock [mt_rules]: "maintains kinv (initsleeplock x1 x2)"
  unfolding initsleeplock_def by (intro mt_rules; simp)

lemma mt_acquiresleep_body [mt_rules]: "maintains kinv (acquiresleep_body x1 x2)"
  unfolding acquiresleep_body_def by (intro mt_rules; simp)

lemma mt_acquiresleep [mt_rules]: "maintains kinv (acquiresleep x1)"
  unfolding acquiresleep_def by (intro mt_rules; simp)

lemma mt_releasesleep [mt_rules]: "maintains kinv (releasesleep x1)"
  unfolding releasesleep_def by (intro mt_rules; simp)

lemma mt_holdingsleep [mt_rules]: "maintains kinv (holdingsleep x1)"
  unfolding holdingsleep_def by (intro mt_rules; simp)

section \<open>The buffer cache\<close>

lemma mt_ramdisk_rw [mt_rules]: "maintains kinv (ramdisk_rw b wr)"
  unfolding ramdisk_rw_def Let_def by (intro mt_rules; simp add: rd_read_def)

lemma mt_lru_push [mt_rules]: "maintains kinv (lru_push x1)"
  unfolding lru_push_def by (intro mt_rules; simp)

lemma mt_binit_at [mt_rules]: "maintains kinv (binit_at x1)"
  unfolding binit_at_def by (intro mt_rules; simp)

lemma mt_binit [mt_rules]: "maintains kinv binit"
  unfolding binit_def by (intro mt_rules; simp)

lemma mt_bget_find_body [mt_rules]: "maintains kinv (bget_find_body x1 x2 x3)"
  unfolding bget_find_body_def by (intro mt_rules; simp)

lemma mt_bget_find [mt_rules]: "maintains kinv (bget_find x1 x2)"
  unfolding bget_find_def by (intro mt_rules; simp)

lemma mt_bget_victim_body [mt_rules]: "maintains kinv (bget_victim_body x1)"
  unfolding bget_victim_body_def by (intro mt_rules; simp)

lemma mt_bget_victim [mt_rules]: "maintains kinv bget_victim"
  unfolding bget_victim_def by (intro mt_rules; simp)

lemma mt_bget [mt_rules]: "maintains kinv (bget x1 x2)"
  unfolding bget_def by (intro mt_rules; simp)

lemma mt_bread [mt_rules]: "maintains kinv (bread x1 x2)"
  unfolding bread_def by (intro mt_rules; simp)

lemma mt_bwrite [mt_rules]: "maintains kinv (bwrite x1)"
  unfolding bwrite_def by (intro mt_rules; simp)

lemma mt_lru_unlink [mt_rules]: "maintains kinv (lru_unlink x1)"
  unfolding lru_unlink_def by (intro mt_rules; simp)

lemma mt_brelse [mt_rules]: "maintains kinv (brelse x1)"
  unfolding brelse_def by (intro mt_rules; simp)

lemma mt_bpin [mt_rules]: "maintains kinv (bpin x1)"
  unfolding bpin_def by (intro mt_rules; simp)

lemma mt_bunpin [mt_rules]: "maintains kinv (bunpin x1)"
  unfolding bunpin_def by (intro mt_rules; simp)

section \<open>The log\<close>

lemma mt_undefined_behaviour [mt_rules]: "maintains kinv undefined_behaviour"
  unfolding undefined_behaviour_def by (intro mt_rules; simp)

lemma mt_install_trans_at [mt_rules]: "maintains kinv (install_trans_at r tail)"
  unfolding install_trans_at_def by (intro mt_get_buf mt_rules; simp add: buf_ok_def)

lemma mt_install_trans [mt_rules]: "maintains kinv (install_trans x1)"
  unfolding install_trans_def by (intro mt_rules; simp)

text \<open>A header with too large a count ends the loop of \<open>read_head\<close> outside the array.\<close>

lemma wlp_for_stops:
  assumes "i \<in> set is" and "\<And>Q s. wlp (body i) Q s"
  shows "wlp (kfor is body) Q s"
  using assms(1)
proof (induction "is" arbitrary: s)
  case (Cons j js)
  show ?case
  proof (cases "j = i")
    case True
    then show ?thesis using assms(2) by (simp add: wp_rules)
  next
    case False
    then have "i \<in> set js" using Cons.prems by simp
    then show ?thesis by (simp add: wp_rules wlp_any Cons.IH)
  qed
qed simp

lemma mt_read_head_tail:
  "maintains kinv (kthen (set_log (\<lambda>l. l\<lparr>lh_n := n\<rparr>)) (kbind (get_log lh_n) (\<lambda>n.
     kthen (kfor [0..<nat n] (read_head_at d)) (brelse b))))"
proof (cases "n \<le> int LOGBLOCKS")
  case True
  then show ?thesis unfolding read_head_at_def [abs_def] by (intro mt_rules; simp)
next
  case False
  show ?thesis
    unfolding set_log_def get_log_def undefined_behaviour_def read_head_at_def [abs_def]
    by (intro maintainsI rg_intros rg_nosw nosw_rules wlp_for_stops [of LOGBLOCKS])
       (use False in \<open>auto simp: wp_rules\<close>)
qed

lemma mt_read_head [mt_rules]: "maintains kinv read_head"
  unfolding read_head_def by (intro mt_rules mt_read_head_tail)

lemma mt_write_head_at [mt_rules]: "maintains kinv (write_head_at b i)"
  unfolding write_head_at_def by (intro mt_rules; simp)

lemma mt_write_head [mt_rules]: "maintains kinv write_head"
  unfolding write_head_def by (intro mt_rules; simp)

lemma mt_recover_from_log [mt_rules]: "maintains kinv recover_from_log"
  unfolding recover_from_log_def by (intro mt_rules; simp)

lemma mt_initlog [mt_rules]: "maintains kinv (initlog x1 x2)"
  unfolding initlog_def by (intro mt_rules; simp)

lemma mt_begin_op_body [mt_rules]: "maintains kinv (begin_op_body x1)"
  unfolding begin_op_body_def by (intro mt_rules; simp)

lemma mt_begin_op [mt_rules]: "maintains kinv begin_op"
  unfolding begin_op_def by (intro mt_rules; simp)

lemma mt_write_log_at [mt_rules]: "maintains kinv (write_log_at tail)"
  unfolding write_log_at_def by (intro mt_get_buf mt_rules; simp add: buf_ok_def)

lemma mt_write_log [mt_rules]: "maintains kinv write_log"
  unfolding write_log_def by (intro mt_rules; simp)

lemma mt_commit [mt_rules]: "maintains kinv commit"
  unfolding commit_def by (intro mt_rules; simp)

lemma mt_end_op [mt_rules]: "maintains kinv end_op"
  unfolding end_op_def by (intro mt_rules; simp)

lemma mt_log_write [mt_rules]: "maintains kinv (log_write b)"
  unfolding log_write_def bpin_def set_log_def get_log_def get_buf_def set_buf_def Let_def
  by (intro maintainsI rg_intros; simp add: kinv_parts)

section \<open>The file system\<close>

subsection \<open>Copying between user and kernel memory does not sleep\<close>

lemma nosw_kfree [nosw_rules]: "nosw (kfree x1)"
  unfolding kfree_def by (intro nosw_rules)

lemma nosw_kalloc [nosw_rules]: "nosw kalloc"
  unfolding kalloc_def by (intro nosw_rules)

lemma nosw_walk_from [nosw_rules]: "nosw (walk_from x1 x2 x3 x4)"
  by (induction x1 arbitrary: x2 x3 x4) (auto intro!: nosw_rules)

lemma nosw_walk [nosw_rules]: "nosw (walk x1 x2 x3)"
  unfolding walk_def Let_def by (intro nosw_rules)

lemma nosw_mappages_body [nosw_rules]: "nosw (mappages_body x1 x2 x3 x4)"
  unfolding mappages_body_def by (intro nosw_rules)

lemma nosw_mappages [nosw_rules]: "nosw (mappages x1 x2 x3 x4 x5)"
  unfolding mappages_def Let_def by (intro nosw_rules)

lemma nosw_walkaddr [nosw_rules]: "nosw (walkaddr x1 x2)"
  unfolding walkaddr_def by (intro nosw_rules)

lemma nosw_ismapped [nosw_rules]: "nosw (ismapped x1 x2)"
  unfolding ismapped_def by (intro nosw_rules)

lemma nosw_vmfault [nosw_rules]: "nosw (vmfault x1 x2)"
  unfolding vmfault_def Let_def by (intro nosw_rules)

lemma nosw_user_page [nosw_rules]: "nosw (user_page x1 x2)"
  unfolding user_page_def by (intro nosw_rules)

lemma nosw_copyout [nosw_rules]: "nosw (copyout x1 x2 x3)"
  unfolding copyout_def Let_def by (intro nosw_rules)

lemma nosw_copyin [nosw_rules]: "nosw (copyin x1 x2 x3)"
  unfolding copyin_def Let_def by (intro nosw_rules)

lemma nosw_either_copyout [nosw_rules]: "nosw (either_copyout x1 x2 x3)"
  unfolding either_copyout_def by (intro nosw_rules)

lemma nosw_either_copyin [nosw_rules]: "nosw (either_copyin x1 x2 x3)"
  unfolding either_copyin_def by (intro nosw_rules)

lemma nosw_copy_from: "nosw (copy_from src m)"
  by (cases src) (auto intro!: nosw_rules)

lemma copyin_length: "wlp (copyin pt va n) (\<lambda>r _. length (snd r) \<le> unat n) s"
  unfolding copyin_def Let_def
  by (rule kloop_wlp [where I = "\<lambda>(_, len, dst) _. length dst + unat len \<le> unat n"])
     (auto intro!: wlp_intros wlp_any [of _ "user_page _ _"] simp: unat_sub min_def word_le_nat_alt)

lemma copy_from_length: "wlp (copy_from src m) (\<lambda>r _. length (snd r) \<le> unat m) s"
  using copyin_length [where n = "ucast m :: u64"]
  by (cases src) (auto intro!: wlp_intros wlp_any [of _ myproc] simp: either_copyin_def wp_rules split: option.split)

lemma mt_readsb [mt_rules]: "maintains kinv (readsb x1)"
  unfolding readsb_def by (intro mt_rules; simp)

lemma mt_bzero [mt_rules]: "maintains kinv (bzero x1 x2)"
  unfolding bzero_def by (intro mt_rules; simp)

lemma mt_balloc_body [mt_rules]: "maintains kinv (balloc_body x1 x2)"
  unfolding balloc_body_def by (intro mt_rules; simp)

lemma mt_balloc [mt_rules]: "maintains kinv (balloc x1)"
  unfolding balloc_def by (intro mt_rules; simp)

lemma mt_bfree [mt_rules]: "maintains kinv (bfree x1 x2)"
  unfolding bfree_def Let_def by (intro mt_rules; simp)

lemma mt_iinit [mt_rules]: "maintains kinv iinit"
  unfolding iinit_def by (intro mt_rules; simp)

lemma mt_iget [mt_rules]: "maintains kinv (iget x1 x2)"
  unfolding iget_def by (intro mt_rules; simp)

lemma mt_idup [mt_rules]: "maintains kinv (idup x1)"
  unfolding idup_def by (intro mt_rules; simp)

lemma dip_off_room: "dip_off inum + 64 \<le> BSIZE"
proof -
  have "unat (inum mod IPB) < unat (IPB :: u32)" by (rule word_less_nat_alt [THEN iffD1]) (simp add: word_mod_less_divisor)
  then show ?thesis by (simp add: dip_off_def)
qed

lemma mt_ialloc_body [mt_rules]: "maintains kinv (ialloc_body dev ty inum)"
  unfolding ialloc_body_def by (intro mt_rules; simp add: length_put_at dip_off_room)

lemma mt_ialloc [mt_rules]: "maintains kinv (ialloc x1 x2)"
  unfolding ialloc_def by (intro mt_rules; simp)

lemma mt_iupdate [mt_rules]: "maintains kinv (iupdate ip)"
  unfolding iupdate_def
  by (intro mt_get_d mt_rules; simp add: length_put_at length_enc_dinode din_ok_def dip_off_room)

lemma mt_ilock [mt_rules]: "maintains kinv (ilock ip)"
  unfolding ilock_def by (intro mt_rules; simp add: dec_dinode_def din_ok_def)

lemma mt_iunlock [mt_rules]: "maintains kinv (iunlock x1)"
  unfolding iunlock_def by (intro mt_rules; simp)

lemma mt_bmap_slot [mt_rules]: "maintains kinv (bmap_slot ip k)"
  unfolding bmap_slot_def by (intro mt_rules; simp add: din_ok_def)

lemma mt_bmap [mt_rules]: "maintains kinv (bmap x1 x2)"
  unfolding bmap_def Let_def by (intro mt_rules; simp)

lemma mt_itrunc [mt_rules]: "maintains kinv (itrunc ip)"
  unfolding itrunc_def by (intro mt_rules; simp add: din_ok_def)

lemma mt_iput [mt_rules]: "maintains kinv (iput x1)"
  unfolding iput_def by (intro mt_rules; simp)

lemma mt_iunlockput [mt_rules]: "maintains kinv (iunlockput x1)"
  unfolding iunlockput_def by (intro mt_rules; simp)

lemma mt_ireclaim_body [mt_rules]: "maintains kinv (ireclaim_body x1 x2)"
  unfolding ireclaim_body_def by (intro mt_rules; simp)

lemma mt_ireclaim [mt_rules]: "maintains kinv (ireclaim x1)"
  unfolding ireclaim_def by (intro mt_rules; simp)

lemma mt_fsinit [mt_rules]: "maintains kinv (fsinit x1)"
  unfolding fsinit_def by (intro mt_rules; simp)

lemma mt_stati [mt_rules]: "maintains kinv (stati x1)"
  unfolding stati_def by (intro mt_rules; simp)

lemma mt_copy_to [mt_rules]: "maintains kinv (copy_to dst bs)"
  by (cases dst) (auto intro!: mt_rules)

lemma mt_copy_from [mt_rules]: "maintains kinv (copy_from src m)"
  by (cases src) (auto intro!: mt_rules)

lemma mt_readi_body [mt_rules]: "maintains kinv (readi_body x1 x2 x3)"
  unfolding readi_body_def Let_def by (intro mt_rules; simp)

lemma mt_readi [mt_rules]: "maintains kinv (readi x1 x2 x3 x4)"
  unfolding readi_def Let_def by (intro mt_rules; simp)

lemma chunk_room:
  assumes "k \<le> unat (chunk left off)"
  shows "unat (off mod of_nat BSIZE) + k \<le> BSIZE"
proof -
  have lt: "off mod 1024 < (1024 :: u32)" by (simp add: word_mod_less_divisor)
  have "chunk left off \<le> 1024 - off mod 1024" by (simp add: chunk_def)
  then have "unat (chunk left off) \<le> unat (1024 - off mod 1024)" by (rule word_le_nat_alt [THEN iffD1])
  also have "\<dots> = 1024 - unat (off mod 1024)" using lt by (simp add: unat_sub less_imp_le)
  finally show ?thesis using assms lt by (simp add: word_less_nat_alt)
qed

lemma chunk_put:
  assumes "length bs \<le> unat (chunk left off)" and "length d = BSIZE"
  shows "length (put_at (unat (off mod of_nat BSIZE)) bs d) = BSIZE"
  using chunk_room [OF assms(1)] assms(2) by (simp add: length_put_at)

lemma mt_copy_from_bind:
  "(\<And>r bs. length bs \<le> unat m \<Longrightarrow> maintains kinv (f r bs)) \<Longrightarrow>
   maintains kinv (kbind (copy_from src m) (\<lambda>(r, bs). f r bs))"
  by (rule mt_bind_val [OF nosw_copy_from mt_copy_from copy_from_length]) (simp add: split_beta)

lemma mt_writei_body [mt_rules]: "maintains kinv (writei_body ip n x)"
  unfolding writei_body_def Let_def
  by (cases x; simp only: prod.case) (intro mt_copy_from_bind mt_rules; (erule (1) chunk_put | simp))

lemma mt_writei [mt_rules]: "maintains kinv (writei x1 x2 x3 x4)"
  unfolding writei_def by (intro mt_rules; simp)

lemma mt_dirlookup_body [mt_rules]: "maintains kinv (dirlookup_body x1 x2 x3)"
  unfolding dirlookup_body_def by (intro mt_rules; simp)

lemma mt_dirlookup [mt_rules]: "maintains kinv (dirlookup x1 x2)"
  unfolding dirlookup_def by (intro mt_rules; simp)

lemma mt_dirlink_body [mt_rules]: "maintains kinv (dirlink_body x1 x2)"
  unfolding dirlink_body_def by (intro mt_rules; simp)

lemma mt_dirlink [mt_rules]: "maintains kinv (dirlink x1 x2 x3)"
  unfolding dirlink_def by (intro mt_rules; simp)

lemma mt_namex_body [mt_rules]: "maintains kinv (namex_body x1 x2)"
  unfolding namex_body_def by (intro mt_rules; simp)

lemma mt_namex [mt_rules]: "maintains kinv (namex x1 x2)"
  unfolding namex_def by (intro mt_rules; simp)

lemma mt_namei [mt_rules]: "maintains kinv (namei x1)"
  unfolding namei_def by (intro mt_rules; simp)

lemma mt_nameiparent [mt_rules]: "maintains kinv (nameiparent x1)"
  unfolding nameiparent_def by (intro mt_rules; simp)

end
