(* ===== verification/Invariant.thy ===== *)
theory Invariant
  imports Kinv
begin

text \<open>
  The kernel invariant for the console, files, pipes, system calls and traps, and with it for the
  whole kernel: no system call and no trap breaks it.
\<close>

section \<open>The console\<close>

text \<open>What the invariant is about.\<close>

definition kobs :: "'z filest_scheme \<Rightarrow> _" where
  "kobs s = (bufs s, klog s, itable s, cons s, ftable s, pipes s)"

lemma kinv_kobs: "kobs t = kobs s \<Longrightarrow> kinv t = kinv s"
  by (simp add: kobs_def kinv_def)

lemma beyond_mem_kobs [keeps_rules]: "beyond_mem kobs"
  by (simp add: beyond_mem_def kobs_def)

lemma rg_kobs:
  "nosw m \<Longrightarrow> keeps kobs m \<Longrightarrow> (\<And>a t. kobs t = kobs s \<Longrightarrow> kinv t = kinv s \<Longrightarrow> Q a t) \<Longrightarrow> rg I m Q s"
  by (rule rg_keeps) (auto dest: kinv_kobs)

lemma word_up: "d \<le> c \<Longrightarrow> d \<noteq> c \<Longrightarrow> d + 1 \<le> c" for c d :: u32
  by (rule inc_le) simp

lemma word_less_up: "x < c \<Longrightarrow> c \<le> 512 \<Longrightarrow> unat (x + 1) = unat x + 1" for x c :: u32
  using unat_add_lem [of x 1] by (simp add: word_less_nat_alt word_le_nat_alt)

lemma word_down: "y \<le> x \<Longrightarrow> y \<noteq> x \<Longrightarrow> y \<le> x - 1 \<and> x - 1 \<le> x" for x y :: u32
proof -
  assume "y \<le> x" "y \<noteq> x"
  then have "y < x" by simp
  then have "unat y < unat x" by (simp only: word_less_nat_alt)
  then show ?thesis using unat_minus_one [of x] by (cases "x = 0") (auto simp: word_le_nat_alt)
qed

lemma word_down_both: "y \<le> x \<Longrightarrow> y \<noteq> 0 \<Longrightarrow> y - 1 \<le> x - 1 \<and> x - 1 \<le> x" for x y :: u32
  using unat_minus_one [of x] unat_minus_one [of y] by (cases "x = 0") (auto simp: word_le_nat_alt unat_eq_0)

lemma cons_erase: "cons_ok c \<Longrightarrow> cons_e c \<noteq> cons_w c \<Longrightarrow> cons_ok (c\<lparr>cons_e := cons_e c - 1\<rparr>)"
  using word_down [of "cons_w c - cons_r c" "cons_e c - cons_r c"]
  by (auto simp: cons_ok_def diff_right_commute [of _ 1])

lemma cons_take: 
  assumes "cons_ok c" and "cons_r c \<noteq> cons_w c"
  shows "cons_ok (c\<lparr>cons_r := cons_r c + 1\<rparr>)"
proof -
  have "cons_w c - cons_r c \<noteq> 0" using assms(2) by simp
  then have "cons_e c - cons_r c - 1 \<le> INPUT_BUF_SIZE \<and> cons_w c - cons_r c - 1 \<le> cons_e c - cons_r c - 1"
    using assms(1) word_down_both [of "cons_w c - cons_r c" "cons_e c - cons_r c"] unfolding cons_ok_def by auto
  then show ?thesis by (simp add: cons_ok_def diff_diff_eq)
qed

lemma cons_put:
  "cons_ok c \<Longrightarrow> cons_e c - cons_r c < INPUT_BUF_SIZE \<Longrightarrow> cons_ok (c\<lparr>cons_e := cons_e c + 1\<rparr>)"
  using word_less_up [of "cons_e c - cons_r c" 128]
  by (simp add: cons_ok_def diff_add_eq [symmetric] word_le_nat_alt word_less_nat_alt)

lemma cons_commit: "cons_ok c \<Longrightarrow> cons_ok (c\<lparr>cons_w := cons_e c\<rparr>)"
  by (simp add: cons_ok_def)

lemma mt_WriteReg [mt_rules]: "maintains kinv (WriteReg x1 x2)"
  unfolding WriteReg_def by (intro mt_rules; simp)

lemma mt_read_lsr [mt_rules]: "maintains kinv read_lsr"
  unfolding read_lsr_def by (intro mt_rules; simp)

lemma mt_uartinit [mt_rules]: "maintains kinv uartinit"
  unfolding uartinit_def by (intro mt_rules; simp)

lemma mt_tx_wait [mt_rules]: "maintains kinv tx_wait"
  unfolding tx_wait_def by (intro mt_rules; simp)

lemma mt_uartputc_sync [mt_rules]: "maintains kinv (uartputc_sync c)"
  unfolding uartputc_sync_def by (intro mt_rules nosw_rules; simp)

lemma mt_tx_sleep [mt_rules]: "maintains kinv tx_sleep"
  unfolding tx_sleep_def by (intro mt_rules; simp)

lemma mt_uartwrite_at [mt_rules]: "maintains kinv (uartwrite_at x1)"
  unfolding uartwrite_at_def by (intro mt_rules; simp)

lemma mt_uartwrite [mt_rules]: "maintains kinv (uartwrite x1)"
  unfolding uartwrite_def by (intro mt_rules; simp)

lemma mt_uartgetc [mt_rules]: "maintains kinv uartgetc"
  unfolding uartgetc_def by (intro mt_rules; simp)

lemma mt_puts [mt_rules]: "maintains kinv (puts x1)"
  unfolding puts_def by (intro mt_rules; simp)

lemma mt_printint [mt_rules]: "maintains kinv (printint x1 x2 x3)"
  unfolding printint_def Let_def by (intro mt_rules; simp)

lemma mt_printptr [mt_rules]: "maintains kinv (printptr x1)"
  unfolding printptr_def by (intro mt_rules; simp)

lemma mt_case_parg:
  "(\<And>v. maintains I (m v)) \<Longrightarrow> (\<And>x. maintains I (n x)) \<Longrightarrow> maintains I (case p of Num v \<Rightarrow> m v | Str x \<Rightarrow> n x)"
  by (cases p) simp_all

lemma mt_printf_loop [mt_rules]: "maintains kinv (printf_loop fmt args)"
proof (induction "length fmt" arbitrary: fmt args rule: less_induct)
  case less
  show ?case
  proof (cases fmt)
    case (Cons cx fmt')
    show ?thesis
      unfolding Cons printf_loop.simps
      by (cases fmt'; simp only: list.case)
         (intro mt_rules mt_case_parg less; simp add: Cons)+
  qed (simp add: mt_rules)
qed

lemma mt_printf [mt_rules]: "maintains kinv (printf x1 x2)"
  unfolding printf_def by (intro mt_rules; simp)

lemma mt_panic [mt_rules]: "maintains kinv (panic x1)"
  unfolding panic_def by (intro mt_rules; simp)

lemma mt_printfinit [mt_rules]: "maintains kinv printfinit"
  unfolding printfinit_def by (intro mt_rules; simp)

lemma mt_procdump [mt_rules]: "maintains kinv procdump"
  unfolding procdump_def by (intro mt_rules; simp)

lemma mt_consputc [mt_rules]: "maintains kinv (consputc x1)"
  unfolding consputc_def by (intro mt_rules; simp)

lemma rg_consoleread_wait:
  assumes "kinv s"
  shows "rg kinv consoleread_wait (\<lambda>ok t. kinv t \<and> (ok \<longrightarrow> cons_r (cons t) \<noteq> cons_w (cons t))) s"
proof -
  have "rg kinv (kloop (rounds s) (\<lambda>_. kbind (get_cons (\<lambda>c. cons_r c = cons_w c)) (\<lambda>e.
       if \<not> e then kret (Inr True)
       else kbind cur (\<lambda>p. kbind (killed p) (\<lambda>k.
           if k then kthen (release LCons) (kret (Inr False))
           else kthen (sleep Ccons LCons) (kret (Inl ())))))) ())
     (\<lambda>ok t. kinv t \<and> (ok \<longrightarrow> cons_r (cons t) \<noteq> cons_w (cons t))) s"
    unfolding get_cons_def
    by (rule rg_loop [where I = kinv], intro rg_intros rg_maintains [OF mt_cur] rg_maintains [OF mt_killed] rg_maintains [OF mt_sleep])
       (simp_all add: assms)
  then show ?thesis by (simp only: consoleread_wait_def rg_def)
qed

lemma mt_consoleread_body [mt_rules]: "maintains kinv (consoleread_body user_dst target x)"
  unfolding consoleread_body_def get_cons_def set_cons_def
  by (cases x; simp only: prod.case)
     (intro maintainsI rg_intros rg_conseq [OF rg_consoleread_wait] rg_maintains [OF mt_either_copyout];
      simp add: kinv_parts cons_take)

lemma mt_consoleread [mt_rules]: "maintains kinv (consoleread x1 x2 x3)"
  unfolding consoleread_def by (intro mt_rules; simp)

lemma mt_consolewrite_body [mt_rules]: "maintains kinv (consolewrite_body x1 x2 x3 x4)"
  unfolding consolewrite_body_def Let_def by (intro mt_rules; simp)

lemma mt_consolewrite [mt_rules]: "maintains kinv (consolewrite x1 x2 x3)"
  unfolding consolewrite_def by (intro mt_rules; simp)

lemma nosw_WriteReg [nosw_rules]: "nosw (WriteReg r v)"
  unfolding WriteReg_def by (simp add: nosw_simple)

lemma nosw_read_lsr [nosw_rules]: "nosw read_lsr"
  unfolding read_lsr_def set_uart_def get_uart_def by (intro nosw_rules)

lemma nosw_tx_wait [nosw_rules]: "nosw tx_wait"
  unfolding tx_wait_def by (intro nosw_rules)

lemma nosw_uartputc_sync [nosw_rules]: "nosw (uartputc_sync c)"
  unfolding uartputc_sync_def by (intro nosw_rules)

lemma nosw_puts [nosw_rules]: "nosw (puts cs)"
  unfolding puts_def by (intro nosw_rules)

lemma nosw_consputc [nosw_rules]: "nosw (consputc c)"
  unfolding consputc_def by (intro nosw_rules)

lemma keeps_uart [keeps_rules]: "keeps kobs (set_uart f)" "keeps kobs (get_uart g)"
  by (auto intro!: keeps_rules simp: kobs_def)

lemma keeps_tx_wait [keeps_rules]: "keeps kobs tx_wait"
  unfolding tx_wait_def read_lsr_def by (intro keeps_state_loop keeps_rules)

lemma keeps_uartputc_sync [keeps_rules]: "keeps kobs (uartputc_sync c)"
  unfolding uartputc_sync_def WriteReg_def by (intro keeps_rules)

lemma keeps_consputc [keeps_rules]: "keeps kobs (consputc c)"
  unfolding consputc_def puts_def by (intro keeps_rules)

lemma rg_consputc [rg_intros]: "(\<And>t. kobs t = kobs s \<Longrightarrow> kinv t = kinv s \<Longrightarrow> Q () t) \<Longrightarrow> rg I (consputc c) Q s"
  by (rule rg_kobs [OF nosw_consputc keeps_consputc]) simp

lemma mt_kill_line [mt_rules]: "maintains kinv kill_line"
  unfolding kill_line_def get_cons_def set_cons_def
  by (intro mt_state_loop maintainsI rg_intros) (simp_all add: kinv_parts cons_erase)

lemma rg_cons_store:
  assumes "kinv s" and "cons_e (cons s) - cons_r (cons s) < INPUT_BUF_SIZE"
  shows "rg kinv (cons_store c) (\<lambda>_. kinv) s"
proof -
  have p: "cons_ok ((cons t)\<lparr>cons_buf := b, cons_e := cons_e (cons t) + 1\<rparr>)" if "kobs t = kobs s" for t :: "'a filest_scheme" and b
    using cons_put [of "(cons s)\<lparr>cons_buf := b\<rparr>"] that assms by (simp add: kobs_def kinv_parts)
  show ?thesis
    unfolding cons_store_def get_cons_def set_cons_def Let_def
    by (intro rg_intros rg_maintains [OF mt_wakeup]) (use assms p cons_commit [OF p] in simp_all)
qed

lemma mt_consoleintr [mt_rules]: "maintains kinv (consoleintr c)"
proof -
  have e: "maintains kinv (kbind (get_cons (\<lambda>x. cons_e x \<noteq> cons_w x)) (\<lambda>b.
      kwhen b (kthen (set_cons (\<lambda>x. x\<lparr>cons_e := cons_e x - 1\<rparr>)) (consputc k))))" for k
    unfolding get_cons_def set_cons_def
    by (intro maintainsI rg_intros) (simp_all add: kinv_parts cons_erase)
  have p: "maintains kinv (kbind (get_cons (\<lambda>x. cons_e x - cons_r x < INPUT_BUF_SIZE)) (\<lambda>room.
      kwhen (d \<and> room) (cons_store k)))" for d k
    unfolding get_cons_def by (intro maintainsI rg_intros rg_cons_store) simp_all
  show ?thesis unfolding consoleintr_def by (intro e p mt_rules)
qed

lemma mt_uartintr_body [mt_rules]: "maintains kinv (uartintr_body x1)"
  unfolding uartintr_body_def by (intro mt_rules; simp)

lemma mt_uartintr [mt_rules]: "maintains kinv uartintr"
  unfolding uartintr_def by (intro mt_rules; simp)

lemma mt_consoleinit [mt_rules]: "maintains kinv consoleinit"
  unfolding consoleinit_def by (intro mt_rules; simp)

section \<open>Files and pipes\<close>

lemma pipe_put: "pipe_ok x \<Longrightarrow> pi_nwrite x \<noteq> pi_nread x + PIPESIZE \<Longrightarrow> pipe_ok (x\<lparr>pi_nwrite := pi_nwrite x + 1\<rparr>)"
proof -
  assume "pipe_ok x" "pi_nwrite x \<noteq> pi_nread x + PIPESIZE"
  then have "pi_nwrite x - pi_nread x + 1 \<le> PIPESIZE"
    by (intro word_up) (simp_all add: pipe_ok_def diff_eq_eq add.commute)
  moreover have "pi_nwrite x - pi_nread x + 1 = pi_nwrite x + 1 - pi_nread x" by simp
  ultimately show ?thesis by (simp add: pipe_ok_def)
qed

lemma pipe_put_data:
  "pipe_ok x \<Longrightarrow> pi_nwrite x \<noteq> pi_nread x + PIPESIZE \<Longrightarrow> pipe_ok (x\<lparr>pi_data := d, pi_nwrite := pi_nwrite x + 1\<rparr>)"
  using pipe_put [of "x\<lparr>pi_data := d\<rparr>"] by simp

lemma kobs_pipes: "kobs t = kobs s \<Longrightarrow> pipes s = pipes t"
  by (simp add: kobs_def)

lemma pipe_get: "pipe_ok x \<Longrightarrow> pi_nread x \<noteq> pi_nwrite x \<Longrightarrow> pipe_ok (x\<lparr>pi_nread := pi_nread x + 1\<rparr>)"
  using word_down [of 0 "pi_nwrite x - pi_nread x"]
  by (auto simp: pipe_ok_def diff_diff_eq [symmetric] intro: order_trans)

lemma rg_copyin: "(\<And>a t. kobs t = kobs s \<Longrightarrow> kinv t = kinv s \<Longrightarrow> Q a t) \<Longrightarrow> rg I (copyin pt va n) Q s"
  by (rule rg_kobs [OF nosw_copyin keeps_copyin [OF beyond_mem_kobs]])

lemma rg_copyout: "(\<And>a t. kobs t = kobs s \<Longrightarrow> kinv t = kinv s \<Longrightarrow> Q a t) \<Longrightarrow> rg I (copyout pt va bs) Q s"
  by (rule rg_kobs [OF nosw_copyout keeps_copyout [OF beyond_mem_kobs]])

lemma mt_fileinit [mt_rules]: "maintains kinv fileinit"
  unfolding fileinit_def by (intro mt_rules; simp)

lemma mt_filealloc [mt_rules]: "maintains kinv filealloc"
  unfolding filealloc_def by (intro mt_rules; simp)

lemma mt_filedup [mt_rules]: "maintains kinv (filedup x1)"
  unfolding filedup_def by (intro mt_rules; simp)

lemma mt_pipeclose [mt_rules]: "maintains kinv (pipeclose x1 x2)"
  unfolding pipeclose_def by (intro mt_rules; simp)

lemma mt_fileclose [mt_rules]: "maintains kinv (fileclose f)"
  unfolding fileclose_def get_f_def set_f_def
  by (intro maintainsI rg_intros rg_maintains [OF mt_pipeclose] rg_maintains [OF mt_begin_op]
        rg_maintains [OF mt_iput] rg_maintains [OF mt_end_op]; simp)

lemma mt_pipealloc_bad [mt_rules]: "maintains kinv (pipealloc_bad x1 x2)"
  unfolding pipealloc_bad_def by (intro mt_rules; simp)

lemma mt_pipealloc_ok [mt_rules]: "maintains kinv (pipealloc_ok f0 f1 pi)"
  unfolding pipealloc_ok_def by (intro mt_rules; simp add: pipe_ok_def)

lemma mt_pipealloc [mt_rules]: "maintains kinv pipealloc"
  unfolding pipealloc_def by (intro mt_rules; simp)

lemma mt_pipe_store:
  "maintains kinv (kbind (get_pipe pi (\<lambda>x. pi_nwrite x = pi_nread x + PIPESIZE)) (\<lambda>full.
     if full then m full
     else kbind (get_proc pr p_pagetable) (\<lambda>pt. kbind (copyin pt va 1) (\<lambda>(r, bs).
       if r = - 1 then kret a
       else kthen (set_pipe pi (\<lambda>x. x\<lparr>
              pi_data := (pi_data x)(unat (pi_nwrite x mod PIPESIZE) := hd bs),
              pi_nwrite := pi_nwrite x + 1\<rparr>)) (kret b)))))"
  if "maintains kinv (m True)"
proof (intro maintainsI)
  show "rg kinv (kbind (get_pipe pi (\<lambda>x. pi_nwrite x = pi_nread x + PIPESIZE)) (\<lambda>full.
     if full then m full
     else kbind (get_proc pr p_pagetable) (\<lambda>pt. kbind (copyin pt va 1) (\<lambda>(r, bs).
       if r = - 1 then kret a
       else kthen (set_pipe pi (\<lambda>x. x\<lparr>
              pi_data := (pi_data x)(unat (pi_nwrite x mod PIPESIZE) := hd bs),
              pi_nwrite := pi_nwrite x + 1\<rparr>)) (kret b))))) (\<lambda>_. kinv) s" if k: "kinv s" for s
    unfolding get_pipe_def set_pipe_def get_proc_def split_beta
    by (intro rg_intros rg_copyin)
       (use k maintainsD [OF \<open>maintains kinv (m True)\<close> k] in \<open>auto dest!: kobs_pipes simp: kinv_parts pipe_put_data\<close>)
qed

lemma mt_pipewrite_body [mt_rules]: "maintains kinv (pipewrite_body pi pr addr n i)"
  unfolding pipewrite_body_def by (intro mt_pipe_store mt_rules)

lemma mt_pipewrite [mt_rules]: "maintains kinv (pipewrite x1 x2 x3)"
  unfolding pipewrite_def by (intro mt_rules; simp)

lemma mt_piperead_wait [mt_rules]: "maintains kinv (piperead_wait x1 x2)"
  unfolding piperead_wait_def by (intro mt_rules; simp)

lemma mt_piperead_body [mt_rules]: "maintains kinv (piperead_body pi pr addr n i)"
  unfolding piperead_body_def get_pipe_def set_pipe_def get_proc_def
  by (intro maintainsI rg_intros rg_copyout) (auto dest!: kobs_pipes simp: kinv_parts pipe_get)

lemma mt_piperead [mt_rules]: "maintains kinv (piperead x1 x2 x3)"
  unfolding piperead_def by (intro mt_rules; simp)

lemma mt_filestat [mt_rules]: "maintains kinv (filestat x1 x2)"
  unfolding filestat_def by (intro mt_rules; simp)

lemma mt_fileread [mt_rules]: "maintains kinv (fileread x1 x2 x3)"
  unfolding fileread_def by (intro mt_rules; simp)

lemma mt_filewrite_body [mt_rules]: "maintains kinv (filewrite_body x1 x2 x3 x4 x5)"
  unfolding filewrite_body_def Let_def by (intro mt_rules; simp)

lemma mt_filewrite [mt_rules]: "maintains kinv (filewrite x1 x2 x3)"
  unfolding filewrite_def by (intro mt_rules; simp)

section \<open>exec and fork\<close>

lemma mt_loadseg_body [mt_rules]: "maintains kinv (loadseg_body x1 x2 x3 x4 x5 x6)"
  unfolding loadseg_body_def Let_def by (intro mt_rules; simp)

lemma mt_loadseg [mt_rules]: "maintains kinv (loadseg x1 x2 x3 x4 x5)"
  unfolding loadseg_def by (intro mt_rules; simp)

lemma mt_exec_seg [mt_rules]: "maintains kinv (exec_seg x1 x2 x3 x4)"
  unfolding exec_seg_def by (intro mt_rules; simp)

lemma mt_exec_segs_body [mt_rules]: "maintains kinv (exec_segs_body x1 x2 x3 x4)"
  unfolding exec_segs_body_def by (intro mt_rules; simp)

lemma mt_exec_push [mt_rules]: "maintains kinv (exec_push pt stackbase as sp ustack)"
  by (induction as arbitrary: sp ustack) (auto simp: Let_def intro!: mt_rules)

lemma mt_exec_ustack [mt_rules]: "maintains kinv (exec_ustack x1 x2 x3 x4)"
  unfolding exec_ustack_def Let_def by (intro mt_rules; simp)

lemma mt_exec_bad [mt_rules]: "maintains kinv (exec_bad x1 x2 x3)"
  unfolding exec_bad_def by (intro mt_rules; simp)

lemma mt_exec_commit [mt_rules]: "maintains kinv (exec_commit x1 x2 x3 x4 x5 x6 x7)"
  unfolding exec_commit_def by (intro mt_rules; simp)

lemma mt_exec_stack [mt_rules]: "maintains kinv (exec_stack x1 x2 x3 x4 x5)"
  unfolding exec_stack_def Let_def by (intro mt_rules; simp)

lemma mt_exec_load [mt_rules]: "maintains kinv (exec_load x1 x2 x3 x4)"
  unfolding exec_load_def by (intro mt_rules; simp)

lemma mt_kexec [mt_rules]: "maintains kinv (kexec x1 x2)"
  unfolding kexec_def by (intro mt_rules; simp)

lemma mt_userinit [mt_rules]: "maintains kinv userinit"
  unfolding userinit_def by (intro mt_rules; simp)

lemma mt_forkret [mt_rules]: "maintains kinv forkret"
  unfolding forkret_def by (intro mt_rules; simp)

lemma mt_kfork_file [mt_rules]: "maintains kinv (kfork_file x1 x2 x3)"
  unfolding kfork_file_def by (intro mt_rules; simp)

lemma mt_kfork_start [mt_rules]: "maintains kinv (kfork_start x1 x2)"
  unfolding kfork_start_def by (intro mt_rules; simp)

lemma mt_kfork_copy [mt_rules]: "maintains kinv (kfork_copy x1 x2)"
  unfolding kfork_copy_def by (intro mt_rules; simp)

lemma mt_kfork [mt_rules]: "maintains kinv kfork"
  unfolding kfork_def by (intro mt_rules; simp)

section \<open>System calls\<close>

lemma mt_fetchaddr [mt_rules]: "maintains kinv (fetchaddr x1)"
  unfolding fetchaddr_def by (intro mt_rules; simp)

lemma mt_fetchstr [mt_rules]: "maintains kinv (fetchstr x1 x2)"
  unfolding fetchstr_def by (intro mt_rules; simp)

lemma mt_argraw [mt_rules]: "maintains kinv (argraw x1)"
  unfolding argraw_def by (intro mt_rules; simp)

lemma mt_argint [mt_rules]: "maintains kinv (argint x1)"
  unfolding argint_def by (intro mt_rules; simp)

lemma mt_argaddr [mt_rules]: "maintains kinv (argaddr x1)"
  unfolding argaddr_def by (intro mt_rules; simp)

lemma mt_argstr [mt_rules]: "maintains kinv (argstr x1 x2)"
  unfolding argstr_def by (intro mt_rules; simp)

lemma mt_sys_exit [mt_rules]: "maintains kinv sys_exit"
  unfolding sys_exit_def by (intro mt_rules; simp)

lemma mt_sys_getpid [mt_rules]: "maintains kinv sys_getpid"
  unfolding sys_getpid_def by (intro mt_rules; simp)

lemma mt_sys_fork [mt_rules]: "maintains kinv sys_fork"
  unfolding sys_fork_def by (intro mt_rules; simp)

lemma mt_sys_wait [mt_rules]: "maintains kinv sys_wait"
  unfolding sys_wait_def by (intro mt_rules; simp)

lemma mt_sys_sbrk [mt_rules]: "maintains kinv sys_sbrk"
  unfolding sys_sbrk_def by (intro mt_rules; simp)

lemma mt_sys_pause_body [mt_rules]: "maintains kinv (sys_pause_body x1 x2 x3)"
  unfolding sys_pause_body_def by (intro mt_rules; simp)

lemma mt_sys_pause [mt_rules]: "maintains kinv sys_pause"
  unfolding sys_pause_def Let_def by (intro mt_rules; simp)

lemma mt_sys_kill [mt_rules]: "maintains kinv sys_kill"
  unfolding sys_kill_def by (intro mt_rules; simp)

lemma mt_sys_uptime [mt_rules]: "maintains kinv sys_uptime"
  unfolding sys_uptime_def by (intro mt_rules; simp)

lemma mt_argfd [mt_rules]: "maintains kinv (argfd x1)"
  unfolding argfd_def by (intro mt_rules; simp)

lemma mt_fdalloc [mt_rules]: "maintains kinv (fdalloc x1)"
  unfolding fdalloc_def by (intro mt_rules; simp)

lemma mt_sys_dup [mt_rules]: "maintains kinv sys_dup"
  unfolding sys_dup_def by (intro mt_rules; simp)

lemma mt_sys_read [mt_rules]: "maintains kinv sys_read"
  unfolding sys_read_def by (intro mt_rules; simp)

lemma mt_sys_write [mt_rules]: "maintains kinv sys_write"
  unfolding sys_write_def by (intro mt_rules; simp)

lemma mt_clear_fd [mt_rules]: "maintains kinv (clear_fd x1 x2)"
  unfolding clear_fd_def by (intro mt_rules; simp)

lemma mt_sys_close [mt_rules]: "maintains kinv sys_close"
  unfolding sys_close_def by (intro mt_rules; simp)

lemma mt_sys_fstat [mt_rules]: "maintains kinv sys_fstat"
  unfolding sys_fstat_def by (intro mt_rules; simp)

lemma mt_add_nlink [mt_rules]: "maintains kinv (add_nlink x1 x2)"
  unfolding add_nlink_def by (intro mt_rules; simp)

lemma mt_sys_link_bad [mt_rules]: "maintains kinv (sys_link_bad x1)"
  unfolding sys_link_bad_def by (intro mt_rules; simp)

lemma mt_sys_link_dir [mt_rules]: "maintains kinv (sys_link_dir x1 x2 x3)"
  unfolding sys_link_dir_def by (intro mt_rules; simp)

lemma mt_sys_link [mt_rules]: "maintains kinv sys_link"
  unfolding sys_link_def by (intro mt_rules; simp)

lemma mt_isdirempty_body [mt_rules]: "maintains kinv (isdirempty_body x1 x2)"
  unfolding isdirempty_body_def by (intro mt_rules; simp)

lemma mt_isdirempty [mt_rules]: "maintains kinv (isdirempty x1)"
  unfolding isdirempty_def by (intro mt_rules; simp)

lemma mt_sys_unlink_bad [mt_rules]: "maintains kinv (sys_unlink_bad x1)"
  unfolding sys_unlink_bad_def by (intro mt_rules; simp)

lemma mt_sys_unlink_at [mt_rules]: "maintains kinv (sys_unlink_at x1 x2 x3)"
  unfolding sys_unlink_at_def by (intro mt_rules; simp)

lemma mt_sys_unlink [mt_rules]: "maintains kinv sys_unlink"
  unfolding sys_unlink_def by (intro mt_rules; simp)

lemma mt_create_fail [mt_rules]: "maintains kinv (create_fail x1 x2)"
  unfolding create_fail_def by (intro mt_rules; simp)

lemma mt_create_dots [mt_rules]: "maintains kinv (create_dots x1 x2)"
  unfolding create_dots_def by (intro mt_rules; simp)

lemma mt_create_link [mt_rules]: "maintains kinv (create_link x1 x2 x3 x4)"
  unfolding create_link_def by (intro mt_rules; simp)

lemma mt_create [mt_rules]: "maintains kinv (create x1 x2 x3 x4)"
  unfolding create_def by (intro mt_rules; simp)

lemma mt_sys_open_inode [mt_rules]: "maintains kinv (sys_open_inode x1 x2)"
  unfolding sys_open_inode_def by (intro mt_rules; simp)

lemma mt_sys_open_file [mt_rules]: "maintains kinv (sys_open_file x1 x2 x3 x4)"
  unfolding sys_open_file_def by (intro mt_rules; simp)

lemma mt_sys_open [mt_rules]: "maintains kinv sys_open"
  unfolding sys_open_def by (intro mt_rules; simp)

lemma mt_finish_create [mt_rules]: "maintains kinv (finish_create x1)"
  unfolding finish_create_def by (intro mt_rules; simp)

lemma mt_sys_mkdir [mt_rules]: "maintains kinv sys_mkdir"
  unfolding sys_mkdir_def by (intro mt_rules; simp)

lemma mt_sys_mknod [mt_rules]: "maintains kinv sys_mknod"
  unfolding sys_mknod_def by (intro mt_rules; simp)

lemma mt_sys_chdir [mt_rules]: "maintains kinv sys_chdir"
  unfolding sys_chdir_def by (intro mt_rules; simp)

lemma mt_free_pages [mt_rules]: "maintains kinv (free_pages x1)"
  unfolding free_pages_def by (intro mt_rules; simp)

lemma mt_sys_exec_body [mt_rules]: "maintains kinv (sys_exec_body x1 x2)"
  unfolding sys_exec_body_def by (intro mt_rules; simp)

lemma mt_sys_exec [mt_rules]: "maintains kinv sys_exec"
  unfolding sys_exec_def by (intro mt_rules; simp)

lemma mt_sys_pipe_fail [mt_rules]: "maintains kinv (sys_pipe_fail x1 x2)"
  unfolding sys_pipe_fail_def by (intro mt_rules; simp)

lemma mt_sys_pipe_out [mt_rules]: "maintains kinv (sys_pipe_out x1 x2 x3 x4 x5 x6)"
  unfolding sys_pipe_out_def by (intro mt_rules; simp)

lemma mt_sys_pipe [mt_rules]: "maintains kinv sys_pipe"
  unfolding sys_pipe_def by (intro mt_rules; simp)

lemma mt_syscalls: "syscalls num = Some h \<Longrightarrow> maintains kinv h"
  unfolding syscalls_def by (auto split: if_splits intro: mt_rules)

lemma mt_syscall_case:
  "maintains kinv m \<Longrightarrow> (\<And>r. maintains kinv (f r)) \<Longrightarrow>
   maintains kinv (case syscalls num of None \<Rightarrow> m | Some h \<Rightarrow> kbind h f)"
  by (auto split: option.split intro: mt_bind mt_syscalls)

lemma mt_syscall [mt_rules]: "maintains kinv syscall"
  unfolding syscall_def Let_def by (intro mt_syscall_case mt_rules)

section \<open>Traps and start-up\<close>

lemma mt_mmio_write [mt_rules]: "maintains kinv (mmio_write x1 x2)"
  unfolding mmio_write_def by (intro mt_rules; simp)

lemma mt_plicinit [mt_rules]: "maintains kinv plicinit"
  unfolding plicinit_def by (intro mt_rules; simp)

lemma mt_plicinithart [mt_rules]: "maintains kinv plicinithart"
  unfolding plicinithart_def by (intro mt_rules; simp)

lemma mt_plic_claim [mt_rules]: "maintains kinv plic_claim"
  unfolding plic_claim_def by (intro mt_rules; simp)

lemma mt_plic_complete [mt_rules]: "maintains kinv (plic_complete x1)"
  unfolding plic_complete_def by (intro mt_rules; simp)

lemma mt_set_timer [mt_rules]: "maintains kinv (set_timer x1)"
  unfolding set_timer_def by (intro mt_rules; simp)

lemma mt_timerinit [mt_rules]: "maintains kinv timerinit"
  unfolding timerinit_def by (intro mt_rules; simp)

lemma mt_trapinit [mt_rules]: "maintains kinv trapinit"
  unfolding trapinit_def by (intro mt_rules; simp)

lemma mt_trapinithart [mt_rules]: "maintains kinv trapinithart"
  unfolding trapinithart_def by (intro mt_rules; simp)

lemma mt_clockintr [mt_rules]: "maintains kinv clockintr"
  unfolding clockintr_def by (intro mt_rules; simp)

lemma mt_devintr [mt_rules]: "maintains kinv devintr"
  unfolding devintr_def by (intro mt_rules; simp)

lemma mt_kerneltrap [mt_rules]: "maintains kinv kerneltrap"
  unfolding kerneltrap_def by (intro mt_rules; simp)

lemma mt_usertrap_syscall [mt_rules]: "maintains kinv (usertrap_syscall x1)"
  unfolding usertrap_syscall_def by (intro mt_rules; simp)

lemma mt_usertrap_fault [mt_rules]: "maintains kinv (usertrap_fault x1)"
  unfolding usertrap_fault_def by (intro mt_rules; simp)

lemma mt_usertrap [mt_rules]: "maintains kinv usertrap"
  unfolding usertrap_def by (intro mt_rules; simp)

lemma mt_ramdisk_init [mt_rules]: "maintains kinv (ramdisk_init x1)"
  unfolding ramdisk_init_def by (intro mt_rules; simp)

lemma mt_main [mt_rules]: "maintains kinv (main x1 x2)"
  unfolding main_def by (intro mt_rules; simp)

lemma mt_set_m [mt_rules]: "maintains kinv (set_m x1)"
  unfolding set_m_def by (intro mt_rules; simp)

lemma mt_timer_s_init [mt_rules]: "maintains kinv timer_s_init"
  unfolding timer_s_init_def by (intro mt_rules; simp)

lemma mt_start [mt_rules]: "maintains kinv (start x1 x2 x3)"
  unfolding start_def by (intro mt_rules; simp)

section \<open>The whole kernel\<close>

text \<open>
  A machine is a kernel state with the kernel threads that are under way. A thread starts where user code,
  an interrupt, a new process or the boot loader enters the kernel, runs until it gives up the hart,
  and may be resumed in any later state. Between two steps the environment may change everything that the
  threads do not own: user memory, devices, registers, and the scheduling state.
\<close>

inductive entry :: "(unit, 'z trapst_scheme) km \<Rightarrow> bool" where
  entry_user: "entry (kbind usertrap (\<lambda>_. kret ()))"
| entry_kernel: "entry kerneltrap"
| entry_fork: "entry (kbind forkret (\<lambda>_. kret ()))"
| entry_boot: "entry (main fs_img_start passes)"

inductive kstep ::
    "'z trapst_scheme \<times> (unit, 'z trapst_scheme) km list \<Rightarrow>
     'z trapst_scheme \<times> (unit, 'z trapst_scheme) km list \<Rightarrow> bool" where
  kstep_enter: "entry m \<Longrightarrow> kstep (s, ts) (s, ts @ [m])"
| kstep_switch: "i < length ts \<Longrightarrow> (ts ! i) s = Swtch t k \<Longrightarrow> kstep (s, ts) (t, ts[i := k])"
| kstep_leave: "i < length ts \<Longrightarrow> (ts ! i) s = Ok () t \<Longrightarrow> kstep (s, ts) (t, take i ts @ drop (i + 1) ts)"
| kstep_other: "kobs t = kobs s \<Longrightarrow> kstep (s, ts) (t, ts)"

lemma maintains_Swtch:
  "maintains I m \<Longrightarrow> I s \<Longrightarrow> m s = Swtch t k \<Longrightarrow> I t \<and> maintains I k"
  by (drule (1) maintainsD) (simp add: rg_def maintains_def)

lemma maintains_Ok: "maintains I m \<Longrightarrow> I s \<Longrightarrow> m s = Ok a t \<Longrightarrow> I t"
  by (drule (1) maintainsD) (simp add: rg_def)

lemma mt_entry: "entry m \<Longrightarrow> maintains kinv m"
  by (erule entry.cases; simp only:; intro mt_rules)

definition machine_ok :: "'z trapst_scheme \<times> (unit, 'z trapst_scheme) km list \<Rightarrow> bool" where
  "machine_ok x \<longleftrightarrow> kinv (fst x) \<and> (\<forall>m\<in>set (snd x). maintains kinv m)"

lemma machine_ok_step: "kstep x y \<Longrightarrow> machine_ok x \<Longrightarrow> machine_ok y"
proof (induction rule: kstep.induct)
  case (kstep_switch i ts s t k)
  then have "maintains kinv (ts ! i)" "kinv s" by (simp_all add: machine_ok_def)
  from maintains_Swtch [OF this kstep_switch(2)] kstep_switch show ?case
    using set_update_subset_insert [of ts i k] by (auto simp: machine_ok_def)
next
  case (kstep_leave i ts s t)
  then have "maintains kinv (ts ! i)" "kinv s" by (simp_all add: machine_ok_def)
  from maintains_Ok [OF this kstep_leave(2)] kstep_leave show ?case
    by (auto simp: machine_ok_def dest: in_set_takeD in_set_dropD)
next
  case (kstep_other t s ts)
  then show ?case using kinv_kobs [OF kstep_other(1)] by (simp add: machine_ok_def)
qed (auto simp: machine_ok_def mt_entry)

lemma machine_ok_steps: "kstep\<^sup>*\<^sup>* x y \<Longrightarrow> machine_ok x \<Longrightarrow> machine_ok y"
  by (induction rule: rtranclp_induct) (auto intro: machine_ok_step)


definition small_trapst :: trapst where
  "small_trapst = filest.extend small_filest
     \<lparr>plic_pending = (\<lambda>_. []), mmio = [], sie = (\<lambda>_. 0),
       mcsr = \<lparr>m_mstatus = 0, m_mepc = 0, m_medeleg = 0, m_mideleg = 0, m_mie = 0, m_menvcfg = 0,
         m_mcounteren = 0, m_mxstatus = 0, m_pmpaddr3 = 0, m_pmpcfg0 = 0, m_tp = 0\<rparr>\<rparr>"

lemma kinv_small: "kinv small_trapst"
  by (simp add: kinv_def small_trapst_def small_filest_def filest.defs trapst.defs Let_def buf_ok_def log_ok_def
      din_ok_def cons_ok_def pipe_ok_def small_bufs_def small_wal_def small_inode_def)


end
