(* ===== verification/Bcache.thy ===== *)
theory Bcache
  imports Log
begin

text \<open>
  The buffer cache as the log uses it: an abstract description of the cache while one process runs
  file-system code, and rules for the operations of the cache over it.
\<close>

section \<open>The cache as the log sees it\<close>

text \<open>
  \<open>cst dev P H s\<close>: every buffer in use is of device \<open>dev\<close>, the blocks of \<open>P\<close> are pinned once, and
  the process holds the buffers of \<open>H\<close>, pairs of a buffer and its block; no other buffer is referenced.
\<close>

definition in_disk :: "u32 \<Rightarrow> 'z biost_scheme \<Rightarrow> bool" where
  "in_disk n s \<longleftrightarrow> unat n * BSIZE + BSIZE \<le> rdisk_size s \<and> rdisk_size s \<le> 2 ^ 32"

definition slot_ok :: "u32 \<Rightarrow> u32 set \<Rightarrow> bool \<Rightarrow> 'z biost_scheme \<Rightarrow> buf \<Rightarrow> bool" where
  "slot_ok dev P h s x \<longleftrightarrow> length (b_data x) = BSIZE
     \<and> (b_dev x = dev \<and> in_disk (b_blockno x) s \<or> b_dev x = 0 \<and> \<not> b_valid x \<and> \<not> h)
     \<and> b_refcnt x = (if b_dev x = dev \<and> b_blockno x \<in> P then 1 else 0) + (if h then 1 else 0)
     \<and> (h \<longrightarrow> b_valid x)"

definition slots :: "u32 \<Rightarrow> u32 set \<Rightarrow> (nat \<times> u32) list \<Rightarrow> 'z biost_scheme \<Rightarrow> bool" where
  "slots dev P H s \<longleftrightarrow> (\<forall>b<NBUF. slot_ok dev P (b \<in> fst ` set H) s (bufs s b))
     \<and> (\<forall>(b, n)\<in>set H. b < NBUF \<and> b_blockno (bufs s b) = n) \<and> distinct (map fst H)
     \<and> (\<forall>n\<in>P. \<exists>b<NBUF. key dev n (bufs s b) \<and> b_valid (bufs s b))"

definition locks_ok :: "nat set \<Rightarrow> 'z biost_scheme \<Rightarrow> bool" where
  "locks_ok B s \<longleftrightarrow> calm s \<and> (\<forall>b<NBUF. sl_locked (slocks s (LBuf b)) \<longleftrightarrow> b \<in> B) \<and> (\<forall>b\<in>B. mine (LBuf b) s)"

definition cst :: "u32 \<Rightarrow> u32 set \<Rightarrow> (nat \<times> u32) list \<Rightarrow> 'z biost_scheme \<Rightarrow> bool" where
  "cst dev P H s \<longleftrightarrow> dev \<noteq> 0 \<and> (\<exists>xs. bc_inv xs s) \<and> slots dev P H s \<and> locks_ok (fst ` set H) s"

text \<open>What the operations of the cache do not touch.\<close>

definition frame :: "'z logst_scheme \<Rightarrow> 'z logst_scheme \<Rightarrow> bool" where
  "frame s t \<longleftrightarrow> rdisk t = rdisk s \<and> rdisk_size t = rdisk_size s \<and> disk_writes t = disk_writes s \<and> klog t = klog s"

lemma in_disk_addr: "in_disk n s \<Longrightarrow> disk_addr n = unat n * BSIZE"
  by (simp add: in_disk_def disk_addr_def unat_word_ariths)

lemma in_disk_room: "in_disk n s \<Longrightarrow> disk_addr n + BSIZE \<le> rdisk_size s"
  using in_disk_addr [of n s] by (simp add: in_disk_def)

lemma disk_addr_inj: "in_disk n s \<Longrightarrow> in_disk m s \<Longrightarrow> disk_addr n = disk_addr m \<Longrightarrow> n = m"
  by (simp add: in_disk_addr)

lemma cst_slot: "cst dev P H s \<Longrightarrow> b < NBUF \<Longrightarrow> slot_ok dev P (b \<in> fst ` set H) s (bufs s b)"
  by (simp add: cst_def slots_def)

lemma cst_held:
  assumes "cst dev P H s" and "(b, n) \<in> set H"
  shows "b < NBUF" "key dev n (bufs s b)" "b_valid (bufs s b)" "mine (LBuf b) s" "in_disk n s"
    "length (b_data (bufs s b)) = BSIZE" "b_data (bufs s b) = block_view dev n s"
    "b_refcnt (bufs s b) = (if n \<in> P then 2 else 1)"
proof -
  have b: "b < NBUF" "b_blockno (bufs s b) = n" "b \<in> fst ` set H"
    using assms by (force simp: cst_def slots_def)+
  from cst_slot [OF assms(1) b(1)] b(3) have s: "slot_ok dev P True s (bufs s b)" by simp
  then show v: "b_valid (bufs s b)" and k: "key dev n (bufs s b)" and "in_disk n s"
    "length (b_data (bufs s b)) = BSIZE" "b_refcnt (bufs s b) = (if n \<in> P then 2 else 1)"
    using b by (auto simp: slot_ok_def key_def)
  show "b < NBUF" by (fact b(1))
  show "mine (LBuf b) s" using assms(1) b(3) by (auto simp: cst_def locks_ok_def)
  from assms(1) obtain xs where "bc_inv xs s" "dev \<noteq> 0" by (auto simp: cst_def)
  from block_view_cached [OF this b(1) k] v show "b_data (bufs s b) = block_view dev n s" by simp
qed

text \<open>A block that is neither pinned nor held reads as it is on the disk.\<close>

lemma cst_clean:
  assumes "cst dev P H s" and "n \<notin> P" and "n \<notin> snd ` set H"
  shows "block_view dev n s = on_disk n s"
proof (cases "\<exists>b<NBUF. key dev n (bufs s b)")
  case True
  then obtain b where b: "b < NBUF" "key dev n (bufs s b)" by blast
  from assms(1) obtain xs where i: "bc_inv xs s" "dev \<noteq> 0" by (auto simp: cst_def)
  have "b \<notin> fst ` set H"
  proof
    assume "b \<in> fst ` set H"
    then obtain m where m: "(b, m) \<in> set H" by auto
    from cst_held(2) [OF assms(1) m] b(2) have "m = n" by (simp add: key_def)
    with m assms(3) show False by force
  qed
  then have "b_refcnt (bufs s b) = 0"
    using cst_slot [OF assms(1) b(1)] b(2) assms(2) by (simp add: slot_ok_def key_def)
  then show ?thesis using block_view_cached [OF i b] i(1) b by (auto simp: bc_inv_def key_def)
next
  case False
  then show ?thesis by (intro block_view_uncached) blast
qed

text \<open>There is room for one more buffer as long as not all are referenced.\<close>

lemma cst_room:
  assumes "cst dev P H s" and "card P + length H < NBUF"
  shows "\<exists>b<NBUF. b_refcnt (bufs s b) = 0"
proof (rule ccontr)
  let ?B = "{b. b < NBUF \<and> b_dev (bufs s b) = dev \<and> b_blockno (bufs s b) \<in> P}"
  from assms(1) obtain xs where i: "bc_inv xs s" "dev \<noteq> 0" by (auto simp: cst_def)
  have "inj_on (\<lambda>b. b_blockno (bufs s b)) ?B"
    using bc_inv_unique [OF i(1) _ _ i(2)] by (intro inj_onI) (auto simp: key_def)
  then have "card ?B = card ((\<lambda>b. b_blockno (bufs s b)) ` ?B)" by (simp add: card_image)
  also have "\<dots> \<le> card P" by (intro card_mono) auto
  finally have B: "card ?B \<le> card P" .
  assume no: "\<not> (\<exists>b<NBUF. b_refcnt (bufs s b) = 0)"
  have "{0..<NBUF} \<subseteq> ?B \<union> fst ` set H"
  proof
    fix b assume "b \<in> {0..<NBUF}"
    then have b: "b < NBUF" by simp
    show "b \<in> ?B \<union> fst ` set H"
      using cst_slot [OF assms(1) b] no b by (auto simp: slot_ok_def split: if_splits)
  qed
  then have "NBUF \<le> card (?B \<union> fst ` set H)"
    using card_mono [of "?B \<union> fst ` set H" "{0..<NBUF}"] by simp
  also have "\<dots> \<le> card ?B + card (fst ` set H)" by (rule card_Un_le)
  also have "card (fst ` set H) \<le> length H"
    using card_image_le [of "set H" fst] card_length [of H] by simp
  finally show False using B assms(2) by linarith
qed

section \<open>Rules for the operations of the cache\<close>

lemma locks_ok_take:
  "locks_ok B s \<Longrightarrow> b \<notin> B \<Longrightarrow>
   locks_ok (insert b B) (s\<lparr>lks := touch (lks s), slocks := taken (LBuf b) s, bufs := x\<rparr>)"
  by (auto simp: locks_ok_def mine_def taken_def mypid_def calm_def)

lemma locks_ok_touch: "locks_ok B s \<Longrightarrow> locks_ok B (s\<lparr>lks := touch (lks s), bufs := x\<rparr>)"
  by (auto simp: locks_ok_def mine_def mypid_def calm_def)

lemma held_fst: "cst dev P H s \<Longrightarrow> b \<in> fst ` set H \<Longrightarrow> \<exists>m\<in>snd ` set H. (b, m) \<in> set H \<and> key dev m (bufs s b)"
  using cst_held(2) by force

lemma cst_unreferenced:
  assumes "cst dev P H s" and "b < NBUF" and "n \<notin> snd ` set H" and "key dev n (bufs s b) \<or> b_refcnt (bufs s b) = 0"
  shows "b \<notin> fst ` set H"
proof
  assume "b \<in> fst ` set H"
  with held_fst [OF assms(1)] obtain m where m: "(b, m) \<in> set H" "key dev m (bufs s b)" "m \<in> snd ` set H" by blast
  with cst_held(8) [OF assms(1) m(1)] assms(3,4) show False by (auto simp: key_def split: if_splits)
qed

lemma slots_bread:
  assumes c: "cst dev P H s" and n: "in_disk n s" and b: "b < NBUF" "b \<notin> fst ` set H"
    and k: "key dev n (bufs s b) \<or> (\<forall>c < NBUF. \<not> key dev n (bufs s c)) \<and> b_refcnt (bufs s b) = 0"
    and t: "bufs t = (bufs s)(b := filled s (got_buf dev n (bufs s b)))" "rdisk_size t = rdisk_size s"
  shows "slots dev P ((b, n) # H) t"
proof -
  have d: "in_disk m t = in_disk m s" for m using t(2) by (simp add: in_disk_def)
  have so: "slot_ok dev P (a \<in> fst ` set H) s (bufs s a)" if "a < NBUF" for a by (rule cst_slot [OF c that])
  have pin: "b_refcnt (bufs s a) \<noteq> 0" if "a < NBUF" "key dev m (bufs s a)" "m \<in> P" for a m
    using so [OF that(1)] that(2,3) by (auto simp: slot_ok_def key_def)
  have np: "n \<notin> P" if "\<not> key dev n (bufs s b)"
    using k that c by (auto simp: cst_def slots_def)
  have "slot_ok dev P True t (filled s (got_buf dev n (bufs s b)))"
    using so [OF b(1)] b(2) n np k d
    by (auto simp: slot_ok_def filled_def got_buf_def key_def on_disk_def rd_read_def)
  moreover have "slot_ok dev P (a \<in> fst ` set H) t (bufs s a)" if "a < NBUF" for a
    using so [OF that] d by (simp add: slot_ok_def)
  moreover have "\<exists>a<NBUF. key dev m (bufs t a) \<and> b_valid (bufs t a)" if m: "m \<in> P" for m
  proof -
    from c m obtain a where a: "a < NBUF" "key dev m (bufs s a)" "b_valid (bufs s a)" by (auto simp: cst_def slots_def)
    have "m = n" if "a = b" using k pin [OF a(1,2) m] a(2) that by (auto simp: key_def)
    then have "key dev m (bufs t a) \<and> b_valid (bufs t a)" using a t(1) by (cases "a = b") auto
    with a(1) show ?thesis by blast
  qed
  moreover have "a < NBUF \<and> a \<noteq> b \<and> b_blockno (bufs s a) = m" if "(a, m) \<in> set H" for a m
    using cst_held(1,2) [OF c that] b(2) that by (force simp: key_def)
  moreover have "distinct (map fst H)" using c by (simp add: cst_def slots_def)
  ultimately show ?thesis using b t(1) unfolding slots_def by auto
qed

lemma wp_bread:
  assumes c: "cst dev P H s" and n: "in_disk n s" and nh: "n \<notin> snd ` set H" and room: "n \<in> P \<or> card P + length H < NBUF"
    and Q: "\<And>b t. cst dev P ((b, n) # H) t \<Longrightarrow> frame s t \<Longrightarrow> (\<And>m. block_view dev m t = block_view dev m s) \<Longrightarrow> Q b t"
  shows "wp (bread dev n) Q s"
proof -
  from c obtain xs where i: "bc_inv xs s" "dev \<noteq> 0" "calm s" "locks_ok (fst ` set H) s"
    by (auto simp: cst_def locks_ok_def)
  have ex: "\<exists>b<NBUF. key dev n (bufs s b) \<or> b_refcnt (bufs s b) = 0"
    using room cst_room [OF c] c by (auto simp: cst_def slots_def)
  have free: "\<forall>b<NBUF. key dev n (bufs s b) \<or> b_refcnt (bufs s b) = 0 \<longrightarrow> \<not> sl_locked (slocks s (LBuf b))"
    using cst_unreferenced [OF c _ nh] i(4) by (auto simp: locks_ok_def)
  have "lru (bufs s) xs" using i(1) by (simp add: bc_inv_def)
  from bread_ok [OF i(3) this ex free in_disk_room [OF n]] obtain b where b: "b < NBUF"
    and k: "key dev n (bufs s b) \<or> (\<forall>c < NBUF. \<not> key dev n (bufs s c)) \<and> b_refcnt (bufs s b) = 0"
    and r: "bread dev n s = Ok b (s\<lparr>lks := touch (lks s), slocks := taken (LBuf b) s,
      bufs := (bufs s)(b := filled s (got_buf dev n (bufs s b)))\<rparr>)" (is "_ = Ok b ?t")
    by blast
  have bh: "b \<notin> fst ` set H" using cst_unreferenced [OF c b nh] k by blast
  have rc: "b_refcnt (bufs s b) + 1 \<noteq> 0" using cst_slot [OF c b] by (auto simp: slot_ok_def)
  note v = bread_view [OF i(1,2) b rc k, of ?t]
  have "slots dev P ((b, n) # H) ?t" by (rule slots_bread [OF c n b bh k]) simp_all
  moreover have "locks_ok (fst ` set ((b, n) # H)) ?t" using locks_ok_take [OF i(4) bh] by simp
  ultimately have "cst dev P ((b, n) # H) ?t" using v(1) i(2) by (auto simp: cst_def)
  moreover have "frame s ?t" by (simp add: frame_def)
  moreover have "block_view dev m ?t = block_view dev m s" for m using v(3) [of dev m] i(2) by simp
  ultimately show ?thesis using Q [of b ?t] r by (auto simp: wp_iff)
qed

text \<open>Changing a held buffer.\<close>

lemma block_view_cong:
  assumes "\<And>c. c < NBUF \<Longrightarrow> key d m (bufs t c) \<and> b_valid (bufs t c) \<longleftrightarrow> key d m (bufs s c) \<and> b_valid (bufs s c)"
    and "\<And>c. c < NBUF \<Longrightarrow> key d m (bufs s c) \<Longrightarrow> b_valid (bufs s c) \<Longrightarrow> b_data (bufs t c) = b_data (bufs s c)"
    and "on_disk m t = on_disk m s"
  shows "block_view d m t = block_view d m s"
proof -
  have "find (\<lambda>b. key d m (bufs t b) \<and> b_valid (bufs t b)) [0..<NBUF] =
        find (\<lambda>b. key d m (bufs s b) \<and> b_valid (bufs s b)) [0..<NBUF]"
    using assms(1) by (intro find_cong) auto
  then show ?thesis
    using assms(2,3) by (auto simp: block_view_def dest: find_list_SomeD split: option.split)
qed

lemma cst_upd:
  assumes c: "cst dev P H s" and h: "(b, n) \<in> set H" and x: "slot_ok dev P' True s x" "b_blockno x = n" "b_dev x = dev"
    "b_next x = b_next (bufs s b)" "b_prev x = b_prev (bufs s b)"
    and P': "\<And>m. m \<noteq> n \<Longrightarrow> m \<in> P' \<longleftrightarrow> m \<in> P" and l: "locks_ok (fst ` set H) t"
    and t: "bufs t = (bufs s)(b := x)" "rdisk_size t = rdisk_size s" "rdisk t = rdisk s"
  shows "cst dev P' H t" and "block_view dev m t = (if m = n then b_data x else block_view dev m s)"
proof -
  note hb = cst_held [OF c h]
  from c obtain xs where i: "bc_inv xs s" "dev \<noteq> 0" by (auto simp: cst_def)
  have uniq: "a = b" if "a < NBUF" "key dev n (bufs s a)" for a
    by (rule bc_inv_unique [OF i(1) that(1) hb(1) i(2) that(2) hb(2)])
  have d: "in_disk m t = in_disk m s" "on_disk m t = on_disk m s" for m using t(2,3) by (simp_all add: in_disk_def on_disk_def)
  have v: "b_valid x" and rx: "b_refcnt x \<noteq> 0" using x(1) by (auto simp: slot_ok_def)
  have bc: "bc_inv xs t"
    using i(1) hb(2) x(2-5) rx t(1) d by (auto simp: bc_inv_def lru_upd key_def)
  have "slot_ok dev P' (a \<in> fst ` set H) t (bufs t a)" if "a < NBUF" for a
  proof (cases "a = b")
    case True
    then show ?thesis using x(1) h t(1) d by (force simp: slot_ok_def)
  next
    case False
    with uniq [OF that] P' have "b_dev (bufs s a) = dev \<Longrightarrow> b_blockno (bufs s a) \<in> P' \<longleftrightarrow> b_blockno (bufs s a) \<in> P"
      by (auto simp: key_def)
    then show ?thesis using cst_slot [OF c that] False t(1) d by (simp add: slot_ok_def)
  qed
  moreover have "\<exists>a<NBUF. key dev m (bufs t a) \<and> b_valid (bufs t a)" if m: "m \<in> P'" for m
  proof (cases "m = n")
    case True
    then show ?thesis using hb(1) x v t(1) by (intro exI [of _ b]) (simp add: key_def)
  next
    case False
    with m P' c obtain a where "a < NBUF" "key dev m (bufs s a)" "b_valid (bufs s a)"
      by (auto simp: cst_def slots_def)
    moreover from this False hb(2) have "a \<noteq> b" by (auto simp: key_def)
    ultimately show ?thesis using t(1) by (intro exI [of _ a]) simp
  qed
  moreover have "a < NBUF \<and> b_blockno (bufs t a) = k" if "(a, k) \<in> set H" for a k
    using cst_held(1,2) [OF c that] hb(2) x(2) t(1) by (auto simp: key_def)
  moreover have "distinct (map fst H)" using c by (simp add: cst_def slots_def)
  ultimately show ct: "cst dev P' H t" using i(2) bc l by (auto simp: cst_def slots_def)
  show "block_view dev m t = (if m = n then b_data x else block_view dev m s)"
  proof (cases "m = n")
    case True
    then show ?thesis using cst_held(7) [OF ct h] t(1) by simp
  next
    case False
    then have "block_view dev m t = block_view dev m s"
      using hb(2) x(2,3) t(1) d by (intro block_view_cong) (auto simp: key_def)
    with False show ?thesis by simp
  qed
qed

lemma held_slot: "cst dev P H s \<Longrightarrow> (b, n) \<in> set H \<Longrightarrow> slot_ok dev P True s (bufs s b)"
proof -
  assume c: "cst dev P H s" and h: "(b, n) \<in> set H"
  then have "b \<in> fst ` set H" by force
  with cst_slot [OF c cst_held(1) [OF c h]] show ?thesis by simp
qed

lemma wp_set_data:
  assumes c: "cst dev P H s" and h: "(b, n) \<in> set H" and f: "\<And>d. length d = BSIZE \<Longrightarrow> length (f d) = BSIZE"
    and Q: "\<And>t. cst dev P H t \<Longrightarrow> frame s t \<Longrightarrow>
      (\<And>m. block_view dev m t = (if m = n then f (block_view dev n s) else block_view dev m s)) \<Longrightarrow> Q () t"
  shows "wp (set_data b f) Q s"
proof -
  note hb = cst_held [OF c h]
  let ?x = "(bufs s b)\<lparr>b_data := f (b_data (bufs s b))\<rparr>"
  let ?t = "s\<lparr>bufs := (bufs s)(b := ?x)\<rparr>"
  have x: "slot_ok dev P True s ?x" using held_slot [OF c h] f by (simp add: slot_ok_def)
  have l: "locks_ok (fst ` set H) ?t" using c by (auto simp: cst_def locks_ok_def mine_def mypid_def)
  have e: "b_blockno ?x = n" "b_dev ?x = dev" "b_next ?x = b_next (bufs s b)" "b_prev ?x = b_prev (bufs s b)"
    using hb(2) by (simp_all add: key_def)
  note u = cst_upd [OF c h x e _ l]
  have "cst dev P H ?t" by (rule u(1)) simp_all
  moreover have "block_view dev m ?t = (if m = n then f (block_view dev n s) else block_view dev m s)" for m
    using u(2) [of m] hb(7) by simp
  ultimately show ?thesis using Q [of ?t] by (simp add: wp_mod frame_def)
qed

lemma wp_bunpin:
  assumes c: "cst dev P H s" and h: "(b, n) \<in> set H" and "n \<in> P"
    and Q: "\<And>t. cst dev (P - {n}) H t \<Longrightarrow> frame s t \<Longrightarrow> (\<And>m. block_view dev m t = block_view dev m s) \<Longrightarrow> Q () t"
  shows "wp (bunpin b) Q s"
proof -
  note hb = cst_held [OF c h]
  let ?x = "(bufs s b)\<lparr>b_refcnt := b_refcnt (bufs s b) - 1\<rparr>"
  let ?t = "s\<lparr>lks := touch (lks s), bufs := (bufs s)(b := ?x)\<rparr>"
  have cl: "lk_wf (lks s)" "\<not> locked (locks (lks s) lk)" for lk
    using c by (simp_all add: cst_def locks_ok_def calm_def)
  have r: "bunpin b s = Ok () ?t" using cl by (simp add: bunpin_def lk_free_def)
  have x: "slot_ok dev (P - {n}) True s ?x"
    using held_slot [OF c h] hb(2,8) assms(3) by (auto simp: slot_ok_def key_def)
  have l: "locks_ok (fst ` set H) ?t" using c locks_ok_touch by (auto simp: cst_def)
  have e: "b_blockno ?x = n" "b_dev ?x = dev" "b_next ?x = b_next (bufs s b)" "b_prev ?x = b_prev (bufs s b)"
    using hb(2) by (simp_all add: key_def)
  note u = cst_upd [OF c h x e _ l]
  have "cst dev (P - {n}) H ?t" by (rule u(1)) simp_all
  moreover have "block_view dev m ?t = block_view dev m s" for m using u(2) [of m] hb(7) by simp
  ultimately show ?thesis using Q [of ?t] r by (simp add: wp_iff frame_def)
qed

lemma wp_bpin:
  assumes c: "cst dev P H s" and h: "(b, n) \<in> set H" and "n \<notin> P"
    and Q: "\<And>t. cst dev (insert n P) H t \<Longrightarrow> frame s t \<Longrightarrow> (\<And>m. block_view dev m t = block_view dev m s) \<Longrightarrow> Q () t"
  shows "wp (bpin b) Q s"
proof -
  note hb = cst_held [OF c h]
  let ?x = "(bufs s b)\<lparr>b_refcnt := b_refcnt (bufs s b) + 1\<rparr>"
  let ?t = "s\<lparr>lks := touch (lks s), bufs := (bufs s)(b := ?x)\<rparr>"
  have cl: "lk_wf (lks s)" "\<not> locked (locks (lks s) lk)" for lk
    using c by (simp_all add: cst_def locks_ok_def calm_def)
  have r: "bpin b s = Ok () ?t" using cl by (simp add: bpin_def lk_free_def)
  have x: "slot_ok dev (insert n P) True s ?x"
    using held_slot [OF c h] hb(2,8) assms(3) by (auto simp: slot_ok_def key_def)
  have l: "locks_ok (fst ` set H) ?t" using c locks_ok_touch by (auto simp: cst_def)
  have e: "b_blockno ?x = n" "b_dev ?x = dev" "b_next ?x = b_next (bufs s b)" "b_prev ?x = b_prev (bufs s b)"
    using hb(2) by (simp_all add: key_def)
  note u = cst_upd [OF c h x e _ l]
  have "cst dev (insert n P) H ?t" by (rule u(1)) simp_all
  moreover have "block_view dev m ?t = block_view dev m s" for m using u(2) [of m] hb(7) by simp
  ultimately show ?thesis using Q [of ?t] r by (simp add: wp_iff frame_def)
qed

text \<open>A write of block \<open>n\<close> goes to the disk and to the trace of writes.\<close>

definition wrote :: "u32 \<Rightarrow> u8 list \<Rightarrow> 'z logst_scheme \<Rightarrow> 'z logst_scheme \<Rightarrow> bool" where
  "wrote n d s t \<longleftrightarrow> rdisk t = rd_write (disk_addr n) d (rdisk s) \<and> rdisk_size t = rdisk_size s
     \<and> disk_writes t = disk_writes s @ [(disk_addr n, d)] \<and> klog t = klog s"

lemma wrote_on_disk:
  assumes "wrote n d s t" and "length d = BSIZE" and "in_disk n s" and "in_disk m s"
  shows "on_disk m t = (if m = n then d else on_disk m s)"
  using assms disk_addr_inj [OF assms(3,4)] rd_read_write_other [OF disk_addr_dvd disk_addr_dvd]
  by (auto simp: wrote_def on_disk_def rd_read_write_same)

lemma wp_bwrite:
  assumes c: "cst dev P H s" and h: "(b, n) \<in> set H"
    and Q: "\<And>t. cst dev P H t \<Longrightarrow> wrote n (block_view dev n s) s t \<Longrightarrow>
      (\<And>m. in_disk m s \<Longrightarrow> block_view dev m t = block_view dev m s) \<Longrightarrow> Q () t"
  shows "wp (bwrite b) Q s"
proof -
  note hb = cst_held [OF c h]
  have n: "b_blockno (bufs s b) = n" using hb(2) by (simp add: key_def)
  from c obtain xs where i: "bc_inv xs s" "dev \<noteq> 0" "calm s" "locks_ok (fst ` set H) s"
    by (auto simp: cst_def locks_ok_def)
  let ?t = "s\<lparr>lks := touch (lks s), rdisk := rd_write (disk_addr n) (block_view dev n s) (rdisk s),
      disk_writes := disk_writes s @ [(disk_addr n, block_view dev n s)]\<rparr>"
  have r: "bwrite b s = Ok () ?t" using bwrite_ok [OF i(3) hb(4)] in_disk_room [OF hb(5)] n hb(7) by simp
  have w: "wrote n (block_view dev n s) s ?t" by (simp add: wrote_def)
  note od = wrote_on_disk [OF w _ hb(5)]
  have len: "length (block_view dev n s) = BSIZE" using hb(6,7) by simp
  have other: "on_disk (b_blockno (bufs s a)) ?t = on_disk (b_blockno (bufs s a)) s"
    if "a < NBUF" "b_refcnt (bufs s a) = 0" "b_valid (bufs s a)" for a
  proof -
    have a: "b_dev (bufs s a) = dev" "in_disk (b_blockno (bufs s a)) s"
      using cst_slot [OF c that(1)] that(3) by (auto simp: slot_ok_def)
    have "b_refcnt (bufs s b) \<noteq> 0" using hb(8) by simp
    then have "b_blockno (bufs s a) \<noteq> n"
      using bc_inv_unique [OF i(1) that(1) hb(1) i(2) _ hb(2)] a(1) that(2) by (auto simp: key_def)
    then show ?thesis using od [OF len a(2)] by simp
  qed
  have "bc_inv xs ?t" using i(1) other by (auto simp: bc_inv_def)
  moreover have "slots dev P H ?t" using c by (simp add: cst_def slots_def slot_ok_def in_disk_def)
  moreover have "locks_ok (fst ` set H) ?t" using i(4) by (auto simp: locks_ok_def mine_def mypid_def calm_def)
  ultimately have ct: "cst dev P H ?t" using i(2) by (auto simp: cst_def)
  have "block_view dev m ?t = block_view dev m s" if m: "in_disk m s" for m
  proof (cases "m = n")
    case True
    then show ?thesis using cst_held(7) [OF ct h] hb(7) by simp
  next
    case False
    then show ?thesis using od [OF len m] by (intro block_view_cong) simp_all
  qed
  then show ?thesis using Q [OF ct w] r by (simp add: wp_iff)
qed

lemma set_remove1_held: "cst dev P H s \<Longrightarrow> (b, n) \<in> set H \<Longrightarrow>
   set (remove1 (b, n) H) = set H - {(b, n)} \<and> fst ` set (remove1 (b, n) H) = fst ` set H - {b} \<and>
   distinct (map fst (remove1 (b, n) H))"
proof -
  assume "cst dev P H s" and h: "(b, n) \<in> set H"
  then have d: "distinct (map fst H)" by (simp add: cst_def slots_def)
  then have "distinct H" by (simp add: distinct_map)
  moreover have "a \<noteq> b" if "(a, m) \<in> set H - {(b, n)}" for a m
    using eq_key_imp_eq_value [OF d h, of m] that by auto
  moreover have "distinct (map fst (remove1 (b, n) H))"
    using d by (auto simp: distinct_map intro: inj_on_subset dest: notin_set_remove1)
  ultimately show ?thesis using h by force
qed

lemma wp_brelse:
  assumes c: "cst dev P H s" and h: "(b, n) \<in> set H" and clean: "n \<notin> P \<Longrightarrow> block_view dev n s = on_disk n s"
    and Q: "\<And>t. cst dev P (remove1 (b, n) H) t \<Longrightarrow> frame s t \<Longrightarrow> (\<And>m. block_view dev m t = block_view dev m s) \<Longrightarrow> Q () t"
  shows "wp (brelse b) Q s"
proof -
  note hb = cst_held [OF c h] and rm = set_remove1_held [OF c h]
  from c obtain xs where i: "bc_inv xs s" "dev \<noteq> 0" "calm s" "locks_ok (fst ` set H) s"
    by (auto simp: cst_def locks_ok_def)
  have "lru (bufs s) xs" using i(1) by (simp add: bc_inv_def)
  from brelse_ok [OF i(3) hb(4) this hb(1)] obtain p where
    r: "brelse b s = Ok () (s\<lparr>lks := touch (lks s), procs := p,
      slocks := (slocks s)(LBuf b := (slocks s (LBuf b))\<lparr>sl_locked := False, sl_pid := 0\<rparr>),
      bufs := released b (bufs s)\<rparr>)" (is "_ = Ok () ?t")
    and p: "p = (\<lambda>q. if q < NPROC \<and> Some q \<noteq> cpu_proc (mycpu (lks s))
                 then woken (Some (Csleep (LBuf b))) (procs s q) else procs s q)"
    by blast
  have bno: "b_blockno (bufs s b) = n" using hb(2) by (simp add: key_def)
  have ri: "bc_inv (if b_refcnt (bufs s b) = 1 then b # remove1 b xs else xs) ?t"
    using clean hb(7,8) bno by (intro released_inv [OF i(1) hb(1)]) (auto split: if_splits)
  have d: "in_disk m ?t = in_disk m s" for m by (simp add: in_disk_def)
  have "slot_ok dev P (a \<in> fst ` set (remove1 (b, n) H)) ?t (bufs ?t a)" if "a < NBUF" for a
    using cst_slot [OF c that] held_slot [OF c h] rm d by (auto simp: slot_ok_def)
  moreover have "\<forall>m\<in>P. \<exists>a<NBUF. key dev m (bufs ?t a) \<and> b_valid (bufs ?t a)"
    using c by (simp add: cst_def slots_def key_def)
  moreover have "\<forall>(a, m)\<in>set (remove1 (b, n) H). a < NBUF \<and> b_blockno (bufs ?t a) = m"
    using c rm by (auto simp: cst_def slots_def)
  ultimately have "slots dev P (remove1 (b, n) H) ?t" using rm unfolding slots_def by blast
  moreover have "locks_ok (fst ` set (remove1 (b, n) H)) ?t"
    using i(4) rm unfolding p by (auto simp: locks_ok_def mine_def mypid_def calm_def woken_def)
  ultimately have "cst dev P (remove1 (b, n) H) ?t" using ri i(2) unfolding cst_def by blast
  moreover have "block_view dev m ?t = block_view dev m s" for m by (rule block_view_same) simp_all
  ultimately show ?thesis using Q [of ?t] r by (simp add: wp_iff frame_def)
qed

section \<open>Running the operations\<close>

lemma bread_step:
  assumes "cst dev P H s" and "in_disk n s" and "n \<notin> snd ` set H" and "n \<in> P \<or> card P + length H < NBUF"
  obtains b t where "bread dev n s = Ok b t" "cst dev P ((b, n) # H) t" "frame s t"
    "\<And>m. block_view dev m t = block_view dev m s"
  using wp_bread [OF assms, of "\<lambda>b t. cst dev P ((b, n) # H) t \<and> frame s t \<and> (\<forall>m. block_view dev m t = block_view dev m s)"]
  by (auto simp: wp_iff)

lemma set_data_step:
  assumes "cst dev P H s" and "(b, n) \<in> set H" and "\<And>d. length d = BSIZE \<Longrightarrow> length (f d) = BSIZE"
  obtains t where "set_data b f s = Ok () t" "cst dev P H t" "frame s t"
    "\<And>m. block_view dev m t = (if m = n then f (block_view dev n s) else block_view dev m s)"
proof -
  have "wp (set_data b f) (\<lambda>_ t. cst dev P H t \<and> frame s t \<and>
      (\<forall>m. block_view dev m t = (if m = n then f (block_view dev n s) else block_view dev m s))) s"
    by (rule wp_set_data [OF assms(1,2)]) (auto simp: assms(3))
  with that show thesis by (auto simp: wp_iff simp del: set_data_def)
qed

lemma bwrite_step:
  assumes "cst dev P H s" and "(b, n) \<in> set H"
  obtains t where "bwrite b s = Ok () t" "cst dev P H t" "wrote n (block_view dev n s) s t"
    "\<And>m. in_disk m s \<Longrightarrow> block_view dev m t = block_view dev m s"
  using wp_bwrite [OF assms, of "\<lambda>_ t. cst dev P H t \<and> wrote n (block_view dev n s) s t \<and>
      (\<forall>m. in_disk m s \<longrightarrow> block_view dev m t = block_view dev m s)"]
  by (auto simp: wp_iff)

lemma brelse_step:
  assumes "cst dev P H s" and "(b, n) \<in> set H" and "n \<notin> P \<Longrightarrow> block_view dev n s = on_disk n s"
  obtains t where "brelse b s = Ok () t" "cst dev P (remove1 (b, n) H) t" "frame s t"
    "\<And>m. block_view dev m t = block_view dev m s"
  using wp_brelse [OF assms, of "\<lambda>_ t. cst dev P (remove1 (b, n) H) t \<and> frame s t \<and> (\<forall>m. block_view dev m t = block_view dev m s)"]
  by (auto simp: wp_iff)

lemma bunpin_step:
  assumes "cst dev P H s" and "(b, n) \<in> set H" and "n \<in> P"
  obtains t where "bunpin b s = Ok () t" "cst dev (P - {n}) H t" "frame s t" "\<And>m. block_view dev m t = block_view dev m s"
  using wp_bunpin [OF assms, of "\<lambda>_ t. cst dev (P - {n}) H t \<and> frame s t \<and> (\<forall>m. block_view dev m t = block_view dev m s)"]
  by (auto simp: wp_iff)

lemma frame_in_disk: "frame s t \<Longrightarrow> in_disk m t = in_disk m s" "frame s t \<Longrightarrow> on_disk m t = on_disk m s"
  by (simp_all add: frame_def in_disk_def on_disk_def)

lemma wrote_in_disk: "wrote n d s t \<Longrightarrow> in_disk m t = in_disk m s"
  by (simp add: wrote_def in_disk_def)

end
