(* ===== verification/Crash.thy ===== *)
theory Crash
  imports Bcache
begin

text \<open>
  The log at work: what \<open>commit\<close> and \<open>recover_from_log\<close> write to the disk, and that a crash at any point
  of a commit loses nothing and leaves nothing half done.
\<close>

section \<open>Copying blocks\<close>

text \<open>The common part of \<open>write_log\<close> and \<open>install_trans\<close>: the block \<open>from\<close> is written to the block \<open>to\<close>.\<close>

definition copied :: "u32 \<Rightarrow> u32 \<Rightarrow> u32 \<Rightarrow> 'z logst_scheme \<Rightarrow> 'z logst_scheme \<Rightarrow> bool" where
  "copied dev from to s t \<longleftrightarrow> wrote to (block_view dev from s) s t
     \<and> (\<forall>m. in_disk m s \<longrightarrow> block_view dev m t = (if m = to then block_view dev from s else block_view dev m s))"

lemma copied_frame:
  assumes "frame s t" and "\<And>k. block_view dev k t = block_view dev k s" and "copied dev a b t u"
    and "frame u w" and "\<And>k. block_view dev k w = block_view dev k u"
  shows "copied dev a b s w"
  using assms frame_in_disk(1) [OF assms(1)] by (simp add: copied_def frame_def wrote_def)

lemma frame_trans: "frame s t \<Longrightarrow> frame t u \<Longrightarrow> frame s u"
  by (simp add: frame_def)

lemma copied_on_disk:
  assumes "copied dev a b s t" and "length (block_view dev a s) = BSIZE" and "in_disk b s" and "in_disk m s"
  shows "on_disk m t = (if m = b then block_view dev a s else on_disk m s)"
  using wrote_on_disk [OF _ assms(2-4)] assms(1) by (simp add: copied_def)

lemma copied_in_disk: "copied dev a b s t \<Longrightarrow> in_disk m t = in_disk m s"
  by (simp add: copied_def wrote_def in_disk_def)

lemma copied_klog: "copied dev a b s t \<Longrightarrow> klog t = klog s"
  by (simp add: copied_def wrote_def)

lemma cst_length: "cst dev P H s \<Longrightarrow> length (block_view dev n s) = BSIZE"
  by (auto simp: block_view_def on_disk_def rd_read_def cst_def slots_def slot_ok_def
      dest!: find_list_SomeD split: option.split)

text \<open>Both buffers are held: the data of one is stored in the other, which is written.\<close>

lemma copy_core:
  assumes c: "cst dev P H s" and a: "(a, from) \<in> set H" and b: "(b, to) \<in> set H"
  obtains t u where "set_data b (\<lambda>_. b_data (bufs s a)) s = Ok () t" "bwrite b t = Ok () u" "cst dev P H u"
    "copied dev from to s u"
proof -
  note x = cst_held(6,7) [OF c a]
  from set_data_step [OF c b, where f = "\<lambda>_. b_data (bufs s a)"] x(1) obtain t where
    t: "set_data b (\<lambda>_. b_data (bufs s a)) s = Ok () t" "cst dev P H t" "frame s t"
    and vt: "\<And>k. block_view dev k t = (if k = to then b_data (bufs s a) else block_view dev k s)" by blast
  from bwrite_step [OF t(2) b] obtain u where u: "bwrite b t = Ok () u" "cst dev P H u" "wrote to (block_view dev to t) t u"
    and vu: "\<And>k. in_disk k t \<Longrightarrow> block_view dev k u = block_view dev k t" by blast
  have "copied dev from to s u"
    using t(3) u(3) vt vu x frame_in_disk(1) [OF t(3)] by (simp add: copied_def frame_def wrote_def)
  then show thesis using that t u by blast
qed

lemma write_log_at_step:
  assumes c: "cst dev P [] s" and d: "lg_dev (klog s) = dev" and l: "lg_start (klog s) + of_nat i + 1 = l" "in_disk l s"
    and m: "lh_block (klog s) i = m" "m \<in> P" "in_disk m s" and ne: "l \<noteq> m" "l \<notin> P" and room: "card P < NBUF"
  obtains t where "write_log_at i s = Ok () t" "cst dev P [] t" "copied dev m l s t"
proof -
  have "l \<notin> snd ` set []" "l \<in> P \<or> card P + length [] < NBUF" using room by simp_all
  from bread_step [OF c l(2) this] obtain b1 t1 where r1: "bread dev l s = Ok b1 t1"
    and c1: "cst dev P [(b1, l)] t1" and f1: "frame s t1" and v1: "\<And>k. block_view dev k t1 = block_view dev k s" by blast
  have "in_disk m t1" "m \<notin> snd ` set [(b1, l)]" "m \<in> P \<or> card P + length [(b1, l)] < NBUF"
    using m ne frame_in_disk [OF f1] by simp_all
  from bread_step [OF c1 this] obtain b2 t2 where r2: "bread dev m t1 = Ok b2 t2"
    and c2: "cst dev P [(b2, m), (b1, l)] t2" and f2: "frame t1 t2" and v2: "\<And>k. block_view dev k t2 = block_view dev k t1" by blast
  have h: "(b2, m) \<in> set [(b2, m), (b1, l)]" "(b1, l) \<in> set [(b2, m), (b1, l)]" by simp_all
  from copy_core [OF c2 h] obtain t3 t4 where r3: "set_data b1 (\<lambda>_. b_data (bufs t2 b2)) t2 = Ok () t3" "bwrite b1 t3 = Ok () t4"
    and c4: "cst dev P [(b2, m), (b1, l)] t4" and w4: "copied dev m l t2 t4" by blast
  from brelse_step [OF c4 h(1)] m(2) obtain t5 where r5: "brelse b2 t4 = Ok () t5"
    and "cst dev P (remove1 (b2, m) [(b2, m), (b1, l)]) t5"
    and f5: "frame t4 t5" and v5: "\<And>k. block_view dev k t5 = block_view dev k t4" by blast
  then have c5: "cst dev P [(b1, l)] t5" by simp
  have l2: "in_disk l t2" using l(2) frame_in_disk(1) [OF f1] frame_in_disk(1) [OF f2] by simp
  have "block_view dev l t5 = on_disk l t5"
    using copied_on_disk [OF w4 cst_length [OF c2] l2 l2] w4 l2 v5 frame_in_disk(2) [OF f5] by (simp add: copied_def)
  then obtain t6 where r6: "brelse b1 t5 = Ok () t6" and "cst dev P (remove1 (b1, l) [(b1, l)]) t6"
    and f6: "frame t5 t6" and v6: "\<And>k. block_view dev k t6 = block_view dev k t5"
    using brelse_step [OF c5, of b1 l] by auto
  then have c6: "cst dev P [] t6" by simp
  have e: "lh_block (klog t1) i = m" using f1 m(1) by (simp add: frame_def)
  have "write_log_at i s = Ok () t6" using r1 r2 r3 r5 r6 d l(1) e by (simp add: write_log_at_def)
  moreover have "copied dev m l s t6"
    using v1 v2 v5 v6 by (intro copied_frame [OF frame_trans [OF f1 f2] _ w4 frame_trans [OF f5 f6]]) simp_all
  ultimately show thesis using that c6 by blast
qed

lemma install_trans_at_step:
  assumes c: "cst dev P [] s" and d: "lg_dev (klog s) = dev" and l: "lg_start (klog s) + of_nat i + 1 = l" "in_disk l s"
    and m: "lh_block (klog s) i = m" "in_disk m s" "recovering \<longleftrightarrow> m \<notin> P" and ne: "l \<noteq> m" "l \<notin> P"
    and room: "card P + (if recovering then 1 else 0) < NBUF"
  obtains t where "install_trans_at recovering i s = Ok () t" "cst dev (P - {m}) [] t" "copied dev l m s t"
proof -
  have "l \<notin> snd ` set []" "l \<in> P \<or> card P + length [] < NBUF" using room by (simp_all split: if_splits)
  from bread_step [OF c l(2) this] obtain b1 t1 where r1: "bread dev l s = Ok b1 t1"
    and c1: "cst dev P [(b1, l)] t1" and f1: "frame s t1" and v1: "\<And>k. block_view dev k t1 = block_view dev k s" by blast
  have "in_disk m t1" "m \<notin> snd ` set [(b1, l)]" "m \<in> P \<or> card P + length [(b1, l)] < NBUF"
    using m ne room frame_in_disk [OF f1] by (simp_all split: if_splits)
  from bread_step [OF c1 this] obtain b2 t2 where r2: "bread dev m t1 = Ok b2 t2"
    and c2: "cst dev P [(b2, m), (b1, l)] t2" and f2: "frame t1 t2" and v2: "\<And>k. block_view dev k t2 = block_view dev k t1" by blast
  have h: "(b1, l) \<in> set [(b2, m), (b1, l)]" "(b2, m) \<in> set [(b2, m), (b1, l)]" by simp_all
  from copy_core [OF c2 h] obtain t3 t4 where r3: "set_data b2 (\<lambda>_. b_data (bufs t2 b1)) t2 = Ok () t3" "bwrite b2 t3 = Ok () t4"
    and c4: "cst dev P [(b2, m), (b1, l)] t4" and w4: "copied dev l m t2 t4" by blast
  have "\<exists>t5. kwhen (\<not> recovering) (bunpin b2) t4 = Ok () t5 \<and> cst dev (P - {m}) [(b2, m), (b1, l)] t5 \<and> frame t4 t5 \<and>
      (\<forall>k. block_view dev k t5 = block_view dev k t4)"
  proof (cases recovering)
    case True
    with m(3) c4 show ?thesis by (simp add: frame_def)
  next
    case False
    with bunpin_step [OF c4 h(2)] m(3) show ?thesis by (auto simp: kwhen_def)
  qed
  then obtain t5 where r5: "kwhen (\<not> recovering) (bunpin b2) t4 = Ok () t5" and c5: "cst dev (P - {m}) [(b2, m), (b1, l)] t5"
    and f5: "frame t4 t5" and v5: "\<And>k. block_view dev k t5 = block_view dev k t4" by blast
  have f02: "frame s t2" by (rule frame_trans [OF f1 f2])
  have i2: "in_disk m t2" "in_disk l t2" using l(2) m(2) frame_in_disk(1) [OF f02] by simp_all
  note od = copied_on_disk [OF w4 cst_length [OF c2] i2(1)] frame_in_disk(2) [OF f5]
  have "block_view dev l s = on_disk l s" using cst_clean [OF c ne(2)] by simp
  then have "block_view dev l t5 = on_disk l t5"
    using od(1) [OF i2(2)] od(2) v5 w4 i2(2) ne(1) v1 v2 frame_in_disk(2) [OF f02] by (simp add: copied_def)
  with brelse_step [OF c5 h(1)] obtain t6 where r6: "brelse b1 t5 = Ok () t6"
    and c6: "cst dev (P - {m}) (remove1 (b1, l) [(b2, m), (b1, l)]) t6"
    and f6: "frame t5 t6" and v6: "\<And>k. block_view dev k t6 = block_view dev k t5" by blast
  have c6: "cst dev (P - {m}) [(b2, m)] t6" using c6 ne by simp
  have "block_view dev m t6 = on_disk m t6"
    using od(1) [OF i2(1)] od(2) v5 v6 w4 i2(1) frame_in_disk(2) [OF f6] by (simp add: copied_def)
  then obtain t7 where r7: "brelse b2 t6 = Ok () t7" and "cst dev (P - {m}) (remove1 (b2, m) [(b2, m)]) t7"
    and f7: "frame t6 t7" and v7: "\<And>k. block_view dev k t7 = block_view dev k t6"
    using brelse_step [OF c6, of b2 m] by auto
  then have c7: "cst dev (P - {m}) [] t7" by simp
  have e: "lh_block (klog t1) i = m" using f1 m(1) by (simp add: frame_def)
  have "install_trans_at recovering i s = Ok () t7"
    using r1 r2 r3 r5 r6 r7 d l(1) e by (simp add: install_trans_at_def)
  moreover have "copied dev l m s t7"
    using v1 v2 v5 v6 v7 by (intro copied_frame [OF f02 _ w4 frame_trans [OF f5 frame_trans [OF f6 f7]]]) simp_all
  ultimately show thesis using that c7 by blast
qed

section \<open>What the loops of the log write\<close>

definition apply_writes :: "(nat \<times> u8 list) list \<Rightarrow> (nat \<Rightarrow> u8) \<Rightarrow> (nat \<Rightarrow> u8)" where
  "apply_writes ws d = fold (\<lambda>(a, x). rd_write a x) ws d"

definition ran :: "(nat \<times> u8 list) list \<Rightarrow> 'z logst_scheme \<Rightarrow> 'z logst_scheme \<Rightarrow> bool" where
  "ran ws s t \<longleftrightarrow> rdisk t = apply_writes ws (rdisk s) \<and> disk_writes t = disk_writes s @ ws
     \<and> rdisk_size t = rdisk_size s \<and> klog t = klog s"

lemma ran_trans: "ran ws s t \<Longrightarrow> ran vs t u \<Longrightarrow> ran (ws @ vs) s u"
  by (simp add: ran_def apply_writes_def)

lemma ran_refl: "ran [] s s"
  by (simp add: ran_def apply_writes_def)

lemma copied_ran: "copied dev a b s t \<Longrightarrow> ran [(disk_addr b, block_view dev a s)] s t"
  by (simp add: ran_def copied_def wrote_def apply_writes_def)

lemma ran_in_disk: "ran ws s t \<Longrightarrow> in_disk m t = in_disk m s"
  by (simp add: ran_def in_disk_def)

text \<open>The blocks of the log, and a transaction that writes the blocks \<open>bs\<close> outside it.\<close>

definition lb :: "u32 \<Rightarrow> nat \<Rightarrow> u32" where
  "lb st i = st + of_nat i + 1"

definition in_log :: "u32 \<Rightarrow> u32 \<Rightarrow> bool" where
  "in_log st m \<longleftrightarrow> unat st \<le> unat m \<and> unat m \<le> unat st + LOGBLOCKS"

definition layout :: "u32 \<Rightarrow> u32 list \<Rightarrow> 'z logst_scheme \<Rightarrow> bool" where
  "layout st bs s \<longleftrightarrow> (unat st + LOGBLOCKS + 1) * BSIZE \<le> rdisk_size s \<and> rdisk_size s \<le> 2 ^ 32
     \<and> distinct bs \<and> length bs < LOGBLOCKS \<and> (\<forall>m\<in>set bs. in_disk m s \<and> \<not> in_log st m)"

definition txn :: "u32 \<Rightarrow> u32 \<Rightarrow> u32 list \<Rightarrow> 'z logst_scheme \<Rightarrow> bool" where
  "txn dev st bs s \<longleftrightarrow> lg_dev (klog s) = dev \<and> lg_start (klog s) = st \<and> lh_n (klog s) = int (length bs)
     \<and> (\<forall>i<length bs. lh_block (klog s) i = bs ! i)"

lemma unat_lb:
  assumes "layout st bs s" and "i < LOGBLOCKS"
  shows "unat (lb st i) = unat st + i + 1"
proof -
  have "(unat st + 31) * 1024 \<le> 2 ^ 32" using assms(1) by (simp add: layout_def)
  then have "unat st + 31 \<le> 2 ^ 22" by simp
  with assms(2) have "unat st + i + 1 < 2 ^ 32" by simp
  then have "unat (of_nat (unat st + i + 1) :: u32) = unat st + i + 1" by (simp add: unat_of_nat del: of_nat_add of_nat_Suc)
  moreover have "of_nat (unat st + i + 1) = lb st i" by (simp add: lb_def)
  ultimately show ?thesis by simp
qed

lemma lb_in_log: "layout st bs s \<Longrightarrow> i < LOGBLOCKS \<Longrightarrow> in_log st (lb st i)"
  using unat_lb [of st bs s i] unfolding in_log_def by linarith

lemma in_log_in_disk:
  assumes "layout st bs s" and "in_log st m"
  shows "in_disk m s"
proof -
  have "unat m * 1024 \<le> (unat st + 30) * 1024" using assms(2) unfolding in_log_def by (intro mult_le_mono1) blast
  then have "unat m * 1024 + 1024 \<le> (unat st + 30 + 1) * 1024" by simp
  then show ?thesis using assms(1) unfolding layout_def in_disk_def by auto
qed

lemma st_in_log: "in_log st st"
  unfolding in_log_def by linarith

lemma lb_inj:
  assumes "layout st bs s" and "i < LOGBLOCKS" and "j < LOGBLOCKS" and "lb st i = lb st j"
  shows "i = j"
proof -
  have "unat (lb st i) = unat (lb st j)" using assms(4) by (rule arg_cong)
  then show ?thesis using unat_lb [OF assms(1,2)] unat_lb [OF assms(1,3)] by linarith
qed

lemma lb_not_st:
  assumes "layout st bs s" and "i < LOGBLOCKS"
  shows "lb st i \<noteq> st"
proof
  assume "lb st i = st"
  then have "unat (lb st i) = unat st" by (rule arg_cong)
  then show False using unat_lb [OF assms] by linarith
qed

lemma kfor_append: "kfor (xs @ ys) body = kthen (kfor xs body) (kfor ys body)"
  by (induction xs) (simp_all add: kmonad)

definition log_writes :: "u32 \<Rightarrow> u32 \<Rightarrow> u32 list \<Rightarrow> 'z logst_scheme \<Rightarrow> nat \<Rightarrow> (nat \<times> u8 list) list" where
  "log_writes dev st bs s k = map (\<lambda>i. (disk_addr (lb st i), block_view dev (bs ! i) s)) [0..<k]"

definition home_writes :: "u32 \<Rightarrow> u32 \<Rightarrow> u32 list \<Rightarrow> 'z logst_scheme \<Rightarrow> nat \<Rightarrow> (nat \<times> u8 list) list" where
  "home_writes dev st bs s k = map (\<lambda>i. (disk_addr (bs ! i), block_view dev (lb st i) s)) [0..<k]"

lemma write_log_steps:
  assumes c: "cst dev (set bs) [] s" and x: "txn dev st bs s" and y: "layout st bs s" and k: "k \<le> length bs"
  shows "\<exists>t. kfor [0..<k] write_log_at s = Ok () t \<and> cst dev (set bs) [] t \<and> ran (log_writes dev st bs s k) s t
    \<and> (\<forall>i<k. block_view dev (lb st i) t = block_view dev (bs ! i) s)
    \<and> (\<forall>m. in_disk m s \<longrightarrow> (\<forall>i<k. m \<noteq> lb st i) \<longrightarrow> block_view dev m t = block_view dev m s)"
  using k
proof (induction k)
  case 0
  then show ?case using c ran_refl by (auto simp: log_writes_def)
next
  case (Suc k)
  then obtain t where r: "kfor [0..<k] write_log_at s = Ok () t" and ct: "cst dev (set bs) [] t"
    and rt: "ran (log_writes dev st bs s k) s t"
    and vt: "\<And>i. i < k \<Longrightarrow> block_view dev (lb st i) t = block_view dev (bs ! i) s"
    and ut: "\<And>m. in_disk m s \<Longrightarrow> (\<And>i. i < k \<Longrightarrow> m \<noteq> lb st i) \<Longrightarrow> block_view dev m t = block_view dev m s"
    by (metis Suc_leD)
  have k: "k < length bs" "k < LOGBLOCKS" using Suc.prems y by (simp_all add: layout_def)
  have kl: "klog t = klog s" using rt by (simp add: ran_def)
  have m: "bs ! k \<in> set bs" "in_disk (bs ! k) s" "\<not> in_log st (bs ! k)" using k(1) y by (simp_all add: layout_def)
  have l: "lb st k \<noteq> bs ! k" "lb st k \<notin> set bs" "in_disk (lb st k) s"
    using m(3) lb_in_log [OF y k(2)] in_log_in_disk [OF y] y by (auto simp: layout_def)
  obtain u where u: "write_log_at k t = Ok () u" "cst dev (set bs) [] u" "copied dev (bs ! k) (lb st k) t u"
  proof (rule write_log_at_step [OF ct])
    show "lg_dev (klog t) = dev" "lg_start (klog t) + of_nat k + 1 = lb st k" "lh_block (klog t) k = bs ! k"
      using x kl k(1) by (simp_all add: txn_def lb_def)
    show "in_disk (lb st k) t" "in_disk (bs ! k) t" using l(3) m(2) ran_in_disk [OF rt] by simp_all
    show "card (set bs) < NBUF" using y by (simp add: layout_def distinct_card)
  qed (use m l in auto)
  have vk: "block_view dev (bs ! k) t = block_view dev (bs ! k) s"
    using ut [OF m(2)] m(3) lb_in_log [OF y] k(2) by fastforce
  have "kfor [0..<Suc k] write_log_at s = Ok () u" using r u(1) by (simp add: kfor_append)
  moreover have "ran (log_writes dev st bs s (Suc k)) s u"
    using ran_trans [OF rt copied_ran [OF u(3)]] vk by (simp add: log_writes_def)
  moreover have "block_view dev (lb st i) u = block_view dev (bs ! i) s" if "i < Suc k" for i
  proof -
    have i: "i < LOGBLOCKS" using that k(2) by simp
    have "in_disk (lb st i) t" using in_log_in_disk [OF y lb_in_log [OF y i]] ran_in_disk [OF rt] by simp
    then show ?thesis using u(3) vk vt [of i] that lb_inj [OF y i k(2)] by (auto simp: copied_def less_Suc_eq)
  qed
  moreover have "block_view dev m u = block_view dev m s" if "in_disk m s" "\<forall>i<Suc k. m \<noteq> lb st i" for m
    using u(3) ut [of m] that ran_in_disk [OF rt] by (simp add: copied_def)
  ultimately show ?case using u(2) by blast
qed

lemma install_steps:
  assumes c: "cst dev (if recovering then {} else set bs) [] s" and x: "txn dev st bs s" and y: "layout st bs s"
    and k: "k \<le> length bs"
  shows "\<exists>t. kfor [0..<k] (install_trans_at recovering) s = Ok () t
    \<and> cst dev (if recovering then {} else set (drop k bs)) [] t \<and> ran (home_writes dev st bs s k) s t
    \<and> (\<forall>i<k. block_view dev (bs ! i) t = block_view dev (lb st i) s)
    \<and> (\<forall>m. in_disk m s \<longrightarrow> m \<notin> set (take k bs) \<longrightarrow> block_view dev m t = block_view dev m s)"
  using k
proof (induction k)
  case 0
  then show ?case using c ran_refl by (auto simp: home_writes_def)
next
  case (Suc k)
  let ?P = "if recovering then {} else set (drop k bs)"
  from Suc obtain t where r: "kfor [0..<k] (install_trans_at recovering) s = Ok () t" and ct: "cst dev ?P [] t"
    and rt: "ran (home_writes dev st bs s k) s t"
    and vt: "\<And>i. i < k \<Longrightarrow> block_view dev (bs ! i) t = block_view dev (lb st i) s"
    and ut: "\<And>m. in_disk m s \<Longrightarrow> m \<notin> set (take k bs) \<Longrightarrow> block_view dev m t = block_view dev m s"
    by (metis Suc_leD)
  have k: "k < length bs" "k < LOGBLOCKS" "distinct bs" using Suc.prems y by (simp_all add: layout_def)
  have kl: "klog t = klog s" using rt by (simp add: ran_def)
  have m: "bs ! k \<in> set bs" "in_disk (bs ! k) s" "\<not> in_log st (bs ! k)" using k(1) y by (simp_all add: layout_def)
  have l: "lb st k \<noteq> bs ! k" "lb st k \<notin> set bs" "in_disk (lb st k) s"
    using m(3) lb_in_log [OF y k(2)] in_log_in_disk [OF y] y by (auto simp: layout_def)
  have dk: "drop k bs = bs ! k # drop (Suc k) bs" using k(1) by (rule Cons_nth_drop_Suc [symmetric])
  have dd: "bs ! k \<notin> set (drop (Suc k) bs)" using distinct_drop [OF k(3), of k] unfolding dk by simp
  obtain u where u: "install_trans_at recovering k t = Ok () u" "cst dev (?P - {bs ! k}) [] u"
      "copied dev (lb st k) (bs ! k) t u"
  proof (rule install_trans_at_step [OF ct])
    show "lg_dev (klog t) = dev" "lg_start (klog t) + of_nat k + 1 = lb st k" "lh_block (klog t) k = bs ! k"
      using x kl k(1) by (simp_all add: txn_def lb_def)
    show "in_disk (lb st k) t" "in_disk (bs ! k) t" using l(3) m(2) ran_in_disk [OF rt] by simp_all
    show "recovering = (bs ! k \<notin> ?P)" using dk by simp
    have "card (set (drop k bs)) \<le> length bs" by (rule order_trans [OF card_length]) simp
    then show "card ?P + (if recovering then 1 else 0) < NBUF" using y by (simp add: layout_def)
    show "lb st k \<notin> ?P" using l(2) by (auto dest: in_set_dropD)
  qed (use l in auto)
  have P: "?P - {bs ! k} = (if recovering then {} else set (drop (Suc k) bs))" using dk dd by auto
  have vk: "block_view dev (lb st k) t = block_view dev (lb st k) s"
    using ut [OF l(3)] l(2) by (auto dest: in_set_takeD)
  have "kfor [0..<Suc k] (install_trans_at recovering) s = Ok () u" using r u(1) by (simp add: kfor_append)
  moreover have "ran (home_writes dev st bs s (Suc k)) s u"
    using ran_trans [OF rt copied_ran [OF u(3)]] vk by (simp add: home_writes_def)
  moreover have "block_view dev (bs ! i) u = block_view dev (lb st i) s" if "i < Suc k" for i
  proof -
    have i: "i < length bs" using that k(1) by simp
    then have "in_disk (bs ! i) t" using y ran_in_disk [OF rt] by (simp add: layout_def)
    then show ?thesis using u(3) vk vt [of i] that nth_eq_iff_index_eq [OF k(3) i k(1)] by (auto simp: copied_def less_Suc_eq)
  qed
  moreover have "block_view dev m u = block_view dev m s" if "in_disk m s" "m \<notin> set (take (Suc k) bs)" for m
    using u(3) ut [of m] that ran_in_disk [OF rt] k(1) by (simp add: copied_def take_Suc_conv_app_nth)
  ultimately show ?case using u(2) P by auto
qed

section \<open>The header\<close>

definition head_bytes :: "nat \<Rightarrow> (nat \<Rightarrow> u32) \<Rightarrow> u8 list \<Rightarrow> u8 list" where
  "head_bytes n blk d = fold (\<lambda>i. put32 (4 + 4 * i) (blk i)) [0..<n] (put32 0 (of_nat n) d)"

lemma head_fold:
  assumes "length d = BSIZE" and "n \<le> LOGBLOCKS"
  shows "length (fold (\<lambda>i. put32 (4 + 4 * i) (blk i)) [0..<n] d) = BSIZE \<and>
    get32 0 (fold (\<lambda>i. put32 (4 + 4 * i) (blk i)) [0..<n] d) = get32 0 d \<and>
    (\<forall>i<n. get32 (4 + 4 * i) (fold (\<lambda>i. put32 (4 + 4 * i) (blk i)) [0..<n] d) = blk i)"
  using assms(2)
proof (induction n)
  case (Suc n)
  then show ?case
    by (auto simp: get32_put32 get32_put32_other less_Suc_eq)
qed (simp add: assms(1))

lemma head_bytes_ok:
  assumes "length d = BSIZE" and "n \<le> LOGBLOCKS"
  shows "length (head_bytes n blk d) = BSIZE" "get32 0 (head_bytes n blk d) = of_nat n"
    "i < n \<Longrightarrow> get32 (4 + 4 * i) (head_bytes n blk d) = blk i"
  using head_fold [of "put32 0 (of_nat n) d" n blk] assms by (simp_all add: head_bytes_def get32_put32)

lemma write_head_loop:
  assumes c: "cst dev P [(b, st)] s" and k: "k \<le> LOGBLOCKS"
  shows "\<exists>t. kfor [0..<k] (write_head_at b) s = Ok () t
    \<and> cst dev P [(b, st)] t \<and> frame s t
    \<and> block_view dev st t = fold (\<lambda>i. put32 (4 + 4 * i) (lh_block (klog s) i)) [0..<k] (block_view dev st s)
    \<and> (\<forall>m. m \<noteq> st \<longrightarrow> block_view dev m t = block_view dev m s)"
  using k
proof (induction k)
  case 0
  then show ?case using c by (simp add: frame_def)
next
  case (Suc k)
  have "k \<le> LOGBLOCKS" using Suc.prems by simp
  from Suc.IH [OF this] obtain t where t: "kfor [0..<k] (write_head_at b) s = Ok () t" "cst dev P [(b, st)] t" "frame s t"
    "block_view dev st t = fold (\<lambda>i. put32 (4 + 4 * i) (lh_block (klog s) i)) [0..<k] (block_view dev st s)"
    "\<And>m. m \<noteq> st \<Longrightarrow> block_view dev m t = block_view dev m s" by blast
  have "length (put32 (4 + 4 * k) v d) = BSIZE" if "length d = BSIZE" for d v using Suc.prems that by simp
  then obtain u where u: "set_data b (put32 (4 + 4 * k) (lh_block (klog t) k)) t = Ok () u" "cst dev P [(b, st)] u" "frame t u"
    "\<And>m. block_view dev m u = (if m = st then put32 (4 + 4 * k) (lh_block (klog t) k) (block_view dev st t) else block_view dev m t)"
    using set_data_step [OF t(2), of b st "put32 (4 + 4 * k) (lh_block (klog t) k)"] by auto
  have "write_head_at b k t = Ok () u" using u(1) Suc.prems by (simp add: write_head_at_def)
  then have "kfor [0..<Suc k] (write_head_at b) s = Ok () u" using t(1) by (simp add: kfor_append)
  moreover have "klog t = klog s" using t(3) by (simp add: frame_def)
  ultimately show ?case using t u frame_trans [OF t(3) u(3)] by (intro exI [of _ u]) simp
qed

lemma write_head_step:
  assumes c: "cst dev P [] s" and d: "lg_dev (klog s) = dev" "lg_start (klog s) = st" "lh_n (klog s) = int n"
    and n: "n \<le> LOGBLOCKS" and st: "st \<notin> P" "in_disk st s" and room: "card P < NBUF"
  obtains t where "write_head s = Ok () t" "cst dev P [] t"
    "ran [(disk_addr st, head_bytes n (lh_block (klog s)) (block_view dev st s))] s t"
    "\<And>m. in_disk m s \<Longrightarrow> block_view dev m t = (if m = st then head_bytes n (lh_block (klog s)) (block_view dev st s) else block_view dev m s)"
proof -
  have "st \<notin> snd ` set []" "st \<in> P \<or> card P + length [] < NBUF" using room by simp_all
  from bread_step [OF c st(2) this] obtain b t1 where t1: "bread dev st s = Ok b t1" "cst dev P [(b, st)] t1" "frame s t1"
    "\<And>m. block_view dev m t1 = block_view dev m s" by blast
  have h: "(b, st) \<in> set [(b, st)]" by simp
  have k1: "klog t1 = klog s" using t1(3) by (simp add: frame_def)
  obtain t2 where t2: "set_data b (put32 0 (of_nat n)) t1 = Ok () t2" "cst dev P [(b, st)] t2" "frame t1 t2"
    "\<And>m. block_view dev m t2 = (if m = st then put32 0 (of_nat n) (block_view dev st t1) else block_view dev m t1)"
    using set_data_step [OF t1(2) h, of "put32 0 (of_nat n)"] by auto
  from write_head_loop [OF t2(2) n] obtain t3 where t3: "kfor [0..<n] (write_head_at b) t2 = Ok () t3"
    "cst dev P [(b, st)] t3" "frame t2 t3"
    "block_view dev st t3 = fold (\<lambda>i. put32 (4 + 4 * i) (lh_block (klog t2) i)) [0..<n] (block_view dev st t2)"
    "\<And>m. m \<noteq> st \<Longrightarrow> block_view dev m t3 = block_view dev m t2" by blast
  have f: "frame s t3" using t1(3) t2(3) t3(3) by (simp add: frame_def)
  have k2: "klog t2 = klog s" using k1 t2(3) by (simp add: frame_def)
  have v: "block_view dev st t3 = head_bytes n (lh_block (klog s)) (block_view dev st s)"
    using t3(4) t2(4) t1(4) k2 by (simp add: head_bytes_def)
  from bwrite_step [OF t3(2) h] obtain t4 where t4: "bwrite b t3 = Ok () t4" "cst dev P [(b, st)] t4"
    "wrote st (block_view dev st t3) t3 t4" "\<And>m. in_disk m t3 \<Longrightarrow> block_view dev m t4 = block_view dev m t3" by blast
  have s3: "in_disk st t3" using st(2) frame_in_disk(1) [OF f] by simp
  have "block_view dev st t4 = on_disk st t4"
    using wrote_on_disk [OF t4(3) cst_length [OF t3(2)] s3 s3] t4(4) [OF s3] by simp
  then obtain t5 where t5: "brelse b t4 = Ok () t5" "cst dev P (remove1 (b, st) [(b, st)]) t5" "frame t4 t5"
    "\<And>m. block_view dev m t5 = block_view dev m t4"
    using brelse_step [OF t4(2) h] by auto
  show thesis
  proof (rule that)
    show "write_head s = Ok () t5"
      using t1(1) t2(1) t3(1) t4(1) t5(1) d k1 by (simp add: write_head_def)
    show "cst dev P [] t5" using t5(2) by simp
    show "ran [(disk_addr st, head_bytes n (lh_block (klog s)) (block_view dev st s))] s t5"
      using t4(3) t5(3) f v by (simp add: ran_def wrote_def frame_def apply_writes_def)
    show "block_view dev m t5 = (if m = st then head_bytes n (lh_block (klog s)) (block_view dev st s) else block_view dev m s)"
      if "in_disk m s" for m
      using t5(4) t4(4) [of m] that frame_in_disk(1) [OF f] v t3(5) t2(4) t1(4) by simp
  qed
qed

section \<open>Commit\<close>

lemma cst_klog [simp]: "cst dev P H (s\<lparr>klog := l\<rparr>) = cst dev P H s"
  by (simp add: cst_def slots_def slot_ok_def in_disk_def locks_ok_def calm_def mine_def mypid_def bc_inv_def on_disk_def)

lemma view_klog [simp]: "block_view dev m (s\<lparr>klog := l\<rparr>) = block_view dev m s" "on_disk m (s\<lparr>klog := l\<rparr>) = on_disk m s"
  "in_disk m (s\<lparr>klog := l\<rparr>) = in_disk m s"
  by (simp_all add: block_view_def on_disk_def in_disk_def split: option.split)

text \<open>The four groups of writes of a commit: the log, the header, the home blocks, and the empty header.\<close>

definition commit_writes :: "u32 \<Rightarrow> u32 \<Rightarrow> u32 list \<Rightarrow> u8 list \<Rightarrow> u8 list \<Rightarrow> 'z logst_scheme \<Rightarrow> (nat \<times> u8 list) list" where
  "commit_writes dev st bs h1 h2 s = log_writes dev st bs s (length bs) @ [(disk_addr st, h1)]
     @ map (\<lambda>i. (disk_addr (bs ! i), block_view dev (bs ! i) s)) [0..<length bs] @ [(disk_addr st, h2)]"

definition is_head :: "u32 list \<Rightarrow> u8 list \<Rightarrow> bool" where
  "is_head bs h \<longleftrightarrow> length h = BSIZE \<and> get32 0 h = of_nat (length bs) \<and> (\<forall>i<length bs. get32 (4 + 4 * i) h = bs ! i)"

lemma commit_steps:
  assumes c: "cst dev (set bs) [] s" and x: "txn dev st bs s" and y: "layout st bs s" and "bs \<noteq> []"
  shows "\<exists>h1 h2 t. commit s = Ok () t \<and> cst dev {} [] t \<and> is_head bs h1 \<and> is_head [] h2
    \<and> disk_writes t = disk_writes s @ commit_writes dev st bs h1 h2 s
    \<and> rdisk t = apply_writes (commit_writes dev st bs h1 h2 s) (rdisk s)
    \<and> (\<forall>m. in_disk m s \<longrightarrow> \<not> in_log st m \<longrightarrow> block_view dev m t = block_view dev m s)"
proof -
  let ?n = "length bs"
  have n: "?n \<le> LOGBLOCKS" "?n < NBUF" "card (set bs) < NBUF" using y card_length [of bs] by (simp_all add: layout_def)
  have st: "st \<notin> set bs" "in_disk st s" using y st_in_log [of st] in_log_in_disk [OF y st_in_log] by (auto simp: layout_def)
  from write_log_steps [OF c x y order_refl] obtain t1 where t1: "kfor [0..<?n] write_log_at s = Ok () t1"
    "cst dev (set bs) [] t1" "ran (log_writes dev st bs s ?n) s t1"
    "\<And>i. i < ?n \<Longrightarrow> block_view dev (lb st i) t1 = block_view dev (bs ! i) s"
    "\<And>m. in_disk m s \<Longrightarrow> (\<And>i. i < ?n \<Longrightarrow> m \<noteq> lb st i) \<Longrightarrow> block_view dev m t1 = block_view dev m s" by blast
  have k1: "klog t1 = klog s" "rdisk_size t1 = rdisk_size s" using t1(3) by (simp_all add: ran_def)
  let ?h1 = "head_bytes ?n (lh_block (klog t1)) (block_view dev st t1)"
  obtain t2 where t2: "write_head t1 = Ok () t2" "cst dev (set bs) [] t2" "ran [(disk_addr st, ?h1)] t1 t2"
    "\<And>m. in_disk m t1 \<Longrightarrow> block_view dev m t2 = (if m = st then ?h1 else block_view dev m t1)"
    by (rule write_head_step [OF t1(2), of st ?n])
       (use x k1 n st ran_in_disk [OF t1(3)] in \<open>auto simp: txn_def\<close>)
  have k2: "klog t2 = klog s" "rdisk_size t2 = rdisk_size s" using t2(3) k1 by (simp_all add: ran_def)
  have x2: "txn dev st bs t2" and y2: "layout st bs t2"
    using x y k2 by (simp_all add: txn_def layout_def in_disk_def)
  have c2: "cst dev (if False then {} else set bs) [] t2" using t2(2) by simp
  from install_steps [OF c2 x2 y2 order_refl] obtain t3 where
    t3: "kfor [0..<?n] (install_trans_at False) t2 = Ok () t3" "cst dev {} [] t3" "ran (home_writes dev st bs t2 ?n) t2 t3"
    "\<And>i. i < ?n \<Longrightarrow> block_view dev (bs ! i) t3 = block_view dev (lb st i) t2"
    "\<And>m. in_disk m t2 \<Longrightarrow> m \<notin> set bs \<Longrightarrow> block_view dev m t3 = block_view dev m t2" by auto
  have lbv: "block_view dev (lb st i) t2 = block_view dev (bs ! i) s" if "i < ?n" for i
  proof -
    have i: "i < LOGBLOCKS" using that n by simp
    then show ?thesis
      using t2(4) [of "lb st i"] t1(4) [OF that] lb_not_st [OF y i] in_log_in_disk [OF y lb_in_log [OF y i]] ran_in_disk [OF t1(3)] by simp
  qed
  then have hw: "home_writes dev st bs t2 ?n = map (\<lambda>i. (disk_addr (bs ! i), block_view dev (bs ! i) s)) [0..<?n]"
    by (simp add: home_writes_def)
  let ?t = "t3\<lparr>klog := (klog t3)\<lparr>lh_n := 0\<rparr>\<rparr>"
  have k3: "klog t3 = klog s" "rdisk_size t3 = rdisk_size s" using t3(3) k2 by (simp_all add: ran_def)
  let ?h2 = "head_bytes 0 (lh_block (klog ?t)) (block_view dev st ?t)"
  have ct: "cst dev {} [] ?t" using t3(2) by simp
  have s3: "in_disk st ?t" using st(2) k3 by (simp add: in_disk_def)
  obtain t4 where t4: "write_head ?t = Ok () t4" "cst dev {} [] t4" "ran [(disk_addr st, ?h2)] ?t t4"
    "\<And>m. in_disk m ?t \<Longrightarrow> block_view dev m t4 = (if m = st then ?h2 else block_view dev m ?t)"
    by (rule write_head_step [OF ct, of st 0]) (use x k3 s3 in \<open>auto simp: txn_def\<close>)
  show ?thesis
  proof (intro exI conjI allI impI)
    have "lh_n (klog s) = int ?n" using x by (simp add: txn_def)
    then show "commit s = Ok () t4"
      using t1(1) t2(1) t3(1) t4(1) k1 k2 \<open>bs \<noteq> []\<close> by (simp add: commit_def write_log_def install_trans_def)
    show "cst dev {} [] t4" by (fact t4(2))
    have "is_head bs (head_bytes ?n (lh_block (klog s)) d)" if "length d = BSIZE" for d
      using head_bytes_ok [OF that n(1)] x by (simp add: is_head_def txn_def)
    then show "is_head bs ?h1" using cst_length [OF t1(2)] k1 by simp
    show "is_head [] ?h2" using head_bytes_ok(1,2) [OF cst_length [OF ct], of 0] by (simp add: is_head_def)
    have "ran (commit_writes dev st bs ?h1 ?h2 s) s (t4\<lparr>klog := klog s\<rparr>)"
      using t1(3) t2(3) t3(3) t4(3) k2 k3 unfolding hw commit_writes_def ran_def by (simp add: apply_writes_def)
    then show "disk_writes t4 = disk_writes s @ commit_writes dev st bs ?h1 ?h2 s"
      "rdisk t4 = apply_writes (commit_writes dev st bs ?h1 ?h2 s) (rdisk s)" by (simp_all add: ran_def)
    show "block_view dev m t4 = block_view dev m s" if m: "in_disk m s" "\<not> in_log st m" for m
    proof -
      have i: "in_disk m t1" "in_disk m t2" "in_disk m ?t" using m(1) k1 k2 k3 by (simp_all add: in_disk_def)
      have ne: "m \<noteq> st" "\<And>i. i < ?n \<Longrightarrow> m \<noteq> lb st i" using m(2) st_in_log lb_in_log [OF y] n(1) by fastforce+
      have "block_view dev m t2 = block_view dev m s" using t2(4) [OF i(1)] t1(5) [OF m(1) ne(2)] ne(1) by simp
      moreover have "block_view dev m t3 = block_view dev m t2"
      proof (cases "m \<in> set bs")
        case True
        then obtain i where "i < ?n" "bs ! i = m" by (auto simp: in_set_conv_nth)
        then show ?thesis using t3(4) [of i] lbv [of i] calculation by simp
      qed (use t3(5) i(2) in blast)
      ultimately show ?thesis using t4(4) [OF i(3)] ne(1) by simp
    qed
  qed
qed

section \<open>Recovery\<close>

lemma read_head_loop:
  "k \<le> LOGBLOCKS \<Longrightarrow> kfor [0..<k] (read_head_at d) s = Ok () (s\<lparr>klog := (klog s)\<lparr>lh_block :=
     (\<lambda>i. if i < k then get32 (4 + 4 * i) d else lh_block (klog s) i)\<rparr>\<rparr>)"
proof (induction k)
  case (Suc k)
  then show ?case by (auto simp: kfor_append read_head_at_def less_Suc_eq fun_eq_iff)
qed simp

lemma read_head_step:
  assumes c: "cst dev {} [] s" and d: "lg_dev (klog s) = dev" "lg_start (klog s) = st" and st: "in_disk st s"
    and h: "is_head bs (on_disk st s)" "length bs < LOGBLOCKS"
  obtains t where "read_head s = Ok () t" "cst dev {} [] t" "txn dev st bs t"
    "rdisk t = rdisk s" "rdisk_size t = rdisk_size s" "\<And>m. block_view dev m t = block_view dev m s"
proof -
  have "st \<notin> snd ` set []" "st \<in> {} \<or> card ({} :: u32 set) + length [] < NBUF" by simp_all
  from bread_step [OF c st this] obtain b t1 where t1: "bread dev st s = Ok b t1" "cst dev {} [(b, st)] t1" "frame s t1"
    "\<And>m. block_view dev m t1 = block_view dev m s" by blast
  have dat: "b_data (bufs t1 b) = on_disk st s"
    using cst_held(7) [OF t1(2), of b st] t1(4) cst_clean [OF c, of st] by simp
  have n: "sint (get32 0 (on_disk st s)) = int (length bs)"
  proof -
    have "get32 0 (on_disk st s) = word_of_int (int (length bs))" using h(1) by (simp add: is_head_def)
    moreover have "signed_take_bit 31 (int (length bs)) = int (length bs)"
      using h(2) by (simp add: signed_take_bit_int_eq_self)
    ultimately show ?thesis by (simp only: sint_sbintrunc') simp
  qed
  let ?l = "(klog t1)\<lparr>lh_n := int (length bs), lh_block := (\<lambda>i. if i < length bs then get32 (4 + 4 * i) (on_disk st s) else lh_block (klog t1) i)\<rparr>"
  let ?t2 = "t1\<lparr>klog := ?l\<rparr>"
  have c2: "cst dev {} [(b, st)] ?t2" using t1(2) by simp
  have "block_view dev st ?t2 = on_disk st ?t2"
    using t1(4) cst_clean [OF c, of st] frame_in_disk(2) [OF t1(3)] by simp
  then obtain t3 where t3: "brelse b ?t2 = Ok () t3" "cst dev {} (remove1 (b, st) [(b, st)]) t3" "frame ?t2 t3"
    "\<And>m. block_view dev m t3 = block_view dev m ?t2"
    using brelse_step [OF c2, of b st] by auto
  have k1: "klog t1 = klog s" using t1(3) by (simp add: frame_def)
  show thesis
  proof (rule that)
    show "read_head s = Ok () t3"
      using t1(1) t3(1) d dat n h(2) read_head_loop [of "length bs" "on_disk st s" "t1\<lparr>klog := (klog t1)\<lparr>lh_n := int (length bs)\<rparr>\<rparr>"]
      by (simp add: read_head_def cong: if_cong)
    show "cst dev {} [] t3" using t3(2) by simp
    show "txn dev st bs t3" using t3(3) d k1 h(1) by (simp add: txn_def frame_def is_head_def)
    show "rdisk t3 = rdisk s" "rdisk_size t3 = rdisk_size s" using t1(3) t3(3) by (simp_all add: frame_def)
    show "block_view dev m t3 = block_view dev m s" for m using t3(4) t1(4) by simp
  qed
qed

lemma recover_steps:
  assumes c: "cst dev {} [] s" and d: "lg_dev (klog s) = dev" "lg_start (klog s) = st"
    and h: "is_head bs (on_disk st s)" and y: "layout st bs s"
  shows "\<exists>t. recover_from_log s = Ok () t \<and> (\<forall>i<length bs. on_disk (bs ! i) t = on_disk (lb st i) s)
    \<and> (\<forall>m. in_disk m s \<longrightarrow> \<not> in_log st m \<longrightarrow> m \<notin> set bs \<longrightarrow> on_disk m t = on_disk m s)"
proof -
  let ?n = "length bs"
  have n: "?n < LOGBLOCKS" using y by (simp add: layout_def)
  have st: "in_disk st s" by (rule in_log_in_disk [OF y st_in_log])
  have clean: "block_view dev m u = on_disk m u" if "cst dev {} [] u" for m u using cst_clean [OF that] by simp
  obtain t1 where t1: "read_head s = Ok () t1" "cst dev {} [] t1" "txn dev st bs t1" "rdisk t1 = rdisk s"
    "rdisk_size t1 = rdisk_size s" "\<And>m. block_view dev m t1 = block_view dev m s"
    using read_head_step [OF c d st h n] by blast
  have y1: "layout st bs t1" using y t1(5) by (simp add: layout_def in_disk_def)
  have c1: "cst dev (if True then {} else set bs) [] t1" using t1(2) by simp
  from install_steps [OF c1 t1(3) y1 order_refl] obtain t2 where
    t2: "kfor [0..<?n] (install_trans_at True) t1 = Ok () t2" "cst dev {} [] t2" "ran (home_writes dev st bs t1 ?n) t1 t2"
    "\<And>i. i < ?n \<Longrightarrow> block_view dev (bs ! i) t2 = block_view dev (lb st i) t1"
    "\<And>m. in_disk m t1 \<Longrightarrow> m \<notin> set bs \<Longrightarrow> block_view dev m t2 = block_view dev m t1" by auto
  have k2: "klog t2 = klog t1" "rdisk_size t2 = rdisk_size s" using t2(3) t1(5) by (simp_all add: ran_def)
  let ?t = "t2\<lparr>klog := (klog t2)\<lparr>lh_n := 0\<rparr>\<rparr>"
  let ?h2 = "head_bytes 0 (lh_block (klog ?t)) (block_view dev st ?t)"
  have ct: "cst dev {} [] ?t" using t2(2) by simp
  have id: "in_disk m ?t = in_disk m s" for m using k2 by (simp add: in_disk_def)
  obtain t3 where t3: "write_head ?t = Ok () t3" "cst dev {} [] t3" "ran [(disk_addr st, ?h2)] ?t t3"
    "\<And>m. in_disk m ?t \<Longrightarrow> block_view dev m t3 = (if m = st then ?h2 else block_view dev m ?t)"
    by (rule write_head_step [OF ct, of st 0]) (use t1(3) k2 st id in \<open>auto simp: txn_def\<close>)
  show ?thesis
  proof (intro exI conjI allI impI)
    show "recover_from_log s = Ok () t3"
      using t1(1,3) t2(1) t3(1) by (simp add: recover_from_log_def install_trans_def txn_def)
    show "on_disk (bs ! i) t3 = on_disk (lb st i) s" if "i < ?n" for i
    proof -
      have "bs ! i \<in> set bs" using that by simp
      then have "in_disk (bs ! i) s" "\<not> in_log st (bs ! i)" using y by (simp_all add: layout_def)
      moreover from this have "bs ! i \<noteq> st" using st_in_log [of st] by metis
      ultimately have "in_disk (bs ! i) s" "bs ! i \<noteq> st" by blast+
      then show ?thesis
        using t3(4) [of "bs ! i"] t2(4) [OF that] t1(6) id clean [OF t3(2)] clean [OF c] by simp
    qed
    show "on_disk m t3 = on_disk m s" if "in_disk m s" "\<not> in_log st m" "m \<notin> set bs" for m
    proof -
      have "m \<noteq> st" using that(2) st_in_log by auto
      moreover have "in_disk m t1" using that(1) t1(5) by (simp add: in_disk_def)
      ultimately show ?thesis
        using t3(4) [of m] t2(5) [of m] t1(6) that id clean [OF t3(2)] clean [OF c] by simp
    qed
  qed
qed

section \<open>A crash during a commit\<close>

lemma apply_writes_append: "apply_writes (ws @ vs) d = apply_writes vs (apply_writes ws d)"
  by (simp add: apply_writes_def)

lemma read_apply_other:
  assumes "\<And>w. w \<in> set ws \<Longrightarrow> 1024 dvd fst w \<and> fst w \<noteq> a" and "1024 dvd a"
  shows "rd_read a (apply_writes ws d) = rd_read a d"
  using assms(1)
proof (induction ws arbitrary: d)
  case (Cons w ws)
  have "1024 dvd fst w" "fst w \<noteq> a" using Cons.prems [of w] by simp_all
  then have "rd_read a (rd_write (fst w) (snd w) d) = rd_read a d" by (intro rd_read_write_other assms(2))
  moreover have "rd_read a (apply_writes ws d') = rd_read a d'" for d' using Cons by simp
  ultimately show ?case by (simp add: apply_writes_def split_beta)
qed (simp add: apply_writes_def)

lemma read_apply_map:
  assumes "i < k" and "inj_on f {0..<k}" and "\<And>j. j < k \<Longrightarrow> 1024 dvd f j" and "length (x i) = BSIZE"
  shows "rd_read (f i) (apply_writes (map (\<lambda>j. (f j, x j)) [0..<k]) d) = x i"
  using assms(1-3)
proof (induction k)
  case (Suc k)
  have e: "apply_writes (map (\<lambda>j. (f j, x j)) [0..<Suc k]) d = rd_write (f k) (x k) (apply_writes (map (\<lambda>j. (f j, x j)) [0..<k]) d)"
    by (simp add: apply_writes_def)
  show ?case
  proof (cases "i = k")
    case True
    then show ?thesis using rd_read_write_same assms(4) unfolding e by simp
  next
    case False
    then have i: "i < k" using Suc.prems(1) by simp
    have "f k \<noteq> f i" using inj_onD [OF Suc.prems(2), of k i] i by auto
    then have "rd_read (f i) (apply_writes (map (\<lambda>j. (f j, x j)) [0..<Suc k]) d) =
        rd_read (f i) (apply_writes (map (\<lambda>j. (f j, x j)) [0..<k]) d)"
      unfolding e using Suc.prems(3) i by (intro rd_read_write_other) simp_all
    also have "\<dots> = x i" using Suc.prems by (intro Suc.IH [OF i]) (auto simp: inj_on_def)
    finally show ?thesis .
  qed
qed simp

text \<open>The disk after the first \<open>k\<close> writes of a commit.\<close>

lemma inj_lb: "layout st bs s \<Longrightarrow> inj_on (\<lambda>i. disk_addr (lb st i)) {0..<length bs}"
proof (rule inj_onI)
  fix i j assume y: "layout st bs s" and ij: "i \<in> {0..<length bs}" "j \<in> {0..<length bs}"
    and e: "disk_addr (lb st i) = disk_addr (lb st j)"
  then have l: "i < LOGBLOCKS" "j < LOGBLOCKS" by (simp_all add: layout_def)
  from disk_addr_inj [OF in_log_in_disk [OF y lb_in_log [OF y l(1)]] in_log_in_disk [OF y lb_in_log [OF y l(2)]] e]
  show "i = j" by (rule lb_inj [OF y l])
qed

lemma after_log:
  assumes y: "layout st bs s" and m: "in_disk m s"
    and d: "d = apply_writes (map (\<lambda>i. (disk_addr (lb st i), x i)) [0..<k]) (rdisk s)" and k: "k \<le> length bs"
    and x: "\<And>i. length (x i) = BSIZE"
  shows "\<not> in_log st m \<or> m = st \<Longrightarrow> rd_read (disk_addr m) d = on_disk m s"
    and "i < k \<Longrightarrow> rd_read (disk_addr (lb st i)) d = x i"
proof -
  have l: "i < LOGBLOCKS" if "i < k" for i using that k y by (simp add: layout_def)
  show "rd_read (disk_addr m) d = on_disk m s" if "\<not> in_log st m \<or> m = st"
  proof -
    have "disk_addr (lb st i) \<noteq> disk_addr m" if "i < k" for i
      using disk_addr_inj [OF in_log_in_disk [OF y lb_in_log [OF y l [OF that]]] m] lb_in_log [OF y l [OF that]]
        lb_not_st [OF y l [OF that]] \<open>\<not> in_log st m \<or> m = st\<close> by metis
    then show ?thesis unfolding d on_disk_def by (intro read_apply_other) (auto simp: disk_addr_dvd)
  qed
  show "rd_read (disk_addr (lb st i)) d = x i" if "i < k"
    unfolding d using inj_lb [OF y] k x that
    by (intro read_apply_map [where f = "\<lambda>i. disk_addr (lb st i)"]) (auto simp: disk_addr_dvd intro: inj_on_subset)
qed

lemma initlog_steps:
  assumes c: "cst dev {} [] u" and h: "is_head bs (on_disk st u)" and y: "layout st bs u"
  shows "\<exists>v. initlog dev st u = Ok () v \<and> (\<forall>i<length bs. on_disk (bs ! i) v = on_disk (lb st i) u)
    \<and> (\<forall>m. in_disk m u \<longrightarrow> \<not> in_log st m \<longrightarrow> m \<notin> set bs \<longrightarrow> on_disk m v = on_disk m u)"
proof -
  let ?u = "u\<lparr>lks := initlock LLog ''log'' (lks u), klog := (klog u)\<lparr>lg_start := st, lg_dev := dev\<rparr>\<rparr>"
  have "cst dev {} [] (u\<lparr>lks := initlock LLog ''log'' (lks u)\<rparr>)"
    using c by (simp add: cst_def slots_def slot_ok_def in_disk_def locks_ok_def calm_def mine_def mypid_def bc_inv_def
        on_disk_def initlock_def lk_wf_def mycpu_def cpuid_def)
  then have c': "cst dev {} [] ?u" by (simp only: cst_klog)
  have h': "is_head bs (on_disk st ?u)" using h by (simp add: on_disk_def)
  have y': "layout st bs ?u" using y by (simp add: layout_def in_disk_def)
  have l: "lg_dev (klog ?u) = dev" "lg_start (klog ?u) = st" by simp_all
  from recover_steps [OF c' l h' y'] obtain v where v: "recover_from_log ?u = Ok () v"
    and v2: "\<forall>i<length bs. on_disk (bs ! i) v = on_disk (lb st i) ?u"
      "\<forall>m. in_disk m ?u \<longrightarrow> \<not> in_log st m \<longrightarrow> m \<notin> set bs \<longrightarrow> on_disk m v = on_disk m ?u" by blast
  show ?thesis
  proof (intro exI conjI allI impI)
    show "initlog dev st u = Ok () v" using v by (simp add: initlog_def)
    have e: "on_disk m ?u = on_disk m u" "in_disk m ?u = in_disk m u" for m by (simp_all add: on_disk_def in_disk_def)
    show "on_disk (bs ! i) v = on_disk (lb st i) u" if "i < length bs" for i using v2(1) that unfolding e by blast
    show "on_disk m v = on_disk m u" if "in_disk m u" "\<not> in_log st m" "m \<notin> set bs" for m
      using v2(2) that unfolding e by blast
  qed
qed

text \<open>What is on the disk between the write of the header and the end of the commit.\<close>

lemma after_head:
  assumes y: "layout st bs s" and x: "\<And>i. length (x i) = BSIZE" and h: "length h = BSIZE" and j: "j \<le> length bs"
    and d: "d = apply_writes (map (\<lambda>i. (disk_addr (lb st i), x i)) [0..<length bs] @ [(disk_addr st, h)] @
      map (\<lambda>i. (disk_addr (bs ! i), x i)) [0..<j]) (rdisk s)"
  shows "rd_read (disk_addr st) d = h"
    and "i < length bs \<Longrightarrow> rd_read (disk_addr (lb st i)) d = x i"
    and "i < j \<Longrightarrow> rd_read (disk_addr (bs ! i)) d = x i"
    and "in_disk m s \<Longrightarrow> \<not> in_log st m \<Longrightarrow> m \<notin> set (take j bs) \<Longrightarrow> rd_read (disk_addr m) d = on_disk m s"
proof -
  let ?d1 = "apply_writes (map (\<lambda>i. (disk_addr (lb st i), x i)) [0..<length bs]) (rdisk s)"
  let ?d2 = "rd_write (disk_addr st) h ?d1"
  have d2: "d = apply_writes (map (\<lambda>i. (disk_addr (bs ! i), x i)) [0..<j]) ?d2"
    unfolding d by (simp add: apply_writes_def)
  note st = in_log_in_disk [OF y st_in_log]
  have b: "in_disk (bs ! i) s" "\<not> in_log st (bs ! i)" if "i < length bs" for i
    using y nth_mem [OF that] by (auto simp: layout_def)
  have home: "rd_read (disk_addr m) d = rd_read (disk_addr m) ?d2" if m: "in_disk m s" "m \<notin> set (take j bs)" for m
  proof -
    have "disk_addr (bs ! i) \<noteq> disk_addr m" if i: "i < j" for i
    proof
      assume "disk_addr (bs ! i) = disk_addr m"
      then have "bs ! i = m" using disk_addr_inj [OF b(1) m(1)] i j by simp
      with m(2) i j show False by (auto simp: in_set_conv_nth)
    qed
    then show ?thesis unfolding d2 by (intro read_apply_other) (auto simp: disk_addr_dvd)
  qed
  have nt: "m \<notin> set (take j bs)" if "in_log st m" for m
    using y that by (auto simp: layout_def dest: in_set_takeD)
  have head: "rd_read (disk_addr m) ?d2 = rd_read (disk_addr m) ?d1" if "in_disk m s" "m \<noteq> st" for m
    using disk_addr_inj [OF st that(1)] that(2) by (intro rd_read_write_other) (auto simp: disk_addr_dvd)
  show "rd_read (disk_addr st) d = h" using home [OF st nt [OF st_in_log]] rd_read_write_same [OF h] by simp
  show "rd_read (disk_addr (lb st i)) d = x i" if "i < length bs"
  proof -
    have i: "i < LOGBLOCKS" using that y by (simp add: layout_def)
    note l = in_log_in_disk [OF y lb_in_log [OF y i]]
    show ?thesis
      using home [OF l nt [OF lb_in_log [OF y i]]] head [OF l lb_not_st [OF y i]] after_log(2) [OF y l refl order_refl x that] by simp
  qed
  show "rd_read (disk_addr (bs ! i)) d = x i" if "i < j"
  proof -
    have "inj_on (\<lambda>i. disk_addr (bs ! i)) {0..<j}"
      using disk_addr_inj [OF b(1) b(1)] j y by (intro inj_onI) (auto simp: layout_def nth_eq_iff_index_eq)
    then show ?thesis
      unfolding d2 using that x by (intro read_apply_map [where f = "\<lambda>i. disk_addr (bs ! i)"]) (auto simp: disk_addr_dvd)
  qed
  show "rd_read (disk_addr m) d = on_disk m s" if m: "in_disk m s" "\<not> in_log st m" "m \<notin> set (take j bs)"
  proof -
    have "m \<noteq> st" using m(2) st_in_log [of st] by metis
    then show ?thesis using home [OF m(1,3)] head [OF m(1)] after_log(1) [OF y m(1) refl order_refl x] m(2) by simp
  qed
qed

lemma length_on_disk: "length (on_disk m s) = BSIZE"
  by (simp add: on_disk_def rd_read_def)

text \<open>The parts of the argument: a crash before the header is written, after it, and at the end.\<close>

lemma crash_before:
  assumes y: "layout st bs s" and h: "get32 0 (on_disk st s) = 0" and x: "\<And>i. length (x i) = BSIZE" and k: "k \<le> length bs"
    and u: "cst dev {} [] u" "rdisk_size u = rdisk_size s"
      "rdisk u = apply_writes (map (\<lambda>i. (disk_addr (lb st i), x i)) [0..<k]) (rdisk s)"
  shows "\<exists>v. initlog dev st u = Ok () v \<and> (\<forall>m. in_disk m s \<and> \<not> in_log st m \<longrightarrow> on_disk m v = on_disk m s)"
proof -
  note st = in_log_in_disk [OF y st_in_log]
  have od: "on_disk m u = on_disk m s" if "in_disk m s" "\<not> in_log st m \<or> m = st" for m
    using after_log(1) [OF y that(1) u(3) k x that(2)] by (simp add: on_disk_def)
  have hd: "is_head [] (on_disk st u)" using od [OF st] h length_on_disk [of st s] by (simp add: is_head_def)
  have ly: "layout st [] u" using y u(2) by (simp add: layout_def)
  from initlog_steps [OF u(1) hd ly] obtain v where v: "initlog dev st u = Ok () v"
    and v2: "\<And>m. in_disk m u \<longrightarrow> \<not> in_log st m \<longrightarrow> m \<notin> set [] \<longrightarrow> on_disk m v = on_disk m u" by blast
  have "on_disk m v = on_disk m s" if "in_disk m s" "\<not> in_log st m" for m
  proof -
    have "in_disk m u" using that(1) u(2) by (simp add: in_disk_def)
    then show ?thesis using v2 [of m] od [of m] that by simp
  qed
  with v show ?thesis by blast
qed

lemma crash_after:
  assumes y: "layout st bs s" and h: "is_head bs h" and x: "\<And>i. length (x i) = BSIZE" and j: "j \<le> length bs"
    and u: "cst dev {} [] u" "rdisk_size u = rdisk_size s"
      "rdisk u = apply_writes (map (\<lambda>i. (disk_addr (lb st i), x i)) [0..<length bs] @ [(disk_addr st, h)] @
        map (\<lambda>i. (disk_addr (bs ! i), x i)) [0..<j]) (rdisk s)"
  shows "\<exists>v. initlog dev st u = Ok () v \<and> (\<forall>i<length bs. on_disk (bs ! i) v = x i)
    \<and> (\<forall>m. in_disk m s \<and> \<not> in_log st m \<and> m \<notin> set bs \<longrightarrow> on_disk m v = on_disk m s)"
proof -
  have "length h = BSIZE" using h by (simp add: is_head_def)
  note a = after_head [OF y x this j u(3)]
  have hd: "is_head bs (on_disk st u)" using a(1) h by (simp add: on_disk_def)
  have id: "in_disk m u = in_disk m s" for m using u(2) by (simp add: in_disk_def)
  have ly: "layout st bs u" using y u(2) id by (simp add: layout_def)
  from initlog_steps [OF u(1) hd ly] obtain v where v: "initlog dev st u = Ok () v"
    "\<And>i. i < length bs \<longrightarrow> on_disk (bs ! i) v = on_disk (lb st i) u"
    "\<And>m. in_disk m u \<longrightarrow> \<not> in_log st m \<longrightarrow> m \<notin> set bs \<longrightarrow> on_disk m v = on_disk m u" by blast
  have "on_disk (bs ! i) v = x i" if "i < length bs" for i using v(2) [of i] that a(2) [OF that] by (simp add: on_disk_def)
  moreover have "on_disk m v = on_disk m s" if "in_disk m s" "\<not> in_log st m" "m \<notin> set bs" for m
  proof -
    have "m \<notin> set (take j bs)" using that(3) by (auto dest: in_set_takeD)
    then show ?thesis using v(3) [of m] a(4) [OF that(1,2)] that id by (simp add: on_disk_def)
  qed
  ultimately show ?thesis using v(1) by blast
qed

lemma crash_end:
  assumes y: "layout st bs s" and h: "is_head bs h" "is_head [] h2" and x: "\<And>i. length (x i) = BSIZE"
    and u: "cst dev {} [] u" "rdisk_size u = rdisk_size s"
      "rdisk u = apply_writes (map (\<lambda>i. (disk_addr (lb st i), x i)) [0..<length bs] @ [(disk_addr st, h)] @
        map (\<lambda>i. (disk_addr (bs ! i), x i)) [0..<length bs] @ [(disk_addr st, h2)]) (rdisk s)"
  shows "\<exists>v. initlog dev st u = Ok () v \<and> (\<forall>i<length bs. on_disk (bs ! i) v = x i)
    \<and> (\<forall>m. in_disk m s \<and> \<not> in_log st m \<and> m \<notin> set bs \<longrightarrow> on_disk m v = on_disk m s)"
proof -
  have lh: "length h = BSIZE" "length h2 = BSIZE" using h by (simp_all add: is_head_def)
  note st = in_log_in_disk [OF y st_in_log]
  let ?d = "apply_writes (map (\<lambda>i. (disk_addr (lb st i), x i)) [0..<length bs] @ [(disk_addr st, h)] @
        map (\<lambda>i. (disk_addr (bs ! i), x i)) [0..<length bs]) (rdisk s)"
  note a = after_head [OF y x lh(1) order_refl refl]
  have d: "rdisk u = rd_write (disk_addr st) h2 ?d" using u(3) by (simp add: apply_writes_def)
  have other: "on_disk m u = rd_read (disk_addr m) ?d" if "in_disk m s" "m \<noteq> st" for m
    unfolding on_disk_def d using disk_addr_inj [OF st that(1)] that(2) by (intro rd_read_write_other) (auto simp: disk_addr_dvd)
  have hd: "is_head [] (on_disk st u)" using h(2) rd_read_write_same [OF lh(2)] unfolding on_disk_def d by simp
  have id: "in_disk m u = in_disk m s" for m using u(2) by (simp add: in_disk_def)
  have ly: "layout st [] u" using y u(2) by (simp add: layout_def)
  from initlog_steps [OF u(1) hd ly] obtain v where v: "initlog dev st u = Ok () v"
    and v2: "\<And>m. in_disk m u \<longrightarrow> \<not> in_log st m \<longrightarrow> m \<notin> set [] \<longrightarrow> on_disk m v = on_disk m u" by blast
  have ne: "m \<noteq> st" if "\<not> in_log st m" for m using that st_in_log [of st] by metis
  have "on_disk (bs ! i) v = x i" if i: "i < length bs" for i
  proof -
    have b: "in_disk (bs ! i) s" "\<not> in_log st (bs ! i)" using y nth_mem [OF i] by (auto simp: layout_def)
    show ?thesis using v2 [of "bs ! i"] other [OF b(1) ne [OF b(2)]] a(3) [OF i] b id by simp
  qed
  moreover have "on_disk m v = on_disk m s" if "in_disk m s" "\<not> in_log st m" "m \<notin> set bs" for m
    using v2 [of m] other [OF that(1) ne [OF that(2)]] a(4) [OF that(1,2)] that id by simp
  ultimately show ?thesis using v(1) by blast
qed

lemma take_three:
  "k \<le> length a \<Longrightarrow> take k (a @ [h] @ b @ [h2]) = take k a"
  "length a < k \<Longrightarrow> k \<le> length a + 1 + length b \<Longrightarrow> take k (a @ [h] @ b @ [h2]) = a @ [h] @ take (k - length a - 1) b"
  "length a + 1 + length b < k \<Longrightarrow> take k (a @ [h] @ b @ [h2]) = a @ [h] @ b @ [h2]"
proof -
  show "k \<le> length a \<Longrightarrow> take k (a @ [h] @ b @ [h2]) = take k a" by simp
  show "take k (a @ [h] @ b @ [h2]) = a @ [h] @ take (k - length a - 1) b" if "length a < k" "k \<le> length a + 1 + length b"
    using that by (cases "k - length a") auto
  show "length a + 1 + length b < k \<Longrightarrow> take k (a @ [h] @ b @ [h2]) = a @ [h] @ b @ [h2]" by simp
qed

text \<open>
  C2: Transactions are atomic. When \<open>commit\<close> runs with fewer than 30 blocks in the log and an empty header on the disk, it returns,
  every block of the file system then has on the disk what it had in the cache, and if the machine stops after any
  number \<open>k\<close> of the writes of the commit and starts again with an empty cache, \<open>initlog\<close> returns and
  leaves either all blocks as they were before the commit or all blocks as they are after it.
\<close>

theorem commit_atomic:
  fixes s :: "'z logst_scheme"
  assumes "cst dev (set bs) [] s" and "txn dev st bs s" and "layout st bs s" and "bs \<noteq> []"
    and "get32 0 (on_disk st s) = 0"
  shows "\<exists>t ws. commit s = Ok () t \<and> disk_writes t = disk_writes s @ ws
    \<and> (\<forall>m. in_disk m s \<and> \<not> in_log st m \<longrightarrow> on_disk m t = block_view dev m s)
    \<and> (\<forall>k. \<forall>u :: 'z logst_scheme.
        cst dev {} [] u \<and> rdisk_size u = rdisk_size s \<and> rdisk u = apply_writes (take k ws) (rdisk s) \<longrightarrow>
        (\<exists>v. initlog dev st u = Ok () v \<and>
          ((\<forall>m. in_disk m s \<and> \<not> in_log st m \<longrightarrow> on_disk m v = on_disk m s) \<or>
           (\<forall>m. in_disk m s \<and> \<not> in_log st m \<longrightarrow> on_disk m v = block_view dev m s))))"
proof -
  note c = assms(1) and y = assms(3)
  from commit_steps [OF assms(1-4)] obtain h1 h2 t where t: "commit s = Ok () t" "cst dev {} [] t" "is_head bs h1" "is_head [] h2"
    "disk_writes t = disk_writes s @ commit_writes dev st bs h1 h2 s"
    "\<And>m. in_disk m s \<longrightarrow> \<not> in_log st m \<longrightarrow> block_view dev m t = block_view dev m s" by blast
  let ?x = "\<lambda>i. block_view dev (bs ! i) s"
  let ?L = "map (\<lambda>i. (disk_addr (lb st i), ?x i)) [0..<length bs]"
  let ?B = "map (\<lambda>i. (disk_addr (bs ! i), ?x i)) [0..<length bs]"
  have x: "length (?x i) = BSIZE" for i by (rule cst_length [OF c])
  have ws: "commit_writes dev st bs h1 h2 s = ?L @ [(disk_addr st, h1)] @ ?B @ [(disk_addr st, h2)]"
    by (simp add: commit_writes_def log_writes_def)
  have new: "on_disk m v = block_view dev m s"
    if "\<forall>i<length bs. on_disk (bs ! i) v = ?x i" and "\<forall>m. in_disk m s \<and> \<not> in_log st m \<and> m \<notin> set bs \<longrightarrow> on_disk m v = on_disk m s"
      and "in_disk m s" "\<not> in_log st m" for m v
  proof (cases "m \<in> set bs")
    case True
    then obtain i where "i < length bs" "bs ! i = m" by (auto simp: in_set_conv_nth)
    then show ?thesis using that(1) by blast
  next
    case False
    then show ?thesis using that(2-4) cst_clean [OF c False] by simp
  qed
  have crash: "\<exists>v. initlog dev st u = Ok () v \<and>
      ((\<forall>m. in_disk m s \<and> \<not> in_log st m \<longrightarrow> on_disk m v = on_disk m s) \<or>
       (\<forall>m. in_disk m s \<and> \<not> in_log st m \<longrightarrow> on_disk m v = block_view dev m s))"
    if u: "cst dev {} [] u" "rdisk_size u = rdisk_size s"
      "rdisk u = apply_writes (take k (commit_writes dev st bs h1 h2 s)) (rdisk s)" for k and u :: "'z logst_scheme"
  proof -
    consider "k \<le> length ?L" | "length ?L < k" "k \<le> length ?L + 1 + length ?B" | "length ?L + 1 + length ?B < k" by linarith
    then show ?thesis
    proof cases
      case 1
      have d: "rdisk u = apply_writes (map (\<lambda>i. (disk_addr (lb st i), ?x i)) [0..<k]) (rdisk s)"
        using u(3) 1 unfolding ws take_three(1) [OF 1] by (simp add: take_map)
      have k: "k \<le> length bs" using 1 by simp
      from crash_before [where x = ?x, OF y assms(5) x k u(1,2) d] show ?thesis by blast
    next
      case 2
      have d: "rdisk u = apply_writes (?L @ [(disk_addr st, h1)] @ map (\<lambda>i. (disk_addr (bs ! i), ?x i)) [0..<k - length bs - 1]) (rdisk s)"
        using u(3) 2 unfolding ws take_three(2) [OF 2] by (simp add: take_map)
      have k: "k - length bs - 1 \<le> length bs" using 2 by simp
      from crash_after [where x = ?x, OF y t(3) x k u(1,2) d] obtain v where v: "initlog dev st u = Ok () v"
        "\<forall>i<length bs. on_disk (bs ! i) v = ?x i"
        "\<forall>m. in_disk m s \<and> \<not> in_log st m \<and> m \<notin> set bs \<longrightarrow> on_disk m v = on_disk m s" by blast
      from v(1) new [OF v(2,3)] show ?thesis by blast
    next
      case 3
      have "rdisk u = apply_writes (?L @ [(disk_addr st, h1)] @ ?B @ [(disk_addr st, h2)]) (rdisk s)"
        using u(3) unfolding ws take_three(3) [OF 3] .
      from crash_end [where x = ?x, OF y t(3,4) x u(1,2) this] obtain v where v: "initlog dev st u = Ok () v"
        "\<forall>i<length bs. on_disk (bs ! i) v = ?x i"
        "\<forall>m. in_disk m s \<and> \<not> in_log st m \<and> m \<notin> set bs \<longrightarrow> on_disk m v = on_disk m s" by blast
      from v(1) new [OF v(2,3)] show ?thesis by blast
    qed
  qed
  have "on_disk m t = block_view dev m s" if "in_disk m s" "\<not> in_log st m" for m
    using cst_clean [OF t(2), of m] t(6) [of m] that by simp
  with t(1,5) crash show ?thesis by blast
qed

section \<open>Adding a block to the transaction\<close>

lemma absorb_index:
  assumes "lh_n l = int (length bs)" and "\<And>i. i < length bs \<Longrightarrow> lh_block l i = bs ! i"
    and "i \<le> length bs" and "length bs \<le> i + k"
  shows "(if n \<in> set (drop i bs) then absorb l n k i < length bs \<and> bs ! absorb l n k i = n else absorb l n k i = length bs)"
  using assms(3,4)
proof (induction k arbitrary: i)
  case 0
  then show ?case by simp
next
  case (Suc k)
  show ?case
  proof (cases "i < length bs \<and> bs ! i \<noteq> n")
    case True
    then have "n \<in> set (drop i bs) \<longleftrightarrow> n \<in> set (drop (Suc i) bs)" by (auto simp: Cons_nth_drop_Suc [symmetric])
    then show ?thesis using Suc.IH [of "Suc i"] Suc.prems True assms(1,2) by simp
  next
    case False
    then have "absorb l n (Suc k) i = i" using assms(1,2) by auto
    moreover have "i = length bs \<or> i < length bs \<and> bs ! i = n" using False Suc.prems(1) by auto
    ultimately show ?thesis using Suc.prems by (auto simp: Cons_nth_drop_Suc [symmetric])
  qed
qed

lemma cst_touch: "cst dev P H s \<Longrightarrow> cst dev P H (s\<lparr>lks := touch (lks s)\<rparr>)"
  by (simp add: cst_def slots_def slot_ok_def in_disk_def locks_ok_def mine_def mypid_def bc_inv_def on_disk_def)

lemma view_touch: "block_view dev m (s\<lparr>lks := touch (lks s)\<rparr>) = block_view dev m s"
  by (rule block_view_same) simp_all

text \<open>
  C3: \<open>log_write\<close> on a locked buffer during an operation returns and adds the buffer's block to the transaction and pins the
  buffer, unless the block is in the transaction already; then it changes nothing. No block's contents change.
\<close>

theorem log_write_absorbs:
  assumes c: "cst dev (set bs) H s" and x: "txn dev st bs s" and h: "(b, n) \<in> set H"
    and o: "1 \<le> lg_outstanding (klog s)" and len: "length bs < LOGBLOCKS"
  shows "\<exists>t. log_write b s = Ok () t \<and> cst dev (insert n (set bs)) H t
    \<and> txn dev st (if n \<in> set bs then bs else bs @ [n]) t
    \<and> (\<forall>m. block_view dev m t = block_view dev m s) \<and> rdisk t = rdisk s"
proof -
  let ?i = "absorb (klog s) n LOGBLOCKS 0"
  have i: "if n \<in> set bs then ?i < length bs \<and> bs ! ?i = n else ?i = length bs"
    using absorb_index [of "klog s" bs 0 LOGBLOCKS n] x len by (simp add: txn_def)
  have bno: "b_blockno (bufs s b) = n" using cst_held(2) [OF c h] by (simp add: key_def)
  have calm: "lk_wf (lks s)" "\<not> locked (locks (lks s) lk)" for lk
    using c by (simp_all add: cst_def locks_ok_def calm_def)
  have n: "lh_n (klog s) = int (length bs)" using x by (simp add: txn_def)
  let ?l = "(klog s)\<lparr>lh_block := (lh_block (klog s))(?i := n)\<rparr>"
  show ?thesis
  proof (cases "n \<in> set bs")
    case True
    let ?t = "s\<lparr>lks := touch (lks s), klog := ?l\<rparr>"
    have "log_write b s = Ok () ?t"
      using calm o len n bno i True by (simp add: log_write_def lk_free_def Let_def)
    moreover have "cst dev (insert n (set bs)) H ?t" using cst_touch [OF c] True by (simp add: insert_absorb)
    moreover have "txn dev st bs ?t" using x i True by (auto simp: txn_def)
    moreover have "block_view dev m ?t = block_view dev m s" for m using view_touch [of dev m s] by simp
    ultimately show ?thesis using True by (intro exI [of _ ?t]) simp
  next
    case False
    let ?x = "(bufs s b)\<lparr>b_refcnt := b_refcnt (bufs s b) + 1\<rparr>"
    let ?u = "s\<lparr>lks := touch (lks s), bufs := (bufs s)(b := ?x)\<rparr>"
    let ?t = "?u\<lparr>klog := ?l\<lparr>lh_n := lh_n (klog s) + 1\<rparr>\<rparr>"
    have "bpin b s = Ok () ?u" using calm by (simp add: bpin_def lk_free_def)
    then have u: "cst dev (insert n (set bs)) H ?u" "\<And>m. block_view dev m ?u = block_view dev m s"
      using wp_bpin [OF c h False, of "\<lambda>_ t. cst dev (insert n (set bs)) H t \<and> (\<forall>m. block_view dev m t = block_view dev m s)"]
      by (auto simp: wp_iff)
    have "log_write b s = Ok () ?t"
      using calm o len n bno i False by (simp add: log_write_def bpin_def lk_free_def Let_def)
    moreover have "txn dev st (bs @ [n]) ?t" using x i False by (auto simp: txn_def nth_append less_Suc_eq)
    ultimately show ?thesis using False u by (intro exI [of _ ?t]) simp
  qed
qed

section \<open>A full log\<close>

lemma all_pinned:
  assumes c: "cst dev P [] s" and "card P = NBUF" and b: "b < NBUF"
  shows "b_dev (bufs s b) = dev \<and> b_blockno (bufs s b) \<in> P"
proof -
  let ?B = "{b. b < NBUF \<and> b_dev (bufs s b) = dev \<and> b_blockno (bufs s b) \<in> P}"
  have "P \<subseteq> (\<lambda>b. b_blockno (bufs s b)) ` ?B"
  proof
    fix n assume n: "n \<in> P"
    with c obtain a where "a < NBUF" "key dev n (bufs s a)" by (auto simp: cst_def slots_def)
    with n show "n \<in> (\<lambda>b. b_blockno (bufs s b)) ` ?B" by (intro image_eqI [of _ _ a]) (auto simp: key_def)
  qed
  then have "card P \<le> card ((\<lambda>b. b_blockno (bufs s b)) ` ?B)" by (intro card_mono) simp_all
  also have "\<dots> \<le> card ?B" by (rule card_image_le) simp
  finally have "NBUF \<le> card ?B" using assms(2) by simp
  moreover have sub: "?B \<subseteq> {0..<NBUF}" by auto
  then have "card ?B \<le> card {0..<NBUF}" by (intro card_mono) simp_all
  ultimately have "card ?B = card {0..<NBUF}" by simp
  with sub have "?B = {0..<NBUF}" by (intro card_subset_eq) simp_all
  moreover have "b \<in> {0..<NBUF}" using b by simp
  ultimately have "b \<in> ?B" by metis
  then show ?thesis by simp
qed

lemma bget_no_buffers:
  assumes "calm s" and "lru (bufs s) xs" and "\<And>b. b < NBUF \<Longrightarrow> \<not> key dev bno (bufs s b) \<and> b_refcnt (bufs s b) \<noteq> 0"
  shows "bget dev bno s = Panic ''bget: no buffers''"
proof -
  let ?a = "s\<lparr>lks := acqd LBcache (lks s)\<rparr>"
  have acq: "acquire LBcache s = Ok () ?a" using calm_free [OF assms(1)] by simp
  have set: "set xs = {0..<NBUF}" using assms(2) by (simp add: lru_def)
  have "find (\<lambda>b. b_dev (bufs s b) = dev \<and> b_blockno (bufs s b) = bno) xs = None"
    "find (\<lambda>b. b_refcnt (bufs s b) = 0) (rev xs) = None"
    using assms(3) set by (auto simp: find_None_iff key_def)
  then show ?thesis
    using acq bget_find_ok [of ?a xs dev bno] bget_victim_ok [of ?a xs] assms(2) by (simp add: bget_def)
qed

text \<open>
  C4: A transaction may not use the whole log: there are as many buffers as blocks in the log, so when all 30 blocks are in
  use, every buffer is pinned and \<open>commit\<close> panics when it asks for a buffer for the first block of the log.
\<close>

theorem commit_full_log_panics:
  assumes c: "cst dev (set bs) [] s" and x: "txn dev st bs s" and "distinct bs" and len: "length bs = LOGBLOCKS"
    and l: "lb st 0 \<notin> set bs"
  shows "commit s = Panic ''bget: no buffers''"
proof -
  from c obtain xs where i: "calm s" "lru (bufs s) xs" by (auto simp: cst_def locks_ok_def bc_inv_def)
  have "card (set bs) = NBUF" using assms(3) len by (simp add: distinct_card)
  note pin = all_pinned [OF c this]
  have "bget dev (lb st 0) s = Panic ''bget: no buffers''"
  proof (rule bget_no_buffers [OF i])
    fix b assume b: "b < NBUF"
    from pin [OF b] cst_slot [OF c b] l show "\<not> key dev (lb st 0) (bufs s b) \<and> b_refcnt (bufs s b) \<noteq> 0"
      by (auto simp: key_def slot_ok_def)
  qed
  then have "write_log_at 0 s = Panic ''bget: no buffers''"
    using x by (simp add: write_log_at_def bread_def txn_def lb_def)
  then have "kfor (0 # ks) write_log_at s = Panic ''bget: no buffers''" for ks by simp
  moreover have "[0..<LOGBLOCKS] = 0 # [Suc 0..<LOGBLOCKS]" by (rule upt_conv_Cons) simp
  ultimately have "kfor [0..<LOGBLOCKS] write_log_at s = Panic ''bget: no buffers''" by metis
  then show ?thesis using x len by (simp add: commit_def write_log_def txn_def del: upt_rec_numeral)
qed

section \<open>Examples\<close>

text \<open>A disk of 64 empty blocks, with a log that starts at block 2 and the given buffers in the cache.\<close>

definition log_state :: "u32 list \<Rightarrow> (nat \<Rightarrow> buf) \<Rightarrow> logst" where
  "log_state bs bf = small_logst\<lparr>rdisk := (\<lambda>_. 0), rdisk_size := 64 * BSIZE, bufs := bf,
     klog := small_wal\<lparr>lh_n := int (length bs), lh_block := (\<lambda>i. bs ! i)\<rparr>\<rparr>"

definition loaded :: "nat \<Rightarrow> u32 list \<Rightarrow> nat \<Rightarrow> buf" where
  "loaded k bs b = (if b < length bs then (small_bufs b)\<lparr>b_valid := True, b_dev := 1, b_blockno := bs ! b,
     b_refcnt := 1 + (if b < k then 1 else 0), b_data := replicate BSIZE 7\<rparr> else small_bufs b)"

lemma log_state_sel [simp]:
  "rdisk (log_state bs bf) = (\<lambda>_. 0)" "rdisk_size (log_state bs bf) = 64 * BSIZE" "bufs (log_state bs bf) = bf"
  "lks (log_state bs bf) = busy_lkst" "slocks (log_state bs bf) = (\<lambda>_. free_sl)"
  "klog (log_state bs bf) = small_wal\<lparr>lh_n := int (length bs), lh_block := (\<lambda>i. bs ! i)\<rparr>" "rounds (log_state bs bf) = 10"
  by (simp_all add: log_state_def)

lemma lru_loaded: "lru (loaded k bs) (rev [0..<NBUF])"
proof -
  have "lru small_bufs (rev [0..<NBUF])" using small_inv by (simp add: bc_inv_def del: upt_rec_numeral)
  moreover have "b_next (loaded k bs b) = b_next (small_bufs b)" "b_prev (loaded k bs b) = b_prev (small_bufs b)" for b
    by (simp_all add: loaded_def)
  ultimately show ?thesis unfolding lru_def by (subst seg_frame [of _ _ "loaded k bs" small_bufs]) auto
qed

lemma cst_loaded:
  assumes "distinct bs" and "length bs \<le> NBUF" and "\<And>m. m \<in> set bs \<Longrightarrow> unat m < 64"
  shows "cst 1 (set bs) [] (log_state cs (loaded 0 bs))"
proof -
  let ?s = "log_state cs (loaded 0 bs)"
  have "bc_inv (rev [0..<NBUF]) ?s"
    unfolding bc_inv_def using lru_loaded [of 0 bs] assms(1)
    by (auto simp: loaded_def key_def small_bufs_def nth_eq_iff_index_eq split: if_splits simp del: upt_rec_numeral)
  moreover have "slot_ok 1 (set bs) False ?s (loaded 0 bs b)" for b
    using assms(3) [of "bs ! b"] by (auto simp: slot_ok_def loaded_def small_bufs_def in_disk_def)
  moreover have "\<exists>b<NBUF. key 1 n (loaded 0 bs b) \<and> b_valid (loaded 0 bs b)" if n: "n \<in> set bs" for n
  proof -
    from n obtain i where "i < length bs" "bs ! i = n" by (auto simp: in_set_conv_nth)
    then show ?thesis using assms(2) by (intro exI [of _ i]) (auto simp: loaded_def key_def)
  qed
  moreover have "locks_ok {} ?s" by (simp add: locks_ok_def calm_def free_sl_def)
  ultimately show ?thesis by (auto simp: cst_def slots_def)
qed

theorem commit_atomic_witness:
  "\<exists>t. commit (log_state [40] (loaded 0 [40])) = Ok () t \<and> on_disk 40 t = replicate BSIZE 7
    \<and> (\<exists>v. initlog 1 2 (log_state [40] small_bufs) = Ok () v \<and>
          (on_disk 40 v = replicate BSIZE 0 \<or> on_disk 40 v = replicate BSIZE 7))"
proof -
  let ?s = "log_state [40] (loaded 0 [40])"
  let ?u = "log_state [40] small_bufs"
  have c: "cst 1 (set [40]) [] ?s" by (rule cst_loaded) simp_all
  have u: "cst 1 {} [] ?u" using cst_loaded [of "[]" "[40]"] by (simp add: loaded_def [abs_def])
  have x: "txn 1 2 [40] ?s" by (simp add: txn_def small_wal_def)
  have y: "layout 2 [40] ?s" by (simp add: layout_def in_disk_def in_log_def)
  have z: "on_disk m ?s = replicate BSIZE 0" for m by (simp add: on_disk_def rd_read_def map_replicate_const del: upt_rec_numeral)
  have h: "get32 0 (on_disk 2 ?s) = 0" unfolding z by (simp add: get32_def numeral_eq_Suc)
  have v: "block_view 1 40 ?s = replicate BSIZE 7"
    by (simp add: block_view_def loaded_def key_def upt_conv_Cons [of 0 "Suc _"] numeral_eq_Suc del: upt_Suc upt_rec_numeral replicate.simps)
  have m: "in_disk 40 ?s" "\<not> in_log 2 40" by (simp_all add: in_disk_def in_log_def)
  from commit_atomic [OF c x y _ h] obtain t ws where t: "commit ?s = Ok () t"
    "\<forall>m. in_disk m ?s \<and> \<not> in_log 2 m \<longrightarrow> on_disk m t = block_view 1 m ?s"
    and r: "\<forall>k. \<forall>w :: logst. cst 1 {} [] w \<and> rdisk_size w = rdisk_size ?s \<and> rdisk w = apply_writes (take k ws) (rdisk ?s) \<longrightarrow>
        (\<exists>v. initlog 1 2 w = Ok () v \<and>
          ((\<forall>m. in_disk m ?s \<and> \<not> in_log 2 m \<longrightarrow> on_disk m v = on_disk m ?s) \<or>
           (\<forall>m. in_disk m ?s \<and> \<not> in_log 2 m \<longrightarrow> on_disk m v = block_view 1 m ?s)))"
    by blast
  have "rdisk_size ?u = rdisk_size ?s" "rdisk ?u = apply_writes (take 0 ws) (rdisk ?s)" by (simp_all add: apply_writes_def)
  with u have "cst 1 {} [] ?u \<and> rdisk_size ?u = rdisk_size ?s \<and> rdisk ?u = apply_writes (take 0 ws) (rdisk ?s)" by blast
  from r [rule_format, OF this] m obtain v where w: "initlog 1 2 ?u = Ok () v"
    "on_disk 40 v = on_disk 40 ?s \<or> on_disk 40 v = block_view 1 40 ?s" by blast
  from t m have "on_disk 40 t = block_view 1 40 ?s" by blast
  with t(1) w show ?thesis unfolding v z by blast
qed

text \<open>A process holds the buffer of block 40, which is not in the transaction yet.\<close>

definition held_logst :: logst where
  "held_logst = log_state [] ((loaded 1 [40])(0 := (loaded 1 [40] 0)\<lparr>b_refcnt := 1\<rparr>))
     \<lparr>slocks := (\<lambda>_. free_sl)(LBuf 0 := free_sl\<lparr>sl_locked := True, sl_pid := 1\<rparr>)\<rparr>"

theorem log_write_absorbs_witness:
  "\<exists>t. log_write 0 held_logst = Ok () t \<and> txn 1 2 [40] t"
proof -
  let ?s = held_logst
  let ?bf = "(loaded 1 [40])(0 := (loaded 1 [40] 0)\<lparr>b_refcnt := 1\<rparr>)"
  have s: "bufs ?s = ?bf" "rdisk ?s = (\<lambda>_. 0)" "rdisk_size ?s = 64 * BSIZE" "lks ?s = busy_lkst" "rounds ?s = 10"
    "klog ?s = small_wal\<lparr>lh_n := 0, lh_block := (\<lambda>i. [] ! i)\<rparr>"
    "slocks ?s = (\<lambda>_. free_sl)(LBuf 0 := free_sl\<lparr>sl_locked := True, sl_pid := 1\<rparr>)"
    by (simp_all add: held_logst_def)
  have p: "mypid ?s = 1" by (simp add: mypid_def held_logst_def log_state_def)
  have "bc_inv (rev [0..<NBUF]) ?s"
    using lru_loaded [of 1 "[40]"] unfolding bc_inv_def s(1)
    by (subst lru_upd) (auto simp: loaded_def key_def small_bufs_def split: if_splits simp del: upt_rec_numeral)
  moreover have "slot_ok 1 {} (b \<in> {0}) ?s (?bf b)" for b
    by (auto simp: slot_ok_def loaded_def small_bufs_def in_disk_def s)
  moreover have "locks_ok {0} ?s"
    using p by (auto simp: locks_ok_def calm_def mine_def s free_sl_def)
  ultimately have c: "cst 1 (set []) [(0, 40)] ?s"
    by (auto simp: cst_def slots_def s(1) loaded_def)
  have "txn 1 2 [] ?s" "1 \<le> lg_outstanding (klog ?s)" by (simp_all add: txn_def s small_wal_def)
  from log_write_absorbs [OF c this(1) _ this(2)] show ?thesis by auto
qed

theorem commit_full_log_panics_witness:
  "commit (log_state (map of_nat [33..<63]) (loaded 0 (map of_nat [33..<63]))) = Panic ''bget: no buffers''"
proof -
  let ?bs = "map of_nat [33..<63] :: u32 list"
  let ?s = "log_state ?bs (loaded 0 ?bs)"
  have u: "unat (of_nat i :: u32) = i" if "i < 63" for i using that by (simp add: unat_of_nat)
  have d: "distinct ?bs"
    unfolding distinct_map by (auto intro!: inj_onI dest: arg_cong [where f = unat] simp: u simp del: upt_rec_numeral)
  have n: "unat m < 64" if "m \<in> set ?bs" for m using that u by (auto simp del: upt_rec_numeral)
  have c: "cst 1 (set ?bs) [] ?s" by (rule cst_loaded [OF d _ n]) simp_all
  have x: "txn 1 2 ?bs ?s" by (simp add: txn_def small_wal_def del: upt_rec_numeral)
  have "unat m \<ge> 33" if "m \<in> set ?bs" for m using that u by (auto simp del: upt_rec_numeral)
  moreover have "unat (lb 2 0) = 3" by (simp add: lb_def)
  ultimately have "lb 2 0 \<notin> set ?bs" by fastforce
  then show ?thesis by (intro commit_full_log_panics [OF c x d]) simp_all
qed

end
