(* ===== verification/Sched.thy ===== *)
theory Sched
  imports Proc
begin

text \<open>
  The scheduler of \<open>kernel/proc.c\<close> does not starve a process: whatever the processes it switches
  to do, a runnable process gets the hart within one pass over the process table. The theory shows
  it for the model of \<open>scheduler\<close> in theory \<open>Proc\<close>, with a bound on the number of switches before.
\<close>

section \<open>What the scheduler relies on\<close>

text \<open>
  A process gives the hart back through \<open>sched\<close>, which checks that it holds its own process lock
  and no other lock (\<open>sched_ok\<close>). The other process locks are free, and the process
  that waits for the hart has not been taken by somebody else.
\<close>

definition gave_back :: "nat \<Rightarrow> nat \<Rightarrow> nat \<Rightarrow> 'z procst_scheme \<Rightarrow> bool" where
  "gave_back c q p t \<longleftrightarrow>
     (\<exists>l. lks t = acqd (LProc q) l \<and> lk_wf l \<and> hart l = c \<and>
        (\<forall>r. \<not> locked (locks l (LProc r)))) \<and>
     p_state (procs t p) = RUNNABLE"

text \<open>
  On hart \<open>c\<close> the process \<open>p\<close> gets to run after fewer than \<open>n\<close> switches to other processes,
  each of which may leave the kernel in any state that \<open>gave_back\<close> admits.
\<close>

primrec runs_within :: "nat \<Rightarrow> nat \<Rightarrow> nat \<Rightarrow> ('a, 'z procst_scheme) kout \<Rightarrow> bool" where
  "runs_within 0 c p r = False"
| "runs_within (Suc n) c p r = (case r of
     Swtch s k \<Rightarrow>
       cpu_proc (cpus (lks s) c) = Some p \<and> p_state (procs s p) = RUNNING \<and> holding (LProc p) (lks s) \<or>
       (\<exists>q. cpu_proc (cpus (lks s) c) = Some q \<and> q \<noteq> p \<and>
          (\<forall>t. gave_back c q p t \<longrightarrow> runs_within n c p (k t)))
   | _ \<Rightarrow> False)"

section \<open>One pass\<close>

lemma runs_within_mono: "runs_within n c p r \<Longrightarrow> n \<le> m \<Longrightarrow> runs_within m c p r"
proof (induction n arbitrary: m r)
  case (Suc n)
  then obtain m' where m: "m = Suc m'" "n \<le> m'" by (cases m) auto
  show ?case
    using Suc.prems(1) Suc.IH [OF _ m(2)] by (auto simp: m(1) split: kout.splits)
qed simp

lemma runs_within_bind:
  "runs_within n c p (m s) \<Longrightarrow> runs_within n c p (kbind m f s)"
proof (induction n arbitrary: m s)
  case (Suc n)
  then obtain t k where r: "m s = Swtch t k" by (auto split: kout.splits)
  have "kbind m f s = Swtch t (kbind k f)" using r by (simp add: kbind_def fun_eq_iff)
  then show ?case
    using Suc.prems r Suc.IH [of k] by auto
qed simp

lemma set_cpu_acqd:
  "(acqd lk l)\<lparr>cpus := (cpus (acqd lk l))(c := (cpus (acqd lk l) c)\<lparr>cpu_proc := v\<rparr>)\<rparr> =
   acqd lk (l\<lparr>cpus := (cpus l)(c := (cpus l c)\<lparr>cpu_proc := v\<rparr>)\<rparr>)"
  by (auto intro!: lkst.equality simp: acqd_def push_off_def Let_def lk_defs fun_eq_iff)

lemma lk_wf_set_cpu [simp]:
  "lk_wf (l\<lparr>cpus := (cpus l)(c := (cpus l c)\<lparr>cpu_proc := v\<rparr>)\<rparr>) \<longleftrightarrow> lk_wf l"
  by (auto simp: lk_wf_def lk_defs)

text \<open>After a switch the scheduler lets go of the process that ran and is ready for the next one.\<close>

lemma sched_back:
  assumes "gave_back c q p t"
  shows "\<exists>u. kthen (set_cpu_proc c None) (kthen (release (LProc q)) m) t = m u \<and>
    all_procs_free u \<and> cpuid (lks u) = c \<and> procs u = procs t"
proof -
  obtain l where l: "lks t = acqd (LProc q) l" "lk_wf l" "hart l = c"
    "\<And>r. \<not> locked (locks l (LProc r))"
    using assms by (auto simp: gave_back_def)
  let ?l = "l\<lparr>cpus := (cpus l)(c := (cpus l c)\<lparr>cpu_proc := None\<rparr>)\<rparr>"
  have "release (LProc q) (t\<lparr>lks := acqd (LProc q) ?l\<rparr>) = Ok () (t\<lparr>lks := touch ?l\<rparr>)"
    using l by (simp add: release_def release_acqd)
  then have "kthen (set_cpu_proc c None) (kthen (release (LProc q)) m) t = m (t\<lparr>lks := touch ?l\<rparr>)"
    by (simp add: set_cpu_proc_def l(1) set_cpu_acqd)
  then show ?thesis
    using l by (intro exI [of _ "t\<lparr>lks := touch ?l\<rparr>"]) (simp add: all_procs_free_def cpuid_def)
qed

lemma sched_scan_runs:
  assumes "all_procs_free s" and "cpuid (lks s) = c" and "distinct ps" and "p \<in> set ps"
    and "p_state (procs s p) = RUNNABLE"
  shows "runs_within (Suc (length (takeWhile ((\<noteq>) p) ps))) c p (sched_scan c ps b s)"
  using assms
proof (induction ps arbitrary: s b)
  case (Cons q ps)
  let ?s = "s\<lparr>lks := acqd (LProc q) (lks s)\<rparr>"
  have acq: "acquire (LProc q) s = Ok () ?s"
    using Cons.prems(1) by (simp add: all_procs_free_def lk_free_def)
  have c: "hart (lks s) = c" using Cons.prems(2) by (simp add: cpuid_def)
  show ?case
  proof (cases "p_state (procs s q) = RUNNABLE")
    case True
    let ?u = "?s\<lparr>procs := (procs s)(q := (procs s q)\<lparr>p_state := RUNNING\<rparr>),
      lks := acqd (LProc q) ((lks s)\<lparr>cpus := (cpus (lks s))(c := (cpus (lks s) c)\<lparr>cpu_proc := Some q\<rparr>)\<rparr>)\<rparr>"
    let ?k = "kthen (set_cpu_proc c None) (kthen (release (LProc q)) (sched_scan c ps True))"
    have sw: "\<exists>k. sched_scan c (q # ps) b s = Swtch ?u k \<and> (\<forall>t. k t = ?k t)"
      using acq True by (simp add: set_cpu_proc_def set_cpu_acqd swtch_def kbind_def)
    then obtain k where k: "sched_scan c (q # ps) b s = Swtch ?u k" "\<And>t. k t = ?k t" by blast
    show ?thesis
    proof (cases "q = p")
      case True
      then show ?thesis using k(1) by (simp del: sched_scan.simps)
    next
      case False
      have "runs_within (Suc (length (takeWhile ((\<noteq>) p) ps))) c p (k t)" if g: "gave_back c q p t" for t
      proof -
        obtain u where u: "k t = sched_scan c ps True u" "all_procs_free u" "cpuid (lks u) = c" "procs u = procs t"
          using sched_back [OF g, of "sched_scan c ps True"] by (auto simp: k(2))
        show ?thesis
          using Cons.IH [OF u(2,3)] Cons.prems(3,4) False g by (simp add: u(1,4) gave_back_def)
      qed
      then show ?thesis using False by (simp add: k(1) del: sched_scan.simps)
    qed
  next
    case False
    then have ne: "q \<noteq> p" using Cons.prems(5) by auto
    let ?t = "s\<lparr>lks := touch (lks s)\<rparr>"
    have "release (LProc q) ?s = Ok () ?t"
      using Cons.prems(1) by (simp add: release_def release_acqd all_procs_free_def)
    then have eq: "sched_scan c (q # ps) b s = sched_scan c ps b ?t"
      using acq False by simp
    have "runs_within (Suc (length (takeWhile ((\<noteq>) p) ps))) c p (sched_scan c ps b ?t)"
      by (rule Cons.IH) (use Cons.prems ne c in \<open>simp_all add: cpuid_def\<close>)
    then show ?thesis
      unfolding eq using ne by (elim runs_within_mono) simp
  qed
qed simp

lemma takeWhile_upt: "p < n \<Longrightarrow> length (takeWhile ((\<noteq>) p) [0..<n]) = p"
proof -
  assume "p < n"
  then have "[0..<n] = [0..<p] @ p # [Suc p..<n]"
    using upt_add_eq_append [of 0 p "n - p"] by (simp add: upt_conv_Cons)
  moreover have "takeWhile ((\<noteq>) p) [0..<p] = [0..<p]" by (auto simp: takeWhile_eq_all_conv)
  ultimately show ?thesis by (simp add: takeWhile_append)
qed

lemma all_procs_free_intr:
  assumes "all_procs_free s" and "noff (mycpu (lks s)) = 0"
  shows "all_procs_free (s\<lparr>lks := intr_off (intr_on (lks s))\<rparr>)"
  using assms by (auto simp: all_procs_free_def lk_wf_def intr_on_def intr_off_def lk_defs)

lemma cpuid_busy: "cpuid busy_lkst = 0"
  by (simp add: cpuid_def busy_lkst_def idle_lkst_def)

section \<open>No starvation\<close>

text \<open>
  C6: A hart that runs \<open>scheduler\<close> with the process locks free gives the hart to every
  runnable process \<open>p\<close>: it marks it \<open>RUNNING\<close> and switches to it, holding its lock, after at most
  \<open>p\<close> switches to the processes that come before it in the table. This holds whatever those
  processes do, as long as each gives the hart back through \<open>sched\<close> and none of them takes \<open>p\<close>.
\<close>

theorem scheduler_no_starvation:
  assumes "all_procs_free s" and "noff (mycpu (lks s)) = 0"
    and "p < NPROC" and "p_state (procs s p) = RUNNABLE"
  shows "runs_within (Suc p) (cpuid (lks s)) p (scheduler (Suc n) s)"
proof -
  let ?c = "cpuid (lks s)"
  let ?s = "s\<lparr>lks := (lks s)\<lparr>cpus := (cpus (lks s))(?c := (cpus (lks s) ?c)\<lparr>cpu_proc := None\<rparr>)\<rparr>\<rparr>"
  let ?t = "?s\<lparr>lks := intr_off (intr_on (lks ?s))\<rparr>"
  have s: "all_procs_free ?s" "noff (mycpu (lks ?s)) = 0"
    using assms(1,2) by (simp_all add: all_procs_free_def mycpu_def cpuid_def)
  have t: "all_procs_free ?t" "cpuid (lks ?t) = ?c"
    using all_procs_free_intr [OF s] by (simp_all add: intr_on_def intr_off_def lk_defs)
  have r: "runs_within (Suc p) ?c p (sched_scan ?c [0..<NPROC] False ?t)"
    using sched_scan_runs [OF t, of "[0..<NPROC]" p False] assms(3,4)
    by (simp add: takeWhile_upt del: upt_rec_numeral)
  obtain f where "scheduler (Suc n) s = kbind (sched_scan ?c [0..<NPROC] False) f ?t"
    by (simp add: scheduler_def Let_def set_cpu_proc_def kbind_assoc del: upt_rec_numeral)
  then show ?thesis
    using runs_within_bind [where m = "sched_scan ?c [0..<NPROC] False" and s = ?t, OF r, of f] by argo
qed

theorem scheduler_no_starvation_witness:
  "runs_within 6 0 5 (scheduler 1 (small_procst (\<lambda>_. zero_proc\<lparr>p_state := RUNNABLE\<rparr>)))"
  using scheduler_no_starvation [of "small_procst (\<lambda>_. zero_proc\<lparr>p_state := RUNNABLE\<rparr>)" 5 0]
  by (simp add: cpuid_busy del: runs_within.simps)

end
