(* ===== verification/Pipe.thy ===== *)
theory Pipe
  imports File
begin

text \<open>
  A pipe of \<open>kernel/pipe.c\<close> is a bounded first-in first-out queue of bytes between the memory of
  two processes. The abstraction \<open>pq\<close> reads the queue out of the ring buffer with its two wrapping
  32-bit counters; \<open>pipewrite\<close> appends the writer's bytes to it and \<open>piperead\<close> takes them
  off in the same order and stores them at the reader's addresses.
\<close>

section \<open>The ring buffer as a queue\<close>

definition pq :: "pipe \<Rightarrow> u8 list" where
  "pq x = map (\<lambda>k. pi_data x (unat ((pi_nread x + of_nat k) mod PIPESIZE))) [0..<unat (pi_nwrite x - pi_nread x)]"

definition pipe_fits :: "pipe \<Rightarrow> bool" where
  "pipe_fits x \<longleftrightarrow> unat (pi_nwrite x - pi_nread x) \<le> 512"

text \<open>Storing and removing one byte, as in the loops of \<open>pipewrite\<close> and \<open>piperead\<close>.\<close>

definition pput :: "u8 \<Rightarrow> pipe \<Rightarrow> pipe" where
  "pput b x = x\<lparr>pi_data := (pi_data x)(unat (pi_nwrite x mod PIPESIZE) := b), pi_nwrite := pi_nwrite x + 1\<rparr>"

definition pget :: "pipe \<Rightarrow> pipe" where
  "pget x = x\<lparr>pi_nread := pi_nread x + 1\<rparr>"

lemma length_pq: "length (pq x) = unat (pi_nwrite x - pi_nread x)"
  by (simp add: pq_def)

lemma pq_full: "pi_nwrite x = pi_nread x + PIPESIZE \<longleftrightarrow> length (pq x) = 512"
proof -
  have "length (pq x) = 512 \<longleftrightarrow> pi_nwrite x - pi_nread x = 512"
    using word_unat_eq_iff [of "pi_nwrite x - pi_nread x" 512] by (simp add: length_pq)
  also have "\<dots> \<longleftrightarrow> pi_nwrite x = pi_nread x + 512" by (simp add: diff_eq_eq add.commute)
  finally show ?thesis by simp
qed

lemma pq_empty: "pi_nread x = pi_nwrite x \<longleftrightarrow> pq x = []"
  by (auto simp: pq_def unat_eq_zero)

lemma unat_Suc_32: "unat (w :: u32) < 512 \<Longrightarrow> unat (w + 1) = Suc (unat w)"
  by (simp add: unat_word_ariths)

lemma slot_eq_iff:
  fixes r :: u32
  assumes "i < 512" and "j < 512"
  shows "unat ((r + of_nat i) mod 512) = unat ((r + of_nat j) mod 512) \<longleftrightarrow> i = j"
proof -
  have m: "unat ((r + of_nat k) mod 512) = (unat r + k) mod 512" if "k < 512" for k
  proof -
    have "unat (of_nat k :: u32) = k" using that by (simp add: unat_of_nat take_bit_nat_eq_self)
    then have "unat (r + of_nat k) = (unat r + k) mod 2 ^ 32" by (simp add: unat_word_ariths)
    then have "unat ((r + of_nat k) mod 512) = ((unat r + k) mod 2 ^ 32) mod 512"
      by (simp add: unat_mod_distrib)
    also have "\<dots> = (unat r + k) mod 512" by (rule mod_mod_cancel) simp
    finally show ?thesis .
  qed
  have "i = j" if "(unat r + i) mod 512 = (unat r + j) mod 512" and "i \<le> j"
      and "i < 512" and "j < 512" for i j
    using mod_eq_dvd_iff_nat [of "unat r + i" "unat r + j" 512] that dvd_imp_le [of 512 "j - i"] by (cases "i < j") auto
  from this [of i j] this [of j i] show ?thesis using assms m by (cases "i \<le> j") auto
qed

lemma pq_pput:
  assumes "length (pq x) < 512"
  shows "pq (pput b x) = pq x @ [b]" and "pipe_fits (pput b x)"
proof -
  let ?n = "unat (pi_nwrite x - pi_nread x)"
  have n: "?n < 512" using assms by (simp add: length_pq)
  have d: "unat (pi_nwrite x + 1 - pi_nread x) = Suc ?n"
    using unat_Suc_32 [OF n] by (simp add: algebra_simps)
  have w: "pi_nwrite x = pi_nread x + of_nat ?n" by simp
  have "unat ((pi_nread x + of_nat k) mod 512) \<noteq> unat (pi_nwrite x mod 512)" if "k < ?n" for k
    using slot_eq_iff [of k ?n "pi_nread x"] that n w by simp
  then show "pq (pput b x) = pq x @ [b]" unfolding pq_def pput_def by (simp add: d)
  show "pipe_fits (pput b x)" using n d by (simp add: pipe_fits_def pput_def)
qed

lemma pq_pget:
  assumes "pq x \<noteq> []" and "pipe_fits x"
  shows "pq x = pi_data x (unat (pi_nread x mod PIPESIZE)) # pq (pget x)" and "pipe_fits (pget x)"
proof -
  obtain n where n: "unat (pi_nwrite x - pi_nread x) = Suc n"
    using assms(1) by (cases "unat (pi_nwrite x - pi_nread x)") (auto simp: pq_def)
  then have d: "unat (pi_nwrite x - (pi_nread x + 1)) = n"
    using unat_minus_one [of "pi_nwrite x - pi_nread x"] by (cases "pi_nwrite x = pi_nread x") (simp_all add: diff_diff_eq)
  show "pq x = pi_data x (unat (pi_nread x mod PIPESIZE)) # pq (pget x)"
    using d by (simp add: pq_def pget_def n upt_conv_Cons map_Suc_upt [symmetric] comp_def ac_simps del: upt_Suc)
  show "pipe_fits (pget x)" using assms(2) n d by (simp add: pipe_fits_def pget_def)
qed

section \<open>Bytes of user memory\<close>

text \<open>The physical address behind a user address, and when the kernel may read or write there.\<close>

definition upa :: "pmem \<Rightarrow> u64 \<Rightarrow> u64 \<Rightarrow> u64" where
  "upa m pt va = PTE2PA (pte_at 2 m pt (PGROUNDDOWN va)) + (va - PGROUNDDOWN va)"

definition user_readable :: "pmem \<Rightarrow> u64 \<Rightarrow> u64 \<Rightarrow> bool" where
  "user_readable m pt va \<longleftrightarrow> PGROUNDDOWN va < MAXVA \<and>
     (let e = pte_at 2 m pt (PGROUNDDOWN va) in has e PTE_V \<and> has e PTE_U \<and> PTE2PA e \<noteq> 0)"

definition user_writable :: "pmem \<Rightarrow> u64 \<Rightarrow> u64 \<Rightarrow> bool" where
  "user_writable m pt va \<longleftrightarrow> user_readable m pt va \<and>
     (let e = pte_at 2 m pt (PGROUNDDOWN va) in has e PTE_W \<and> PTE2PA e \<notin> pages_of 2 m pt)"

lemma page_offset: "unat (va - PGROUNDDOWN va) < 4096"
proof -
  have u: "unat va = unat (PGROUNDDOWN va) + unat va mod 4096"
    unfolding unat_PGROUNDDOWN by (rule div_mult_mod_eq [symmetric])
  then have "unat (va - PGROUNDDOWN va) = unat va mod 4096" by (subst unat_sub) (auto simp: word_le_nat_alt)
  then show ?thesis by simp
qed

lemma user_page_ok:
  assumes "pt_wf 2 (mem s) pt" and "user_readable (mem s) pt va"
  shows "user_page pt (PGROUNDDOWN va) s = Ok (PTE2PA (pte_at 2 (mem s) pt (PGROUNDDOWN va))) s"
  using assms by (simp add: user_page_def walkaddr_eq user_readable_def Let_def)

lemma offset_less: "va - PGROUNDDOWN va < 4096"
  using page_offset [of va] by (simp add: word_less_nat_alt)

lemma offset_min: "min (4096 - (va - PGROUNDDOWN va)) 1 = 1"
proof -
  have "unat (4096 - (va - PGROUNDDOWN va)) = 4096 - unat (va - PGROUNDDOWN va)"
    using offset_less [of va] by (subst unat_sub) simp_all
  then have "1 \<le> 4096 - (va - PGROUNDDOWN va)" using page_offset [of va] by (simp add: word_le_nat_alt)
  then show ?thesis by (simp add: min_def)
qed

lemma kloop_two:
  "kloop 2 body i = kbind (body i) (\<lambda>x. case x of Inl j \<Rightarrow> kloop 1 body j | Inr r \<Rightarrow> kret r)"
  "kloop 1 body i = kbind (body i) (\<lambda>x. case x of Inl j \<Rightarrow> kloop 0 body j | Inr r \<Rightarrow> kret r)"
  by (simp_all only: numeral_2_eq_2 One_nat_def kloop.simps)

lemma write_byte: "write_bytes a [b] m = m(a := b)"
  by (auto simp: write_bytes_def fun_eq_iff unat_eq_zero)

lemma copyin_byte:
  assumes "pt_wf 2 (mem s) pt" and "user_readable (mem s) pt va"
  shows "copyin pt va 1 s = Ok (0, [mem s (upa (mem s) pt va)]) s"
proof -
  have "PTE2PA (pte_at 2 (mem s) pt (PGROUNDDOWN va)) \<noteq> 0"
    using assms(2) by (simp add: user_readable_def Let_def)
  then show ?thesis
    using user_page_ok [OF assms] by (simp add: copyin_def kloop_two Let_def offset_min upa_def read_bytes_def)
qed

lemma copyout_byte:
  assumes "pt_wf 2 (mem s) pt" and "user_writable (mem s) pt va"
  shows "copyout pt va [b] s = Ok 0 (s\<lparr>mem := (mem s)(upa (mem s) pt va := b)\<rparr>)"
proof -
  let ?v = "PGROUNDDOWN va"
  let ?e = "pte_at 2 (mem s) pt ?v"
  have r: "user_readable (mem s) pt va" and w: "has ?e PTE_W" and v: "?v < MAXVA" and nz: "PTE2PA ?e \<noteq> 0"
    using assms(2) by (simp_all add: user_writable_def user_readable_def Let_def)
  have "leaf 2 (mem s) pt ?v \<noteq> 0"
    using pte_at_no_leaf [of 2 "mem s" pt ?v] assms(1) w by auto
  moreover have "min (4096 - unat (va - ?v)) 1 = 1" using page_offset [of va] by simp
  ultimately show ?thesis
    using user_page_ok [OF assms(1) r] w v nz pte_at_leaf [of 2 "mem s" pt ?v]
    by (simp add: copyout_def kloop_two Let_def walk_read deref64_def not_le upa_def write_byte)
qed

text \<open>Writing to a user page that is no page of the page table does not change what the table means.\<close>

lemma PTE2PA_aligned: "aligned (PTE2PA e)"
proof -
  have "PGROUNDDOWN (PTE2PA e) = PTE2PA e"
    by (rule bit_eqI) (auto simp: PGROUNDDOWN_eq bit_push_bit_iff bit_drop_bit_eq bit_PTE2PA)
  then show ?thesis using aligned_PGROUNDDOWN [of "PTE2PA e"] by simp
qed

lemma upa_frame:
  assumes "pt_wf 2 m pt" and "user_writable m pt va"
  shows "pt_wf 2 (m(upa m pt va := b)) pt" and "upa (m(upa m pt va := b)) pt = upa m pt"
    and "user_writable (m(upa m pt va := b)) pt = user_writable m pt"
proof -
  let ?m = "m(upa m pt va := b)" and ?f = "PTE2PA (pte_at 2 m pt (PGROUNDDOWN va))"
  have f: "?f \<notin> pages_of 2 m pt" using assms(2) by (simp add: user_writable_def Let_def)
  have "only_in {?f} m ?m"
    using page_offset [of va] by (auto simp: only_in_def upa_def)
  moreover have "aligned ?f"
    by (simp add: PTE2PA_aligned)
  ultimately have "\<forall>p \<in> pages_of 2 m pt. page_same p m ?m"
    using only_in_page_same [of "{?f}" m ?m] pt_wf_pages [OF assms(1)] f by auto
  then have "pages_of 2 ?m pt = pages_of 2 m pt \<and> pt_wf 2 ?m pt = pt_wf 2 m pt \<and>
    pte_at 2 ?m pt = pte_at 2 m pt \<and> leaf 2 ?m pt = leaf 2 m pt"
    by (rule pt_frame)
  then show "pt_wf 2 ?m pt" and "upa ?m pt = upa m pt" and "user_writable ?m pt = user_writable m pt"
    using assms(1) by (simp_all add: upa_def user_writable_def user_readable_def fun_eq_iff)
qed

section \<open>Writing\<close>

text \<open>The hart runs process \<open>pr\<close> and holds the lock of the pipe, and nobody holds a process lock.\<close>

definition at_pipe :: "u64 \<Rightarrow> nat \<Rightarrow> lkst \<Rightarrow> 'z filest_scheme \<Rightarrow> bool" where
  "at_pipe pi pr l s \<longleftrightarrow> lks s = acqd (LPipe pi) l \<and> lk_wf l \<and> cpu_proc (mycpu l) = Some pr \<and>
     \<not> locked (locks l (LPipe pi)) \<and> (\<forall>p. \<not> locked (locks l (LProc p))) \<and> \<not> p_killed (procs s pr)"

text \<open>The same before the lock is taken.\<close>

definition pipe_ready :: "u64 \<Rightarrow> nat \<Rightarrow> 'z filest_scheme \<Rightarrow> bool" where
  "pipe_ready pi pr s \<longleftrightarrow> all_procs_free s \<and> \<not> locked (locks (lks s) (LPipe pi)) \<and>
     cpu_proc (mycpu (lks s)) = Some pr \<and> \<not> p_killed (procs s pr) \<and>
     pt_wf 2 (mem s) (p_pagetable (procs s pr))"

lemma at_pipe_upd [simp]:
  "at_pipe pi pr l (s\<lparr>pipes := f\<rparr>) = at_pipe pi pr l s"
  "at_pipe pi pr l (s\<lparr>mem := m\<rparr>) = at_pipe pi pr l s"
  by (simp_all add: at_pipe_def)

lemma killed_ok: "at_pipe pi pr l s \<Longrightarrow> killed pr s = Ok False s"
  by (simp add: killed_def at_pipe_def lk_free_def)

lemma pipe_enter:
  assumes "pipe_ready pi pr s"
  shows "kbind cur (\<lambda>p. kthen (acquire (LPipe pi)) (f p)) s = f pr (s\<lparr>lks := acqd (LPipe pi) (lks s)\<rparr>)"
    and "at_pipe pi pr (lks s) (s\<lparr>lks := acqd (LPipe pi) (lks s)\<rparr>)"
  using assms by (simp_all add: pipe_ready_def all_procs_free_def at_pipe_def lk_free_def)

lemma pipe_leave:
  assumes "at_pipe pi pr l s"
  shows "\<exists>t. kthen (wakeup ch) (kthen (release (LPipe pi)) (kret r)) s = Ok r t \<and>
    pipes t = pipes s \<and> mem t = mem s"
  using assms by (simp add: at_pipe_def wakeup_ok procs_free_def release_ok)

definition sent :: "u64 \<Rightarrow> nat \<Rightarrow> 'z filest_scheme \<Rightarrow> nat \<Rightarrow> u8" where
  "sent addr pr s j = (let pt = p_pagetable (procs s pr) in mem s (upa (mem s) pt (addr + of_nat j)))"

lemma pipewrite_round:
  assumes "at_pipe pi pr l s" and "pi_readopen (pipes s pi)" and "length (pq (pipes s pi)) < 512"
    and "pt_wf 2 (mem s) (p_pagetable (procs s pr))"
    and "user_readable (mem s) (p_pagetable (procs s pr)) (addr + of_nat i)" and "i < n"
  shows "pipewrite_body pi pr addr (int n) (int i) s =
    Ok (Inl (int (Suc i))) (s\<lparr>pipes := (pipes s)(pi := pput (sent addr pr s i) (pipes s pi))\<rparr>)"
  using assms copyin_byte [OF assms(4,5)]
  by (simp add: pipewrite_body_def kbind_Ok [where m = "killed pr", OF killed_ok [OF assms(1)]] pq_full sent_def Let_def pput_def)

lemma fold_pput:
  "length (pq x) + length bs \<le> 512 \<Longrightarrow> pipe_fits x \<Longrightarrow>
   pq (fold pput bs x) = pq x @ bs \<and> pipe_fits (fold pput bs x)"
  by (induction bs arbitrary: x) (simp_all add: pq_pput)

lemma pput_open [simp]:
  "pi_readopen (pput b x) = pi_readopen x" "pi_writeopen (pput b x) = pi_writeopen x"
  "pi_readopen (fold pput bs x) = pi_readopen x" "pi_writeopen (fold pput bs x) = pi_writeopen x"
  by (simp_all add: pput_def) (induction bs arbitrary: x; simp add: pput_def)+

lemma pipewrite_loop:
  assumes "at_pipe pi pr l s" and "pi_readopen (pipes s pi)" and "length (pq (pipes s pi)) + k \<le> 512"
    and "pt_wf 2 (mem s) (p_pagetable (procs s pr))"
    and "\<forall>j < k. user_readable (mem s) (p_pagetable (procs s pr)) (addr + of_nat (i + j))"
  shows "kloop (Suc (k + f)) (pipewrite_body pi pr addr (int (i + k))) (int i) s =
    Ok (Some (int (i + k))) (s\<lparr>pipes := (pipes s)(pi := fold pput (map (sent addr pr s) [i..<i + k]) (pipes s pi))\<rparr>)"
  using assms
proof (induction k arbitrary: i s)
  case 0
  then show ?case by (simp add: pipewrite_body_def)
next
  case (Suc k)
  let ?t = "s\<lparr>pipes := (pipes s)(pi := pput (sent addr pr s i) (pipes s pi))\<rparr>"
  have r: "pipewrite_body pi pr addr (int (i + Suc k)) (int i) s = Ok (Inl (int (Suc i))) ?t"
    by (rule pipewrite_round) (use Suc.prems in auto)
  have e: "sent addr pr ?t = sent addr pr s" by (simp add: sent_def fun_eq_iff)
  have "\<forall>j < k. user_readable (mem s) (p_pagetable (procs s pr)) (addr + of_nat (Suc i + j))"
    using Suc.prems(5) by (metis Suc_less_eq add_Suc_shift)
  then have "kloop (Suc (k + f)) (pipewrite_body pi pr addr (int (Suc i + k))) (int (Suc i)) ?t =
      Ok (Some (int (Suc i + k))) (?t\<lparr>pipes := (pipes ?t)(pi := fold pput (map (sent addr pr ?t) [Suc i..<Suc i + k]) (pipes ?t pi))\<rparr>)"
    using Suc.prems by (intro Suc.IH) (simp_all add: pq_pput)
  then show ?case
    using r by (simp add: e upt_conv_Cons del: upt_Suc) (simp add: fun_upd_def del: upt_Suc)
qed

lemma pipewrite_ok:
  assumes "pipe_ready pi pr s" and "pi_readopen (pipes s pi)" and "length (pq (pipes s pi)) + n \<le> 512"
    and "\<forall>j < n. user_readable (mem s) (p_pagetable (procs s pr)) (addr + of_nat j)"
  shows "\<exists>t. pipewrite pi addr (int n) s = Ok (int n) t \<and>
    pipes t = (pipes s)(pi := fold pput (map (sent addr pr s) [0..<n]) (pipes s pi)) \<and> mem t = mem s"
proof -
  let ?s = "s\<lparr>lks := acqd (LPipe pi) (lks s)\<rparr>"
  note e = pipe_enter [OF assms(1)]
  have e2: "sent addr pr ?s = sent addr pr s" by (simp add: sent_def fun_eq_iff)
  have "kloop (Suc (n + rounds s)) (pipewrite_body pi pr addr (int (0 + n))) (int 0) ?s =
      Ok (Some (int (0 + n))) (?s\<lparr>pipes := (pipes ?s)(pi := fold pput (map (sent addr pr ?s) [0..<0 + n]) (pipes ?s pi))\<rparr>)"
    by (rule pipewrite_loop [OF e(2)]) (use assms in \<open>simp_all add: pipe_ready_def\<close>)
  then show ?thesis
    using pipe_leave [of pi pr "lks s" "?s\<lparr>pipes := (pipes ?s)(pi := fold pput (map (sent addr pr ?s) [0..<n]) (pipes ?s pi))\<rparr>"
        "Some (Cnread pi)" "int n"] e(2)
    by (simp add: pipewrite_def pipe_enter(1) [OF assms(1)] e2 del: kloop.simps)
qed

section \<open>Reading\<close>

definition deliver :: "(u64 \<times> u8) list \<Rightarrow> pmem \<Rightarrow> pmem" where
  "deliver ps m = fold (\<lambda>(a, b) m. m(a := b)) ps m"

lemma deliver_simps [simp]: "deliver [] m = m" "deliver ((a, b) # ps) m = deliver ps (m(a := b))"
  by (simp_all add: deliver_def)

text \<open>Where the bytes of a read go: the \<open>j\<close>-th one to the frame behind \<open>addr + j\<close>.\<close>

definition targets :: "pmem \<Rightarrow> u64 \<Rightarrow> u64 \<Rightarrow> nat \<Rightarrow> u8 list \<Rightarrow> (u64 \<times> u8) list" where
  "targets m pt addr i bs = zip (map (\<lambda>j. upa m pt (addr + of_nat j)) [i..<i + length bs]) bs"

lemma targets_simps [simp]:
  "targets m pt addr i [] = []"
  "targets m pt addr i (b # bs) = (upa m pt (addr + of_nat i), b) # targets m pt addr (Suc i) bs"
  by (simp_all add: targets_def upt_conv_Cons del: upt_Suc)

lemma targets_frame: "upa m' pt = upa m pt \<Longrightarrow> targets m' pt addr i bs = targets m pt addr i bs"
  by (simp add: targets_def)

lemma piperead_round:
  assumes "pq (pipes s pi) = b # q" and "pipe_fits (pipes s pi)"
    and "pt_wf 2 (mem s) (p_pagetable (procs s pr))"
    and "user_writable (mem s) (p_pagetable (procs s pr)) (addr + of_nat i)" and "i < n"
  shows "piperead_body pi pr addr (int n) (int i) s =
    Ok (Inl (int (Suc i))) (s\<lparr>mem := (mem s)(upa (mem s) (p_pagetable (procs s pr)) (addr + of_nat i) := b),
      pipes := (pipes s)(pi := pget (pipes s pi))\<rparr>)"
proof -
  have "pi_data (pipes s pi) (unat (pi_nread (pipes s pi) mod 512)) = b" and "pi_nread (pipes s pi) \<noteq> pi_nwrite (pipes s pi)"
    using pq_pget(1) [of "pipes s pi"] assms(1,2) pq_empty [of "pipes s pi"] by auto
  then show ?thesis
    using assms(5) copyout_byte [OF assms(3,4), of b] by (simp add: piperead_body_def pget_def)
qed

lemma piperead_stop:
  "n \<le> i \<or> pq (pipes s pi) = [] \<Longrightarrow> piperead_body pi pr addr (int n) (int i) s = Ok (Inr (int i)) s"
  using pq_empty [of "pipes s pi"] by (auto simp: piperead_body_def)

lemma funpow_pget:
  "k \<le> length (pq x) \<Longrightarrow> pipe_fits x \<Longrightarrow>
   pq ((pget ^^ k) x) = drop k (pq x) \<and> pipe_fits ((pget ^^ k) x)"
proof (induction k arbitrary: x)
  case (Suc k)
  then obtain b q where q: "pq x = b # q" by (cases "pq x") auto
  then have "pq (pget x) = q" "pipe_fits (pget x)" using pq_pget [of x] Suc.prems by auto
  then show ?case using Suc.IH [of "pget x"] Suc.prems q by (simp add: funpow_swap1)
qed simp

lemma piperead_loop:
  fixes s :: "'z filest_scheme"
  assumes "pipe_fits (pipes s pi)" and "pt_wf 2 (mem s) (p_pagetable (procs s pr))"
    and "\<forall>j < k. user_writable (mem s) (p_pagetable (procs s pr)) (addr + of_nat (i + j))"
  shows "\<exists>t. kloop (Suc k) (piperead_body pi pr addr (int (i + k))) (int i) s =
      Ok (int (i + min k (length (pq (pipes s pi))))) t \<and>
    t = s\<lparr>mem := deliver (targets (mem s) (p_pagetable (procs s pr)) addr i (take k (pq (pipes s pi)))) (mem s),
      pipes := (pipes s)(pi := (pget ^^ min k (length (pq (pipes s pi)))) (pipes s pi))\<rparr>"
  using assms
proof (induction k arbitrary: i s)
  case 0
  then show ?case by (simp add: piperead_stop)
next
  case (Suc k)
  show ?case
  proof (cases "pq (pipes s pi)")
    case Nil
    then show ?thesis using piperead_stop [of "i + Suc k" i s pi pr addr] by simp
  next
    case (Cons b q)
    let ?pt = "p_pagetable (procs s pr)"
    define m where "m = (mem s)(upa (mem s) ?pt (addr + of_nat i) := b)"
    define x where "x = (pipes s)(pi := pget (pipes s pi))"
    let ?t = "s\<lparr>mem := m, pipes := x\<rparr>"
    have w: "user_writable (mem s) ?pt (addr + of_nat i)" using Suc.prems(3) by (metis add_0_right zero_less_Suc)
    have r: "piperead_body pi pr addr (int (i + Suc k)) (int i) s = Ok (Inl (int (Suc i))) ?t"
      unfolding m_def x_def by (rule piperead_round [OF Cons Suc.prems(1,2) w]) simp
    note fr = upa_frame [OF Suc.prems(2) w, of b, folded m_def]
    have x: "x pi = pget (pipes s pi)" "x(pi := y) = (pipes s)(pi := y)" for y by (simp_all add: x_def)
    have q: "pq (pget (pipes s pi)) = q" "pipe_fits (pget (pipes s pi))"
      using pq_pget [of "pipes s pi"] Cons Suc.prems(1) by auto
    have "\<forall>j < k. user_writable (mem s) ?pt (addr + of_nat (Suc i + j))"
      using Suc.prems(3) by (metis Suc_less_eq add_Suc_shift)
    then have "\<exists>t. kloop (Suc k) (piperead_body pi pr addr (int (Suc i + k))) (int (Suc i)) ?t =
        Ok (int (Suc i + min k (length (pq (pipes ?t pi))))) t \<and>
      t = ?t\<lparr>mem := deliver (targets (mem ?t) (p_pagetable (procs ?t pr)) addr (Suc i) (take k (pq (pipes ?t pi)))) (mem ?t),
        pipes := (pipes ?t)(pi := (pget ^^ min k (length (pq (pipes ?t pi)))) (pipes ?t pi))\<rparr>"
      by (intro Suc.IH) (simp_all add: q fr x)
    then show ?thesis
      using r by (simp add: q Cons x targets_frame [OF fr(2)] m_def [symmetric] funpow_swap1) (simp add: fun_upd_def)
  qed
qed

lemma piperead_ok:
  assumes "pipe_ready pi pr s" and "pq (pipes s pi) \<noteq> [] \<or> \<not> pi_writeopen (pipes s pi)"
    and "pipe_fits (pipes s pi)" and "0 < rounds s"
    and "\<forall>j < n. user_writable (mem s) (p_pagetable (procs s pr)) (addr + of_nat j)"
  shows "\<exists>t. piperead pi addr (int n) s = Ok (int (min n (length (pq (pipes s pi))))) t \<and>
    pipes t = (pipes s)(pi := (pget ^^ min n (length (pq (pipes s pi)))) (pipes s pi)) \<and>
    mem t = deliver (targets (mem s) (p_pagetable (procs s pr)) addr 0 (take n (pq (pipes s pi)))) (mem s)"
proof -
  let ?s = "s\<lparr>lks := acqd (LPipe pi) (lks s)\<rparr>"
  note e = pipe_enter [OF assms(1)]
  obtain r where r: "rounds s = Suc r" using assms(4) by (cases "rounds s") auto
  have ne: "\<not> (pi_nread (pipes s pi) = pi_nwrite (pipes s pi) \<and> pi_writeopen (pipes s pi))"
    using assms(2) pq_empty [of "pipes s pi"] by blast
  have w: "piperead_wait pi pr ?s = Ok True ?s"
    using ne by (simp add: piperead_wait_def r)
  obtain t where t: "kloop (Suc n) (piperead_body pi pr addr (int (0 + n))) (int 0) ?s =
      Ok (int (0 + min n (length (pq (pipes ?s pi))))) t"
    "t = ?s\<lparr>mem := deliver (targets (mem ?s) (p_pagetable (procs ?s pr)) addr 0 (take n (pq (pipes ?s pi)))) (mem ?s),
      pipes := (pipes ?s)(pi := (pget ^^ min n (length (pq (pipes ?s pi)))) (pipes ?s pi))\<rparr>"
    using piperead_loop [of ?s pi pr n addr 0] assms by (auto simp: pipe_ready_def)
  have "at_pipe pi pr (lks s) t" using e(2) unfolding t(2) by simp
  from pipe_leave [OF this, of "Some (Cnwrite pi)" "int (min n (length (pq (pipes s pi))))"] show ?thesis
    using t(1) by (simp add: piperead_def pipe_enter(1) [OF assms(1)]
        kbind_Ok [where m = "piperead_wait pi pr", OF w] t(2) del: kloop.simps)
qed

section \<open>First in, first out\<close>

text \<open>
  C5: A pipe is a bounded first-in first-out queue. When there is room for \<open>n\<close> more bytes, the reader's
  end is open and the writer's buffer is mapped, \<open>pipewrite\<close> returns \<open>n\<close> and appends exactly the
  \<open>n\<close> bytes of the buffer to the queue, changing no memory and no other pipe. Any process
  that calls \<open>piperead\<close> on a nonempty pipe in that state with a mapped, writable buffer of \<open>k\<close> bytes gets
  the oldest bytes, at most \<open>k\<close>, at its addresses in order; nothing else of memory changes and exactly these
  bytes leave the queue. This holds over the wrap-around of the ring buffer and of the counters.
\<close>

theorem pipe_fifo:
  fixes s :: "'z filest_scheme"
  assumes "pipe_ready pi pr s" and "pi_readopen (pipes s pi)" and "pipe_fits (pipes s pi)"
    and "length (pq (pipes s pi)) + n \<le> 512"
    and "\<forall>j < n. user_readable (mem s) (p_pagetable (procs s pr)) (addr + of_nat j)"
  shows "\<exists>t. pipewrite pi addr (int n) s = Ok (int n) t \<and> mem t = mem s \<and>
    (\<forall>pi'. pi' \<noteq> pi \<longrightarrow> pipes t pi' = pipes s pi') \<and>
    pq (pipes t pi) = pq (pipes s pi) @ map (sent addr pr s) [0..<n] \<and>
    (\<forall>(u :: 'z filest_scheme) rd dst k.
       pipe_ready pi rd u \<and> pipes u pi = pipes t pi \<and> pq (pipes t pi) \<noteq> [] \<and> 0 < rounds u \<and>
       (\<forall>j < k. user_writable (mem u) (p_pagetable (procs u rd)) (dst + of_nat j)) \<longrightarrow>
       (\<exists>v. piperead pi dst (int k) u = Ok (int (min k (length (pq (pipes t pi))))) v \<and>
          pq (pipes v pi) = drop k (pq (pipes t pi)) \<and>
          mem v = deliver (targets (mem u) (p_pagetable (procs u rd)) dst 0 (take k (pq (pipes t pi)))) (mem u)))"
proof -
  let ?bs = "map (sent addr pr s) [0..<n]"
  obtain t where t: "pipewrite pi addr (int n) s = Ok (int n) t"
    "pipes t = (pipes s)(pi := fold pput ?bs (pipes s pi))" "mem t = mem s"
    using pipewrite_ok [OF assms(1,2,4,5)] by blast
  have q: "pq (pipes t pi) = pq (pipes s pi) @ ?bs" "pipe_fits (pipes t pi)"
    using fold_pput [of "pipes s pi" ?bs] assms(3,4) by (simp_all add: t(2))
  have "\<exists>v. piperead pi dst (int k) u = Ok (int (min k (length (pq (pipes t pi))))) v \<and>
      pq (pipes v pi) = drop k (pq (pipes t pi)) \<and>
      mem v = deliver (targets (mem u) (p_pagetable (procs u rd)) dst 0 (take k (pq (pipes t pi)))) (mem u)"
    if u: "pipe_ready pi rd u" "pipes u pi = pipes t pi" "pq (pipes t pi) \<noteq> []" "0 < rounds u"
      "\<forall>j < k. user_writable (mem u) (p_pagetable (procs u rd)) (dst + of_nat j)"
    for u :: "'z filest_scheme" and rd dst k
    using piperead_ok [OF u(1) _ _ u(4,5)] u(2,3) q(2)
      funpow_pget [of "min k (length (pq (pipes t pi)))" "pipes t pi"] by (auto simp: min_def)
  with t q(1) show ?thesis by (intro exI [of _ t]) auto
qed

text \<open>An address space with one page: user address 0 is the page at \<open>0x403000\<close>.\<close>

definition one_page :: pmem where
  "one_page = one_entry 0 0 0 (PA2PTE 0x403000 OR PTE_R OR PTE_W OR PTE_U OR PTE_V)
     ((\<lambda>_. 0)(0x403000 := 7, 0x403001 := 8))"

lemma one_page_wf:
  "pt_wf 2 one_page 0x400000" "pages_of 2 one_page 0x400000 = {0x400000, 0x401000, 0x402000}"
  and one_page_pte: "pte_at 2 one_page 0x400000 0 = PA2PTE 0x403000 OR PTE_R OR PTE_W OR PTE_U OR PTE_V"
proof -
  have z: "page_same p (\<lambda>_. 0) ((\<lambda>_. 0)(0x403000 := 7, 0x403001 := 8))"
    if "aligned p" "p \<noteq> 0x403000" for p
    by (rule page_same_trans [OF page_same_upd [OF that(1) _ that(2)] page_same_upd [OF that(1) _ that(2)]])
       (simp_all add: aligned_def)
  have z: "page_same 0x400000 (\<lambda>_. 0) ((\<lambda>_. 0)(0x403000 := 7, 0x403001 := 8))"
    "page_same 0x401000 (\<lambda>_. 0) ((\<lambda>_. 0)(0x403000 := 7, 0x403001 := 8))"
    "page_same 0x402000 (\<lambda>_. 0) ((\<lambda>_. 0)(0x403000 := 7, 0x403001 := 8))"
    by (rule z; simp add: aligned_def)+
  have px: "0 = PX 2 0" "0 = PX 1 0" "0 = PX 0 0" by (simp_all add: PX_def)
  note tab = one_entry_table [OF z px, of "PA2PTE 0x403000 OR PTE_R OR PTE_W OR PTE_U OR PTE_V", folded one_page_def]
  show "pt_wf 2 one_page 0x400000" "pages_of 2 one_page 0x400000 = {0x400000, 0x401000, 0x402000}"
    "pte_at 2 one_page 0x400000 0 = PA2PTE 0x403000 OR PTE_R OR PTE_W OR PTE_U OR PTE_V"
    by (rule tab)+
qed

lemma one_page_user:
  assumes "va < 4096"
  shows "user_writable one_page 0x400000 va" and "upa one_page 0x400000 va = 0x403000 + va"
proof -
  have z: "PGROUNDDOWN va = 0"
    using assms PGROUNDDOWN_iff [of 0 va] by (simp add: aligned_def word_less_nat_alt)
  have "PTE2PA (PA2PTE 0x403000 OR PTE_R OR PTE_W OR PTE_U OR PTE_V) = 0x403000"
    by (simp add: PA2PTE_def PTE2PA_def)
  then show "user_writable one_page 0x400000 va" and "upa one_page 0x400000 va = 0x403000 + va"
    unfolding user_writable_def user_readable_def upa_def z one_page_pte one_page_wf(2)
    by (simp_all add: has_def PA2PTE_def Let_def)
qed

definition pipe_example :: filest where
  "pipe_example = small_filest\<lparr>mem := one_page, procs := (\<lambda>p. zero_proc\<lparr>p_pid := int p + 1, p_pagetable := 0x400000\<rparr>)\<rparr>"

lemma pipe_example_sel [simp]:
  "lks pipe_example = busy_lkst" "rounds pipe_example = 10" "mem pipe_example = one_page"
  "procs pipe_example = (\<lambda>p. zero_proc\<lparr>p_pid := int p + 1, p_pagetable := 0x400000\<rparr>)"
  "pq (pipes pipe_example pi) = []" "pi_readopen (pipes pipe_example pi)" "pipe_fits (pipes pipe_example pi)"
  by (simp_all add: pipe_example_def pq_def pipe_fits_def)

lemma pipe_example_ready: "pipe_ready pi 0 (pipe_example\<lparr>pipes := x\<rparr>)" "pipe_ready pi 0 pipe_example"
  using one_page_wf(1) by (simp_all add: pipe_ready_def all_procs_free_def zero_proc_def)

lemma one_page_bytes: "one_page 0x403000 = 7" "one_page 0x403001 = 8"
  by (simp_all add: one_page_def one_entry_def write64_def write_bytes_def)

text \<open>Two bytes at user address 0 go through the pipe to user address \<open>0x100\<close>.\<close>

theorem pipe_fifo_witness:
  "\<exists>t v. pipewrite 0x500000 0 2 pipe_example = Ok 2 t \<and> pq (pipes t 0x500000) = [7, 8] \<and>
     piperead 0x500000 0x100 10 (pipe_example\<lparr>pipes := pipes t\<rparr>) = Ok 2 v \<and> pq (pipes v 0x500000) = [] \<and>
     mem v = one_page(0x403100 := 7, 0x403101 := 8)"
proof -
  have w: "user_writable one_page 0x400000 (a + of_nat j)" if "unat a + j < 4096" for a j
  proof (rule one_page_user(1))
    have "unat (a + of_nat j) = unat a + j" using that by (simp add: unat_word_ariths unat_of_nat)
    then show "a + of_nat j < 4096" using that by (simp add: word_less_nat_alt)
  qed
  have r: "\<forall>j < 2. user_readable (mem pipe_example) (p_pagetable (procs pipe_example 0)) (0 + of_nat j)"
    using w [of 0] by (auto simp: user_writable_def)
  have sent: "map (sent 0 0 pipe_example) [0..<2] = [7, 8]"
    using one_page_user(2) [of 0] one_page_user(2) [of 1] one_page_bytes
    by (simp add: sent_def upt_rec Let_def)
  have room: "length (pq (pipes pipe_example 0x500000)) + 2 \<le> 512" by simp
  obtain t where t0: "pipewrite 0x500000 0 (int 2) pipe_example = Ok (int 2) t"
      "pq (pipes t 0x500000) = pq (pipes pipe_example 0x500000) @ map (sent 0 0 pipe_example) [0..<2]"
    and u: "\<forall>(u :: filest) rd dst k. pipe_ready 0x500000 rd u \<and> pipes u 0x500000 = pipes t 0x500000 \<and>
      pq (pipes t 0x500000) \<noteq> [] \<and> 0 < rounds u \<and>
      (\<forall>j < k. user_writable (mem u) (p_pagetable (procs u rd)) (dst + of_nat j)) \<longrightarrow>
       (\<exists>v. piperead 0x500000 dst (int k) u = Ok (int (min k (length (pq (pipes t 0x500000))))) v \<and>
          pq (pipes v 0x500000) = drop k (pq (pipes t 0x500000)) \<and>
          mem v = deliver (targets (mem u) (p_pagetable (procs u rd)) dst 0 (take k (pq (pipes t 0x500000)))) (mem u))"
    using pipe_fifo [OF pipe_example_ready(2) pipe_example_sel(6,7) room r] by blast
  have t: "pipewrite 0x500000 0 2 pipe_example = Ok 2 t" "pq (pipes t 0x500000) = [7, 8]"
    using t0 sent by simp_all
  have "\<forall>j < 10. user_writable one_page 0x400000 (0x100 + of_nat j)"
    using w [of "0x100"] by simp
  then obtain v where "piperead 0x500000 0x100 (int 10) (pipe_example\<lparr>pipes := pipes t\<rparr>) = Ok (int (min 10 2)) v"
    "pq (pipes v 0x500000) = []"
    "mem v = deliver (targets one_page 0x400000 0x100 0 [7, 8]) one_page"
    using u [rule_format, of 0 "pipe_example\<lparr>pipes := pipes t\<rparr>" 10 "0x100"] t(2) pipe_example_ready(1) by auto
  then show ?thesis
    using t one_page_user(2) [of "0x100"] one_page_user(2) [of "0x101"] by auto
qed

end
