(* ===== verification/Asm.thy ===== *)
theory Asm
  imports Proc
begin

text \<open>
  The assembly code of the kernel: \<open>kernel/swtch.S\<close>, \<open>kernel/trampoline.S\<close>, \<open>kernel/kernelvec.S\<close>
  and \<open>kernel/entry.S\<close>, as lists of instructions with a small semantics of the RISC-V instructions they
  use. Loads and stores go through the page table that \<open>satp\<close> names, as described in theory \<open>Vm\<close>.
  The theory shows that a user process gets all its registers back after a trap.
\<close>

section \<open>The machine\<close>

datatype xreg =
    Ra | Sp | Gp | Tp | T0 | T1 | T2 | S0 | S1
  | A0 | A1 | A2 | A3 | A4 | A5 | A6 | A7
  | S2 | S3 | S4 | S5 | S6 | S7 | S8 | S9 | S10 | S11
  | T3 | T4 | T5 | T6

datatype scsr = Sscratch | Satp | Mhartid

text \<open>\<open>JALR\<close>, \<open>RET\<close> and \<open>SRET\<close> end a block of instructions; the jump target is left in \<open>a_pc\<close>.\<close>

datatype instr =
    LD xreg u64 xreg
  | SD xreg u64 xreg
  | LI xreg u64
  | ADDI xreg xreg u64
  | ADD xreg xreg xreg
  | MUL xreg xreg xreg
  | CSRW scsr xreg
  | CSRR xreg scsr
  | SFENCE
  | JALR xreg
  | RET
  | SRET

record ast =
  xr :: "xreg \<Rightarrow> u64"
  a_csr :: "scsr \<Rightarrow> u64"
  a_mem :: pmem
  a_pc :: u64
  a_sepc :: u64

definition satp_root :: "u64 \<Rightarrow> u64" where
  "satp_root satp = push_bit 12 (take_bit 44 satp)"

text \<open>
  The address a supervisor-mode access goes to; \<open>None\<close> is a page fault. Without translation
  (\<open>satp\<close> is 0) addresses are physical. Pages of user mode are out of reach.
\<close>

definition translate :: "pmem \<Rightarrow> u64 \<Rightarrow> u64 \<Rightarrow> u64 \<Rightarrow> u64 option" where
  "translate m satp perm va =
     (if satp = 0 then Some va
      else
        (let e = pte_at 2 m (satp_root satp) (PGROUNDDOWN va)
         in if PGROUNDDOWN va < MAXVA \<and> has e PTE_V \<and> has e perm \<and> \<not> has e PTE_U
            then Some (PTE2PA e + (va - PGROUNDDOWN va)) else None))"

fun step_instr :: "instr \<Rightarrow> ast \<Rightarrow> ast option" where
  "step_instr (LD r off b) s =
     (case translate (a_mem s) (a_csr s Satp) PTE_R (xr s b + off) of
        None \<Rightarrow> None
      | Some a \<Rightarrow> Some (s\<lparr>xr := (xr s)(r := read64 (a_mem s) a)\<rparr>))"
| "step_instr (SD r off b) s =
     (case translate (a_mem s) (a_csr s Satp) PTE_W (xr s b + off) of
        None \<Rightarrow> None
      | Some a \<Rightarrow> Some (s\<lparr>a_mem := write64 a (xr s r) (a_mem s)\<rparr>))"
| "step_instr (LI r v) s = Some (s\<lparr>xr := (xr s)(r := v)\<rparr>)"
| "step_instr (ADDI r b v) s = Some (s\<lparr>xr := (xr s)(r := xr s b + v)\<rparr>)"
| "step_instr (ADD r b c) s = Some (s\<lparr>xr := (xr s)(r := xr s b + xr s c)\<rparr>)"
| "step_instr (MUL r b c) s = Some (s\<lparr>xr := (xr s)(r := xr s b * xr s c)\<rparr>)"
| "step_instr (CSRW c r) s = Some (s\<lparr>a_csr := (a_csr s)(c := xr s r)\<rparr>)"
| "step_instr (CSRR r c) s = Some (s\<lparr>xr := (xr s)(r := a_csr s c)\<rparr>)"
| "step_instr SFENCE s = Some s"
| "step_instr (JALR r) s = Some (s\<lparr>a_pc := xr s r\<rparr>)"
| "step_instr RET s = Some (s\<lparr>a_pc := xr s Ra\<rparr>)"
| "step_instr SRET s = Some (s\<lparr>a_pc := a_sepc s\<rparr>)"

fun exec_block :: "instr list \<Rightarrow> ast \<Rightarrow> ast option" where
  "exec_block [] s = Some s"
| "exec_block (i # is) s = (case step_instr i s of None \<Rightarrow> None | Some t \<Rightarrow> exec_block is t)"

section \<open>The code\<close>

definition swtch_S :: "instr list" where
  "swtch_S =
    [SD Ra 0 A0, SD Sp 8 A0, SD S0 16 A0, SD S1 24 A0, SD S2 32 A0, SD S3 40 A0, SD S4 48 A0,
     SD S5 56 A0, SD S6 64 A0, SD S7 72 A0, SD S8 80 A0, SD S9 88 A0, SD S10 96 A0, SD S11 104 A0,
     LD Ra 0 A1, LD Sp 8 A1, LD S0 16 A1, LD S1 24 A1, LD S2 32 A1, LD S3 40 A1, LD S4 48 A1,
     LD S5 56 A1, LD S6 64 A1, LD S7 72 A1, LD S8 80 A1, LD S9 88 A1, LD S10 96 A1, LD S11 104 A1,
     RET]"

definition uservec_save :: "instr list" where
  "uservec_save =
    [SD Ra 40 A0, SD Sp 48 A0, SD Gp 56 A0, SD Tp 64 A0, SD T0 72 A0, SD T1 80 A0, SD T2 88 A0,
     SD S0 96 A0, SD S1 104 A0, SD A1 120 A0, SD A2 128 A0, SD A3 136 A0, SD A4 144 A0,
     SD A5 152 A0, SD A6 160 A0, SD A7 168 A0, SD S2 176 A0, SD S3 184 A0, SD S4 192 A0,
     SD S5 200 A0, SD S6 208 A0, SD S7 216 A0, SD S8 224 A0, SD S9 232 A0, SD S10 240 A0,
     SD S11 248 A0, SD T3 256 A0, SD T4 264 A0, SD T5 272 A0, SD T6 280 A0]"

definition uservec_enter :: "instr list" where
  "uservec_enter =
    [CSRR T0 Sscratch, SD T0 112 A0,
     LD Sp 8 A0, LD Tp 32 A0, LD T0 16 A0, LD T1 0 A0,
     SFENCE, CSRW Satp T1, SFENCE, JALR T0]"

definition uservec :: "instr list" where
  "uservec = [CSRW Sscratch A0, LI A0 TRAPFRAME] @ uservec_save @ uservec_enter"

definition userret_load :: "instr list" where
  "userret_load =
    [LD Ra 40 A0, LD Sp 48 A0, LD Gp 56 A0, LD Tp 64 A0, LD T0 72 A0, LD T1 80 A0, LD T2 88 A0,
     LD S0 96 A0, LD S1 104 A0, LD A1 120 A0, LD A2 128 A0, LD A3 136 A0, LD A4 144 A0,
     LD A5 152 A0, LD A6 160 A0, LD A7 168 A0, LD S2 176 A0, LD S3 184 A0, LD S4 192 A0,
     LD S5 200 A0, LD S6 208 A0, LD S7 216 A0, LD S8 224 A0, LD S9 232 A0, LD S10 240 A0,
     LD S11 248 A0, LD T3 256 A0, LD T4 264 A0, LD T5 272 A0, LD T6 280 A0]"

definition userret :: "instr list" where
  "userret = [SFENCE, CSRW Satp A0, SFENCE, LI A0 TRAPFRAME] @ userret_load @ [LD A0 112 A0, SRET]"

text \<open>The part of \<open>kernelvec\<close> before the call of \<open>kerneltrap\<close> and the part after it.\<close>

definition kernelvec_save :: "instr list" where
  "kernelvec_save =
    [ADDI Sp Sp (- 256),
     SD Ra 0 Sp, SD Gp 16 Sp, SD Tp 24 Sp, SD T0 32 Sp, SD T1 40 Sp, SD T2 48 Sp, SD A0 72 Sp,
     SD A1 80 Sp, SD A2 88 Sp, SD A3 96 Sp, SD A4 104 Sp, SD A5 112 Sp, SD A6 120 Sp, SD A7 128 Sp,
     SD T3 216 Sp, SD T4 224 Sp, SD T5 232 Sp, SD T6 240 Sp]"

definition kernelvec_restore :: "instr list" where
  "kernelvec_restore =
    [LD Ra 0 Sp, LD Gp 16 Sp, LD T0 32 Sp, LD T1 40 Sp, LD T2 48 Sp, LD A0 72 Sp,
     LD A1 80 Sp, LD A2 88 Sp, LD A3 96 Sp, LD A4 104 Sp, LD A5 112 Sp, LD A6 120 Sp, LD A7 128 Sp,
     LD T3 216 Sp, LD T4 224 Sp, LD T5 232 Sp, LD T6 240 Sp,
     ADDI Sp Sp 256, SRET]"

text \<open>\<open>stack0\<close> is a symbol of the linker.\<close>

definition entry_S :: "u64 \<Rightarrow> instr list" where
  "entry_S stack0 =
    [LI Sp stack0, LI A0 (1024 * 4), CSRR A1 Mhartid, ADDI A1 A1 1, MUL A0 A0 A1, ADD Sp Sp A0]"

section \<open>Blocks of loads and stores\<close>

lemma exec_block_append:
  "exec_block (is @ js) s = (case exec_block is s of None \<Rightarrow> None | Some t \<Rightarrow> exec_block js t)"
  by (induction "is" arbitrary: s) (auto split: option.splits)

text \<open>
  A base address \<open>va\<close> that is the start of a page of supervisor memory at \<open>pa\<close>, which is no page of the
  page table.
\<close>

definition frame_at :: "pmem \<Rightarrow> u64 \<Rightarrow> u64 \<Rightarrow> u64 \<Rightarrow> bool" where
  "frame_at m satp va pa \<longleftrightarrow> satp \<noteq> 0 \<and> aligned va \<and> va < MAXVA \<and> aligned pa \<and>
     pt_wf 2 m (satp_root satp) \<and> pa \<notin> pages_of 2 m (satp_root satp) \<and>
     (let e = pte_at 2 m (satp_root satp) va
      in has e PTE_V \<and> has e PTE_R \<and> has e PTE_W \<and> \<not> has e PTE_U \<and> PTE2PA e = pa)"

lemma unat_off: "(i :: u64) < 512 \<Longrightarrow> unat (8 * i) < 4096"
  by (simp add: unat_8_PX word_less_nat_alt)

lemma frame_translate:
  assumes "frame_at m satp va pa" and "i < 512"
  shows "translate m satp PTE_R (va + 8 * i) = Some (pa + 8 * i)"
    and "translate m satp PTE_W (va + 8 * i) = Some (pa + 8 * i)"
proof -
  have v: "unat va < 0x4000000000" "aligned va"
    using assms(1) by (auto simp: frame_at_def word_less_nat_alt)
  have "unat (va + 8 * i) = unat va + unat (8 * i)"
    using v(1) unat_off [OF assms(2)] by (subst unat_word_ariths) simp
  then have "PGROUNDDOWN (va + 8 * i) = va"
    using unat_off [OF assms(2)] PGROUNDDOWN_iff [OF v(2)] by simp
  then show "translate m satp PTE_R (va + 8 * i) = Some (pa + 8 * i)"
    and "translate m satp PTE_W (va + 8 * i) = Some (pa + 8 * i)"
    using assms(1) by (simp_all add: translate_def frame_at_def Let_def)
qed

lemma frame_only_in:
  assumes "frame_at m satp va pa" and "only_in {pa} m m'"
  shows "frame_at m' satp va pa"
proof -
  have "\<forall>p \<in> pages_of 2 m (satp_root satp). page_same p m m'"
    using only_in_page_same [OF assms(2)] assms(1) pt_wf_pages [of 2 m "satp_root satp"]
    by (auto simp: frame_at_def)
  from pt_frame [OF this] show ?thesis using assms(1) by (simp add: frame_at_def)
qed

definition save_regs :: "(xreg \<Rightarrow> u64) \<Rightarrow> u64 \<Rightarrow> (xreg \<times> u64) list \<Rightarrow> pmem \<Rightarrow> pmem" where
  "save_regs x pa ps m = fold (\<lambda>(r, i) m. write64 (pa + 8 * i) (x r) m) ps m"

definition load_regs :: "pmem \<Rightarrow> u64 \<Rightarrow> (xreg \<times> u64) list \<Rightarrow> (xreg \<Rightarrow> u64) \<Rightarrow> xreg \<Rightarrow> u64" where
  "load_regs m pa ps x = fold (\<lambda>(r, i) x. x(r := read64 m (pa + 8 * i))) ps x"

abbreviation (input) small_offs :: "(xreg \<times> u64) list \<Rightarrow> bool" where
  "small_offs ps \<equiv> list_all (\<lambda>(r, i). i < 512) ps"

lemma save_regs_only_in: "small_offs ps \<Longrightarrow> only_in {pa} m (save_regs x pa ps m)"
proof (induction ps arbitrary: m)
  case (Cons p ps)
  obtain r i where p: "p = (r, i)" by (cases p)
  have "only_in {pa} m (write64 (pa + 8 * i) (x r) m)" using Cons.prems p by (intro only_in_write64) simp
  moreover have "only_in {pa} (write64 (pa + 8 * i) (x r) m) (save_regs x pa ps (write64 (pa + 8 * i) (x r) m))"
    using Cons p by simp
  ultimately show ?case by (simp add: save_regs_def p only_in_trans)
qed (simp add: save_regs_def)

lemma exec_saves:
  assumes "frame_at (a_mem s) (a_csr s Satp) (xr s b) pa" and "small_offs ps"
  shows "exec_block (map (\<lambda>(r, i). SD r (8 * i) b) ps) s = Some (s\<lparr>a_mem := save_regs (xr s) pa ps (a_mem s)\<rparr>)"
  using assms
proof (induction ps arbitrary: s)
  case (Cons p ps)
  obtain r i where p: "p = (r, i)" by (cases p)
  let ?t = "s\<lparr>a_mem := write64 (pa + 8 * i) (xr s r) (a_mem s)\<rparr>"
  have i: "i < 512" using Cons.prems(2) p by simp
  have "frame_at (a_mem ?t) (a_csr ?t Satp) (xr ?t b) pa"
    using frame_only_in [OF Cons.prems(1) only_in_write64 [OF i]] by simp
  from Cons.IH [OF this] show ?case
    using Cons.prems(2) frame_translate(2) [OF Cons.prems(1) i] by (simp add: p save_regs_def)
qed (simp add: save_regs_def)

lemma exec_loads:
  assumes "frame_at (a_mem s) (a_csr s Satp) (xr s b) pa" and "small_offs ps" and "b \<notin> fst ` set ps"
  shows "exec_block (map (\<lambda>(r, i). LD r (8 * i) b) ps) s = Some (s\<lparr>xr := load_regs (a_mem s) pa ps (xr s)\<rparr>)"
  using assms
proof (induction ps arbitrary: s)
  case (Cons p ps)
  obtain r i where p: "p = (r, i)" by (cases p)
  let ?t = "s\<lparr>xr := (xr s)(r := read64 (a_mem s) (pa + 8 * i))\<rparr>"
  have i: "i < 512" using Cons.prems(2) p by simp
  have "frame_at (a_mem ?t) (a_csr ?t Satp) (xr ?t b) pa"
    using Cons.prems(1,3) p by auto
  from Cons.IH [OF this] show ?case
    using Cons.prems(2,3) frame_translate(1) [OF Cons.prems(1) i] by (auto simp: p load_regs_def fun_upd_def)
qed (simp add: load_regs_def)

lemma read_save_other:
  "small_offs ps \<Longrightarrow> j < 512 \<Longrightarrow> j \<notin> snd ` set ps \<Longrightarrow>
   read64 (save_regs x pa ps m) (pa + 8 * j) = read64 m (pa + 8 * j)"
  by (induction ps arbitrary: m) (auto simp: save_regs_def read64_other_entry)

lemma read_save:
  "small_offs ps \<Longrightarrow> distinct (map snd ps) \<Longrightarrow> (r, i) \<in> set ps \<Longrightarrow>
   read64 (save_regs x pa ps m) (pa + 8 * i) = x r"
proof (induction ps arbitrary: m)
  case (Cons p ps)
  have c: "save_regs x pa (p # ps) m = save_regs x pa ps (case p of (r, i) \<Rightarrow> write64 (pa + 8 * i) (x r) m)"
    by (simp add: save_regs_def split: prod.splits)
  show ?case
  proof (cases "p = (r, i)")
    case True
    then have "i \<notin> snd ` set ps" and "i < 512" and "small_offs ps" using Cons.prems by auto
    then show ?thesis using c by (simp add: True read_save_other)
  next
    case False
    then show ?thesis using Cons by (auto simp: c)
  qed
qed simp

lemma load_regs_in:
  "distinct (map fst ps) \<Longrightarrow> (r, i) \<in> set ps \<Longrightarrow> load_regs m pa ps x r = read64 m (pa + 8 * i)"
proof (induction ps arbitrary: x)
  case (Cons p ps)
  have o: "load_regs m pa ps y r = y r" if "r \<notin> fst ` set ps" for y
    using that by (induction ps arbitrary: y) (auto simp: load_regs_def)
  show ?case
    using Cons o by (cases "p = (r, i)") (auto simp: load_regs_def image_iff)
qed simp

section \<open>Traps from user space\<close>

text \<open>The field of the trap frame for each register, and the registers in the order of the code.\<close>

fun tf_of :: "xreg \<Rightarrow> tfreg" where
  "tf_of Ra = TFra" | "tf_of Sp = TFsp" | "tf_of Gp = TFgp" | "tf_of Tp = TFtp"
| "tf_of T0 = TFt0" | "tf_of T1 = TFt1" | "tf_of T2 = TFt2" | "tf_of S0 = TFs0" | "tf_of S1 = TFs1"
| "tf_of A0 = TFa0" | "tf_of A1 = TFa1" | "tf_of A2 = TFa2" | "tf_of A3 = TFa3" | "tf_of A4 = TFa4"
| "tf_of A5 = TFa5" | "tf_of A6 = TFa6" | "tf_of A7 = TFa7" | "tf_of S2 = TFs2" | "tf_of S3 = TFs3"
| "tf_of S4 = TFs4" | "tf_of S5 = TFs5" | "tf_of S6 = TFs6" | "tf_of S7 = TFs7" | "tf_of S8 = TFs8"
| "tf_of S9 = TFs9" | "tf_of S10 = TFs10" | "tf_of S11 = TFs11" | "tf_of T3 = TFt3" | "tf_of T4 = TFt4"
| "tf_of T5 = TFt5" | "tf_of T6 = TFt6"

definition user_slots :: "(xreg \<times> u64) list" where
  "user_slots =
    [(Ra, 5), (Sp, 6), (Gp, 7), (Tp, 8), (T0, 9), (T1, 10), (T2, 11), (S0, 12), (S1, 13),
     (A1, 15), (A2, 16), (A3, 17), (A4, 18), (A5, 19), (A6, 20), (A7, 21), (S2, 22), (S3, 23),
     (S4, 24), (S5, 25), (S6, 26), (S7, 27), (S8, 28), (S9, 29), (S10, 30), (S11, 31),
     (T3, 32), (T4, 33), (T5, 34), (T6, 35)]"

lemma user_slots_code:
  "uservec_save = map (\<lambda>(r, i). SD r (8 * i) A0) user_slots"
  "userret_load = map (\<lambda>(r, i). LD r (8 * i) A0) user_slots"
  by (simp_all add: uservec_save_def userret_load_def user_slots_def)

lemma user_slots_ok:
  "small_offs user_slots" "distinct (map fst user_slots)" "distinct (map snd user_slots)"
  "A0 \<notin> fst ` set user_slots" "14 \<notin> snd ` set user_slots"
  "{0, 1, 2, 3, 4} \<inter> snd ` set user_slots = {}"
  by (simp_all add: user_slots_def)

lemma user_slots_tf: "r \<noteq> A0 \<Longrightarrow> (r, tf_off (tf_of r) div 8) \<in> set user_slots \<and> tf_off (tf_of r) = 8 * (tf_off (tf_of r) div 8)"
  by (cases r) (simp_all add: user_slots_def)

text \<open>Entering the kernel: the registers are in the trap frame, and the kernel's are set up from it.\<close>

lemma uservec_ok:
  assumes "frame_at (a_mem s) (a_csr s Satp) TRAPFRAME tf"
  shows "\<exists>t. exec_block uservec s = Some t \<and>
    a_mem t = write64 (tf + 8 * 14) (xr s A0) (save_regs ((xr s)(A0 := TRAPFRAME)) tf user_slots (a_mem s)) \<and>
    xr t Sp = read64 (a_mem s) (tf + 8 * 1) \<and> xr t Tp = read64 (a_mem s) (tf + 8 * 4) \<and>
    a_pc t = read64 (a_mem s) (tf + 8 * 2) \<and> a_csr t Satp = read64 (a_mem s) (tf + 8 * 0)"
proof -
  let ?s = "s\<lparr>a_csr := (a_csr s)(Sscratch := xr s A0), xr := (xr s)(A0 := TRAPFRAME)\<rparr>"
  let ?m = "save_regs (xr ?s) tf user_slots (a_mem s)"
  let ?m' = "write64 (tf + 8 * 14) (xr s A0) ?m"
  have f: "frame_at (a_mem ?s) (a_csr ?s Satp) (xr ?s A0) tf" using assms by simp
  have fm: "frame_at ?m (a_csr s Satp) TRAPFRAME tf"
    by (rule frame_only_in [OF assms save_regs_only_in [OF user_slots_ok(1)]])
  have fm': "frame_at ?m' (a_csr s Satp) TRAPFRAME tf"
    by (rule frame_only_in [OF fm only_in_write64]) simp
  have old: "read64 ?m' (tf + 8 * j) = read64 (a_mem s) (tf + 8 * j)" if "j \<in> {0, 1, 2, 4}" for j
  proof -
    have "j < 512" "j \<noteq> 14" "j \<notin> snd ` set user_slots" using that user_slots_ok(6) by auto
    then show ?thesis using read64_other_entry [of 14 j tf] read_save_other [OF user_slots_ok(1)] by simp
  qed
  have "exec_block uservec s = exec_block uservec_enter (?s\<lparr>a_mem := ?m\<rparr>)"
    using exec_saves [OF f user_slots_ok(1)] by (simp add: uservec_def exec_block_append user_slots_code)
  moreover have "translate ?m (a_csr s Satp) PTE_W (TRAPFRAME + 112) = Some (tf + 8 * 14)"
    "translate ?m' (a_csr s Satp) PTE_R (TRAPFRAME + 8) = Some (tf + 8 * 1)"
    "translate ?m' (a_csr s Satp) PTE_R (TRAPFRAME + 32) = Some (tf + 8 * 4)"
    "translate ?m' (a_csr s Satp) PTE_R (TRAPFRAME + 16) = Some (tf + 8 * 2)"
    "translate ?m' (a_csr s Satp) PTE_R (TRAPFRAME + 0) = Some (tf + 8 * 0)"
    using frame_translate(2) [OF fm, of 14] frame_translate(1) [OF fm', of 1] frame_translate(1) [OF fm', of 4]
      frame_translate(1) [OF fm', of 2] frame_translate(1) [OF fm', of 0] by simp_all
  ultimately show ?thesis
    using old [of 0] old [of 1] old [of 2] old [of 4] by (simp add: uservec_enter_def)
qed

text \<open>Leaving it: every register comes from its field of the trap frame.\<close>

lemma userret_ok:
  assumes "frame_at (a_mem u) (xr u A0) TRAPFRAME tf"
  shows "\<exists>v. exec_block userret u = Some v \<and> a_csr v Satp = xr u A0 \<and> a_mem v = a_mem u \<and> a_pc v = a_sepc u \<and>
    (\<forall>r. xr v r = read64 (a_mem u) (tf + tf_off (tf_of r)))"
proof -
  let ?u = "u\<lparr>a_csr := (a_csr u)(Satp := xr u A0), xr := (xr u)(A0 := TRAPFRAME)\<rparr>"
  let ?x = "load_regs (a_mem u) tf user_slots (xr ?u)"
  have f: "frame_at (a_mem ?u) (a_csr ?u Satp) (xr ?u A0) tf" using assms by simp
  have a0: "load_regs m pa ps y A0 = y A0" if "A0 \<notin> fst ` set ps" for m pa ps y
    using that by (induction ps arbitrary: y) (auto simp: load_regs_def)
  have "exec_block userret u = exec_block [LD A0 112 A0, SRET] (?u\<lparr>xr := ?x\<rparr>)"
    using exec_loads [OF f user_slots_ok(1,4)] by (simp add: userret_def exec_block_append user_slots_code)
  moreover have "translate (a_mem u) (xr u A0) PTE_R (TRAPFRAME + 112) = Some (tf + 112)"
    using frame_translate(1) [OF assms, of 14] by simp
  moreover have "?x r = read64 (a_mem u) (tf + tf_off (tf_of r))" if "r \<noteq> A0" for r
    using load_regs_in [OF user_slots_ok(2)] user_slots_tf [OF that] by metis
  ultimately show ?thesis
    using a0 [OF user_slots_ok(4)] by auto
qed

lemma read_saved:
  "read64 (write64 (tf + 8 * 14) (x A0) (save_regs (x(A0 := w)) tf user_slots m)) (tf + tf_off (tf_of r)) = x r"
proof (cases "r = A0")
  case True
  have "read64 (write64 (tf + 8 * 14) v m') (tf + 112) = v" for v m'
    using read64_write64 [of "tf + 8 * 14" v m'] by simp
  then show ?thesis using True by simp
next
  case False
  let ?i = "tf_off (tf_of r) div 8"
  have i: "(r, ?i) \<in> set user_slots" "tf_off (tf_of r) = 8 * ?i" using user_slots_tf [OF False] by auto
  then have "?i < 512" "?i \<noteq> 14" using user_slots_ok(1,5) by (auto simp: list_all_iff image_iff)
  then have "read64 (write64 (tf + 8 * 14) (x A0) (save_regs (x(A0 := w)) tf user_slots m)) (tf + 8 * ?i) =
      read64 (save_regs (x(A0 := w)) tf user_slots m) (tf + 8 * ?i)"
    by (intro read64_other_entry) auto
  also have "\<dots> = x r" using read_save [OF user_slots_ok(1,3) i(1)] False by simp
  finally show ?thesis using i(2) by metis
qed

text \<open>
  C7: A trap saves and restores the registers of a user process. When \<open>TRAPFRAME\<close> is mapped in the
  user page table to the process's trap frame \<open>tf\<close>, \<open>uservec\<close> runs without a page fault and stores
  each of the 31 registers in its field of \<open>struct trapframe\<close>, writing only that page. It enters
  \<open>kernel_trap\<close> with the kernel's stack, hart number and page table of the trap frame. Whatever
  happens in between, \<open>userret\<close> called with a page table that still maps the trap frame
  loads every register from its field and goes on at \<open>sepc\<close>, so a register whose field
  was not changed has the value it had before the trap.
\<close>

theorem trap_restores_registers:
  assumes "frame_at (a_mem s) (a_csr s Satp) TRAPFRAME tf"
  shows "\<exists>t. exec_block uservec s = Some t \<and> only_in {tf} (a_mem s) (a_mem t) \<and>
    (\<forall>r. read64 (a_mem t) (tf + tf_off (tf_of r)) = xr s r) \<and>
    xr t Sp = read64 (a_mem s) (tf + tf_off TFkernel_sp) \<and>
    xr t Tp = read64 (a_mem s) (tf + tf_off TFkernel_hartid) \<and>
    a_pc t = read64 (a_mem s) (tf + tf_off TFkernel_trap) \<and>
    a_csr t Satp = read64 (a_mem s) (tf + tf_off TFkernel_satp) \<and>
    (\<forall>u :: ast. frame_at (a_mem u) (xr u A0) TRAPFRAME tf \<longrightarrow>
       (\<exists>v. exec_block userret u = Some v \<and> a_csr v Satp = xr u A0 \<and> a_mem v = a_mem u \<and> a_pc v = a_sepc u \<and>
          (\<forall>r. xr v r = read64 (a_mem u) (tf + tf_off (tf_of r))) \<and>
          (\<forall>r. read64 (a_mem u) (tf + tf_off (tf_of r)) = read64 (a_mem t) (tf + tf_off (tf_of r)) \<longrightarrow>
             xr v r = xr s r)))"
proof -
  let ?m = "save_regs ((xr s)(A0 := TRAPFRAME)) tf user_slots (a_mem s)"
  obtain t where t: "exec_block uservec s = Some t" "a_mem t = write64 (tf + 8 * 14) (xr s A0) ?m"
    "xr t Sp = read64 (a_mem s) (tf + 8 * 1)" "xr t Tp = read64 (a_mem s) (tf + 8 * 4)"
    "a_pc t = read64 (a_mem s) (tf + 8 * 2)" "a_csr t Satp = read64 (a_mem s) (tf + 8 * 0)"
    using uservec_ok [OF assms] by blast
  have "only_in {tf} (a_mem s) (a_mem t)"
    unfolding t(2) by (rule only_in_trans [OF save_regs_only_in [OF user_slots_ok(1)] only_in_write64]) simp
  moreover have regs: "\<forall>r. read64 (a_mem t) (tf + tf_off (tf_of r)) = xr s r"
    unfolding t(2) using read_saved by blast
  ultimately show ?thesis
    using t(1,3-6) userret_ok [of _ tf] by (intro exI [of _ t]) (simp, metis)
qed

text \<open>A user page table with only the trap frame, at \<open>0x403000\<close>.\<close>

definition trap_example :: ast where
  "trap_example = \<lparr>xr = (\<lambda>r. if r = A7 then 11 else 5), a_csr = (\<lambda>_. MAKE_SATP 0x400000),
     a_mem = one_entry 255 511 510 (PA2PTE 0x403000 OR PTE_R OR PTE_W OR PTE_V) (\<lambda>_. 0),
     a_pc = 0, a_sepc = 0x1000\<rparr>"

lemma trap_example_frame: "frame_at (a_mem trap_example) (MAKE_SATP 0x400000) TRAPFRAME 0x403000"
proof -
  let ?t = "one_entry 255 511 510 (PA2PTE 0x403000 OR PTE_R OR PTE_W OR PTE_V) (\<lambda>_. 0)"
  have z: "page_same p (\<lambda>_. 0) (\<lambda>_. 0)" for p by (simp add: page_same_def)
  have px: "255 = PX 2 TRAPFRAME" "511 = PX 1 TRAPFRAME" "510 = PX 0 TRAPFRAME" by (simp_all add: PX_def)
  note tab = one_entry_table [OF z z z px, of "PA2PTE 0x403000 OR PTE_R OR PTE_W OR PTE_V"]
  have "satp_root (MAKE_SATP 0x400000) = 0x400000"
    by (simp add: satp_root_def MAKE_SATP_def)
  then show ?thesis
    using tab by (simp add: frame_at_def trap_example_def Let_def aligned_def has_def PA2PTE_def PTE2PA_def MAKE_SATP_def)
qed

theorem trap_restores_registers_witness:
  "\<exists>t v. exec_block uservec trap_example = Some t \<and> read64 (a_mem t) (0x403000 + tf_off TFa7) = 11 \<and>
     exec_block userret (trap_example\<lparr>xr := \<lambda>_. MAKE_SATP 0x400000, a_mem := a_mem t\<rparr>) = Some v \<and>
     xr v A7 = 11 \<and> xr v T6 = 5 \<and> a_pc v = 0x1000"
proof -
  have f: "frame_at (a_mem trap_example) (a_csr trap_example Satp) TRAPFRAME 0x403000"
    using trap_example_frame by (simp add: trap_example_def)
  obtain t where t: "exec_block uservec trap_example = Some t" "only_in {0x403000} (a_mem trap_example) (a_mem t)"
      "\<forall>r. read64 (a_mem t) (0x403000 + tf_off (tf_of r)) = xr trap_example r"
    and u: "\<forall>u :: ast. frame_at (a_mem u) (xr u A0) TRAPFRAME 0x403000 \<longrightarrow>
       (\<exists>v. exec_block userret u = Some v \<and> a_csr v Satp = xr u A0 \<and> a_mem v = a_mem u \<and> a_pc v = a_sepc u \<and>
          (\<forall>r. xr v r = read64 (a_mem u) (0x403000 + tf_off (tf_of r))))"
    using trap_restores_registers [OF f] by meson
  let ?u = "trap_example\<lparr>xr := \<lambda>_. MAKE_SATP 0x400000, a_mem := a_mem t\<rparr>"
  have "frame_at (a_mem ?u) (xr ?u A0) TRAPFRAME 0x403000"
    using frame_only_in [OF trap_example_frame t(2)] by simp
  with u obtain v where "exec_block userret ?u = Some v" "a_pc v = a_sepc ?u"
    "\<forall>r. xr v r = read64 (a_mem ?u) (0x403000 + tf_off (tf_of r))" by blast
  then show ?thesis
    using t(1) t(3) [rule_format, of A7] t(3) [rule_format, of T6] by (auto simp: trap_example_def)
qed

end
