(* ===== verification/Ulib.thy ===== *)
theory Ulib
  imports Console
begin

text \<open>
  User space: what a user program is to the rest of the system, and the user library of
  \<open>user/ulib.c\<close> and \<open>user/printf.c\<close>. A program is a tree of system calls. Each branch point is a call
  with one subtree for every answer the kernel may give, so that the kernel stays a parameter: \<open>urun\<close> runs a
  program against any function that answers calls.
\<close>

section \<open>User programs\<close>

text \<open>
  The calls of \<open>user/user.h\<close>. Buffers that the kernel reads are arguments; what it writes to user
  memory is part of the answer: the bytes of \<open>read\<close>, the descriptors of \<open>pipe\<close>, the \<open>struct stat\<close>
  of \<open>fstat\<close>.
\<close>

datatype ucall =
    SysFork
  | SysWait
  | SysPipe
  | SysRead int int
  | SysWrite int "u8 list"
  | SysClose int
  | SysKill int
  | SysExec "u8 list" "u8 list list"
  | SysOpen "u8 list" int
  | SysMknod "u8 list" int int
  | SysUnlink "u8 list"
  | SysFstat int
  | SysLink "u8 list" "u8 list"
  | SysMkdir "u8 list"
  | SysChdir "u8 list"
  | SysDup int
  | SysSbrk int int

record ureply =
  u_ret :: int
  u_bytes :: "u8 list"
  u_fds :: "int \<times> int"
  u_stat :: stat

text \<open>
  \<open>UExit\<close> is the call of \<open>exit\<close>, which does not return. \<open>UFault\<close> stands for behaviour that C does not
  define, \<open>UMore\<close> for a loop that has used up the rounds it was given.
\<close>

datatype 'a up =
    URet 'a
  | UExit int
  | UFault
  | UMore
  | USys ucall "ureply \<Rightarrow> 'a up"

primrec ubind :: "'a up \<Rightarrow> ('a \<Rightarrow> 'b up) \<Rightarrow> 'b up" where
  "ubind (URet a) f = f a"
| "ubind (UExit n) f = UExit n"
| "ubind UFault f = UFault"
| "ubind UMore f = UMore"
| "ubind (USys c k) f = USys c (\<lambda>r. ubind (k r) f)"

abbreviation uthen :: "unit up \<Rightarrow> 'b up \<Rightarrow> 'b up" where
  "uthen m n \<equiv> ubind m (\<lambda>_. n)"

definition uwhen :: "bool \<Rightarrow> unit up \<Rightarrow> unit up" where
  "uwhen b m = (if b then m else URet ())"

text \<open>A call whose only answer is its return value.\<close>

definition ucal :: "ucall \<Rightarrow> int up" where
  "ucal c = USys c (\<lambda>r. URet (u_ret r))"

text \<open>A call whose return value is not looked at.\<close>

definition udo :: "ucall \<Rightarrow> unit up" where
  "udo c = USys c (\<lambda>r. URet ())"

primrec ufor :: "'i list \<Rightarrow> ('i \<Rightarrow> unit up) \<Rightarrow> unit up" where
  "ufor [] body = URet ()"
| "ufor (i # is) body = uthen (body i) (ufor is body)"

text \<open>A loop whose body goes on with \<open>Inl\<close> and leaves with \<open>Inr\<close>, for a number of rounds.\<close>

primrec uloop :: "nat \<Rightarrow> ('i \<Rightarrow> ('i + 'r) up) \<Rightarrow> 'i \<Rightarrow> 'r up" where
  "uloop 0 body i = UMore"
| "uloop (Suc n) body i = ubind (body i) (\<lambda>x. case x of Inl j \<Rightarrow> uloop n body j | Inr r \<Rightarrow> URet r)"

text \<open>How a run ends.\<close>

datatype 'a uend = Ret 'a | Exit int | Fault | More

primrec urun :: "(ucall \<Rightarrow> 'e \<Rightarrow> ureply \<times> 'e) \<Rightarrow> 'a up \<Rightarrow> 'e \<Rightarrow> 'a uend \<times> 'e" where
  "urun h (URet a) e = (Ret a, e)"
| "urun h (UExit n) e = (Exit n, e)"
| "urun h UFault e = (Fault, e)"
| "urun h UMore e = (More, e)"
| "urun h (USys c k) e = (case h c e of (r, e') \<Rightarrow> urun h (k r) e')"

lemma urun_bind:
  "urun h (ubind m f) e = (case urun h m e of
     (Ret a, e') \<Rightarrow> urun h (f a) e' | (Exit n, e') \<Rightarrow> (Exit n, e')
   | (Fault, e') \<Rightarrow> (Fault, e') | (More, e') \<Rightarrow> (More, e'))"
  by (induction m arbitrary: e) (auto split: prod.splits)

section \<open>Strings\<close>

text \<open>
  A C string is the list of its bytes before the terminating null byte; a pointer into it is a suffix.
  \<open>ch\<close> reads the byte a pointer is at.
\<close>

definition ch :: "u8 list \<Rightarrow> u8" where
  "ch s = (case s of [] \<Rightarrow> 0 | c # _ \<Rightarrow> c)"

lemma ch_simps [simp]: "ch [] = 0" "ch (c # s) = c"
  by (simp_all add: ch_def)

fun ustrcmp :: "u8 list \<Rightarrow> u8 list \<Rightarrow> int" where
  "ustrcmp [] q = uint (0 :: u8) - uint (ch q)"
| "ustrcmp (c # p) q =
     (if c \<noteq> 0 \<and> c = ch q then ustrcmp p (tl q) else uint c - uint (ch q))"

primrec ustrlen :: "u8 list \<Rightarrow> nat" where
  "ustrlen [] = 0"
| "ustrlen (c # s) = (if c = 0 then 0 else Suc (ustrlen s))"

text \<open>The suffix at the first \<open>c\<close>; \<open>None\<close> is the null pointer.\<close>

primrec ustrchr :: "u8 list \<Rightarrow> u8 \<Rightarrow> u8 list option" where
  "ustrchr [] c = None"
| "ustrchr (d # s) c = (if d = 0 then None else if d = c then Some (d # s) else ustrchr s c)"

fun uatoi_from :: "u32 \<Rightarrow> u8 list \<Rightarrow> u32" where
  "uatoi_from n [] = n"
| "uatoi_from n (c # s) =
     (if 48 \<le> c \<and> c \<le> 57 then uatoi_from (n * 10 + ucast c - 48) s else n)"

definition uatoi :: "u8 list \<Rightarrow> int" where
  "uatoi s = sint (uatoi_from 0 s)"

fun umemcmp :: "u8 list \<Rightarrow> u8 list \<Rightarrow> int" where
  "umemcmp (a # p1) (b # p2) = (if a \<noteq> b then uint a - uint b else umemcmp p1 p2)"
| "umemcmp _ _ = 0"

text \<open>Copying into memory; a copy of a string without an end does not return.\<close>

partial_function (option) ustrcpy :: "u64 \<Rightarrow> u64 \<Rightarrow> pmem \<Rightarrow> pmem option" where
  "ustrcpy s t m =
     (let m' = m(s := m t) in if m t = 0 then Some m' else ustrcpy (s + 1) (t + 1) m')"

primrec umemset_from :: "nat \<Rightarrow> u64 \<Rightarrow> u8 \<Rightarrow> pmem \<Rightarrow> pmem" where
  "umemset_from 0 cdst c m = m"
| "umemset_from (Suc n) cdst c m = umemset_from n (cdst + 1) c (m(cdst := c))"

definition umemset :: "u64 \<Rightarrow> u32 \<Rightarrow> u32 \<Rightarrow> pmem \<Rightarrow> pmem" where
  "umemset dst c n m = umemset_from (unat n) dst (ucast c) m"

text \<open>The two loops of \<open>memmove\<close> are those of the kernel's \<open>memmove\<close>.\<close>

definition umemmove :: "u64 \<Rightarrow> u64 \<Rightarrow> u32 \<Rightarrow> pmem \<Rightarrow> pmem" where
  "umemmove vdst vsrc n m =
     (let k = nat (sint n)
      in if vdst < vsrc then copy_fwd k vdst vsrc m
         else copy_bwd k (vdst + scast n) (vsrc + scast n) m)"

definition umemcpy :: "u64 \<Rightarrow> u64 \<Rightarrow> u32 \<Rightarrow> pmem \<Rightarrow> pmem" where
  "umemcpy dst src n m = umemmove dst src n m"

section \<open>Calls through the library\<close>

definition ustart :: "(u8 list list \<Rightarrow> int up) \<Rightarrow> u8 list list \<Rightarrow> int up" where
  "ustart main argv = ubind (main argv) UExit"

text \<open>\<open>gets\<close> with a buffer of \<open>max\<close> bytes; the result is the string it leaves there.\<close>

definition ugets_body :: "u8 list \<Rightarrow> (u8 list + u8 list) up" where
  "ugets_body buf = USys (SysRead 0 1) (\<lambda>r.
     if u_ret r < 1 then URet (Inr buf)
     else
       (let c = hd (u_bytes r)
        in URet (if c = 10 \<or> c = 13 then Inr (buf @ [c]) else Inl (buf @ [c]))))"

definition ugets :: "int \<Rightarrow> u8 list up" where
  "ugets mx =
     uloop (Suc (nat mx))
       (\<lambda>buf. if int (length buf) + 1 < mx then ugets_body buf else URet (Inr buf)) []"

definition ustat :: "u8 list \<Rightarrow> (int \<times> stat option) up" where
  "ustat n =
     ubind (ucal (SysOpen n 0)) (\<lambda>fd.
       if fd < 0 then URet (- 1, None)
       else USys (SysFstat fd) (\<lambda>r.
         uthen (udo (SysClose fd)) (URet (u_ret r, Some (u_stat r)))))"

definition usbrk :: "int \<Rightarrow> int up" where
  "usbrk n = ucal (SysSbrk n 1)"

definition usbrklazy :: "int \<Rightarrow> int up" where
  "usbrklazy n = ucal (SysSbrk n 2)"

section \<open>Formatted output\<close>

definition uputc :: "int \<Rightarrow> u8 \<Rightarrow> unit up" where
  "uputc fd c = udo (SysWrite fd [c])"

definition udigit :: "nat \<Rightarrow> u8" where
  "udigit d = (if d < 10 then of_nat (48 + d) else of_nat (55 + d))"

text \<open>The digits of a number, the last one first, as they are in \<open>buf\<close>.\<close>

function udigits_rev :: "nat \<Rightarrow> nat \<Rightarrow> u8 list" where
  "udigits_rev base x =
     udigit (x mod base) # (if base < 2 \<or> x div base = 0 then [] else udigits_rev base (x div base))"
  by pat_completeness auto
termination
proof (relation "measure snd")
  show "((base, x div base), base, x) \<in> measure snd" if "\<not> (base < 2 \<or> x div base = 0)" for base x :: nat
    using that div_less_dividend [of base x] by (cases "x = 0") auto
qed simp

declare udigits_rev.simps [simp del]

definition uprintint :: "int \<Rightarrow> u64 \<Rightarrow> nat \<Rightarrow> bool \<Rightarrow> unit up" where
  "uprintint fd xx base sg =
     (let neg = sg \<and> sint xx < 0;
          x = (if neg then unat (- xx) else unat xx);
          buf = udigits_rev base x @ (if neg then [45] else [])
      in if 20 < length buf then UFault else ufor (rev buf) (uputc fd))"

definition uprintptr :: "int \<Rightarrow> u64 \<Rightarrow> unit up" where
  "uprintptr fd x =
     uthen (uputc fd 48)
    (uthen (uputc fd 0x78)
     (ufor (map (\<lambda>i. udigit (unat (drop_bit 60 (push_bit (4 * i) x)))) [0..<16]) (uputc fd)))"

text \<open>
  \<open>vprintf\<close>: \<open>uprintf_dir\<close> is one directive after a \<open>%\<close>, with what is left of the format and of the
  arguments. A directive without its argument is not defined.
\<close>

definition unum :: "parg list \<Rightarrow> (u64 \<Rightarrow> unit up) \<Rightarrow> (parg list \<Rightarrow> unit up) \<Rightarrow> unit up" where
  "unum args f k = (case args of Num v # as \<Rightarrow> uthen (f v) (k as) | _ \<Rightarrow> UFault)"

fun uvprintf :: "int \<Rightarrow> u8 list \<Rightarrow> parg list \<Rightarrow> unit up" where
  "uvprintf fd [] args = URet ()"
| "uvprintf fd (c # fmt) args =
     (if c \<noteq> 37 then uthen (uputc fd c) (uvprintf fd fmt args)
      else
        (case fmt of
           [] \<Rightarrow> URet ()
         | c0 # rest \<Rightarrow>
             (let c1 = ch rest; c2 = ch (tl rest)
              in if c0 = 0x64 then unum args (\<lambda>v. uprintint fd (scast (ucast v :: u32)) 10 True) (uvprintf fd rest)
                 else if c0 = 0x6c \<and> c1 = 0x64 then unum args (\<lambda>v. uprintint fd v 10 True) (uvprintf fd (tl rest))
                 else if c0 = 0x6c \<and> c1 = 0x6c \<and> c2 = 0x64 then
                   unum args (\<lambda>v. uprintint fd v 10 True) (uvprintf fd (tl (tl rest)))
                 else if c0 = 0x75 then unum args (\<lambda>v. uprintint fd (ucast (ucast v :: u32)) 10 False) (uvprintf fd rest)
                 else if c0 = 0x6c \<and> c1 = 0x75 then unum args (\<lambda>v. uprintint fd v 10 False) (uvprintf fd (tl rest))
                 else if c0 = 0x6c \<and> c1 = 0x6c \<and> c2 = 0x75 then
                   unum args (\<lambda>v. uprintint fd v 10 False) (uvprintf fd (tl (tl rest)))
                 else if c0 = 0x78 then unum args (\<lambda>v. uprintint fd (ucast (ucast v :: u32)) 16 False) (uvprintf fd rest)
                 else if c0 = 0x6c \<and> c1 = 0x78 then unum args (\<lambda>v. uprintint fd v 16 False) (uvprintf fd (tl rest))
                 else if c0 = 0x6c \<and> c1 = 0x6c \<and> c2 = 0x78 then
                   unum args (\<lambda>v. uprintint fd v 16 False) (uvprintf fd (tl (tl rest)))
                 else if c0 = 0x70 then unum args (uprintptr fd) (uvprintf fd rest)
                 else if c0 = 0x63 then unum args (\<lambda>v. uputc fd (ucast v)) (uvprintf fd rest)
                 else if c0 = 0x73 then
                   (case args of
                      Str None # as \<Rightarrow> uthen (ufor (bytes_of ''(null)'') (uputc fd)) (uvprintf fd rest as)
                    | Str (Some cs) # as \<Rightarrow> uthen (ufor cs (uputc fd)) (uvprintf fd rest as)
                    | _ \<Rightarrow> UFault)
                 else if c0 = 37 then uthen (uputc fd 37) (uvprintf fd rest args)
                 else uthen (uputc fd 37) (uthen (uputc fd c0) (uvprintf fd rest args)))))"

definition ufprintf :: "int \<Rightarrow> string \<Rightarrow> parg list \<Rightarrow> unit up" where
  "ufprintf fd fmt args = uvprintf fd (bytes_of fmt) args"

definition uprintf :: "string \<Rightarrow> parg list \<Rightarrow> unit up" where
  "uprintf fmt args = uvprintf 1 (bytes_of fmt) args"

section \<open>A kernel for one file\<close>

text \<open>
  For programs that read a file and write output: a kernel that hands out the file in
  pieces of any size between one byte and what was asked for, decided by the function \<open>io_cut\<close>, and
  takes everything that is written.
\<close>

record uio =
  io_in :: "u8 list"
  io_cut :: "nat \<Rightarrow> nat"
  io_reads :: nat
  io_out :: "u8 list"
  io_err :: "u8 list"

definition reply :: "int \<Rightarrow> u8 list \<Rightarrow> ureply" where
  "reply n bs = \<lparr>u_ret = n, u_bytes = bs, u_fds = (0, 0),
     u_stat = \<lparr>st_dev = 0, st_ino = 0, st_type = 0, st_nlink = 0, st_size = 0\<rparr>\<rparr>"

lemma reply_sel [simp]: "u_ret (reply n bs) = n" "u_bytes (reply n bs) = bs"
  by (simp_all add: reply_def)

definition piece :: "int \<Rightarrow> uio \<Rightarrow> u8 list" where
  "piece n e = take (max 1 (io_cut e (io_reads e))) (take (nat n) (io_in e))"

fun one_file :: "ucall \<Rightarrow> uio \<Rightarrow> ureply \<times> uio" where
  "one_file (SysRead fd n) e =
     (reply (int (length (piece n e))) (piece n e),
      e\<lparr>io_in := drop (length (piece n e)) (io_in e), io_reads := io_reads e + 1\<rparr>)"
| "one_file (SysWrite fd bs) e =
     (reply (int (length bs)) [],
      if fd = 1 then e\<lparr>io_out := io_out e @ bs\<rparr> else e\<lparr>io_err := io_err e @ bs\<rparr>)"
| "one_file c e = (reply 0 [], e)"

lemma piece_prefix: "piece n e @ drop (length (piece n e)) (io_in e) = io_in e"
proof -
  have "piece n e = take (length (piece n e)) (io_in e)"
    by (simp add: piece_def min_def)
  then show ?thesis by (metis append_take_drop_id)
qed

lemma piece_nonempty: "0 < n \<Longrightarrow> piece n e = [] \<longleftrightarrow> io_in e = []"
  by (auto simp: piece_def)

lemma piece_le: "0 \<le> n \<Longrightarrow> int (length (piece n e)) \<le> n"
  by (simp add: piece_def)

lemmas u_simps = ucal_def udo_def urun_bind

end
