(* ===== verification/Uprogs.thy ===== *)
theory Uprogs
  imports Ulib
begin

text \<open>
  The small user programs: \<open>user/cat.c\<close>, \<open>user/wc.c\<close>, \<open>user/echo.c\<close>, \<open>user/ls.c\<close>, \<open>user/ln.c\<close>,
  \<open>user/kill.c\<close>, \<open>user/mkdir.c\<close>, \<open>user/rm.c\<close> and \<open>user/init.c\<close>. The theory shows that \<open>cat\<close> copies its
  input and that \<open>wc\<close> counts the same however the input is split into reads.
\<close>

section \<open>cat\<close>

definition cat_body :: "int \<Rightarrow> unit \<Rightarrow> (unit + int) up" where
  "cat_body fd u =
     USys (SysRead fd 512) (\<lambda>r.
       if u_ret r \<le> 0 then URet (Inr (u_ret r))
       else
         ubind (ucal (SysWrite 1 (take (nat (u_ret r)) (u_bytes r)))) (\<lambda>w.
           if w \<noteq> u_ret r then uthen (ufprintf 2 (''cat: write error'' @ [CHR 10]) []) (UExit 1)
           else URet (Inl ())))"

definition cat :: "nat \<Rightarrow> int \<Rightarrow> unit up" where
  "cat rds fd =
     ubind (uloop rds (cat_body fd) ()) (\<lambda>n.
       uwhen (n < 0) (uthen (ufprintf 2 (''cat: read error'' @ [CHR 10]) []) (UExit 1)))"

text \<open>The \<open>main\<close> functions of \<open>cat\<close>, \<open>wc\<close> and \<open>grep\<close> open their arguments in turn.\<close>

definition for_files :: "u8 list list \<Rightarrow> (u8 list \<Rightarrow> unit up) \<Rightarrow> (int \<Rightarrow> u8 list \<Rightarrow> unit up) \<Rightarrow> int up" where
  "for_files names fail f =
     uthen (ufor names (\<lambda>name.
       ubind (ucal (SysOpen name 0)) (\<lambda>fd.
         if fd < 0 then uthen (fail name) (UExit 1)
         else uthen (f fd name) (udo (SysClose fd)))))
     (UExit 0)"

definition cat_main :: "nat \<Rightarrow> u8 list list \<Rightarrow> int up" where
  "cat_main rds argv =
     (if length argv \<le> 1 then uthen (cat rds 0) (UExit 0)
      else for_files (tl argv) (\<lambda>name. ufprintf 2 (''cat: cannot open %s'' @ [CHR 10]) [Str (Some name)])
        (\<lambda>fd _. cat rds fd))"

section \<open>wc\<close>

record wcst =
  wc_l :: nat
  wc_w :: nat
  wc_c :: nat
  wc_inword :: bool

definition wc_step :: "u8 \<Rightarrow> wcst \<Rightarrow> wcst" where
  "wc_step b s =
     (let s1 = s\<lparr>wc_c := wc_c s + 1, wc_l := (if b = 10 then wc_l s + 1 else wc_l s)\<rparr>
      in if ustrchr [32, 13, 9, 10, 11] b \<noteq> None then s1\<lparr>wc_inword := False\<rparr>
         else if \<not> wc_inword s1 then s1\<lparr>wc_w := wc_w s1 + 1, wc_inword := True\<rparr>
         else s1)"

definition wc_body :: "int \<Rightarrow> wcst \<Rightarrow> (wcst + int \<times> wcst) up" where
  "wc_body fd s =
     USys (SysRead fd 512) (\<lambda>r.
       if u_ret r \<le> 0 then URet (Inr (u_ret r, s))
       else URet (Inl (fold wc_step (take (nat (u_ret r)) (u_bytes r)) s)))"

definition wc_zero :: wcst where
  "wc_zero = \<lparr>wc_l = 0, wc_w = 0, wc_c = 0, wc_inword = False\<rparr>"

definition wc_print :: "wcst \<Rightarrow> u8 list \<Rightarrow> unit up" where
  "wc_print s name = uprintf (''%d %d %d %s'' @ [CHR 10])
     [Num (of_nat (wc_l s)), Num (of_nat (wc_w s)), Num (of_nat (wc_c s)), Str (Some name)]"

definition wc :: "nat \<Rightarrow> int \<Rightarrow> u8 list \<Rightarrow> unit up" where
  "wc rds fd name =
     ubind (uloop rds (wc_body fd) wc_zero) (\<lambda>(n, s).
       if n < 0 then uthen (uprintf (''wc: read error'' @ [CHR 10]) []) (UExit 1)
       else wc_print s name)"

definition wc_main :: "nat \<Rightarrow> u8 list list \<Rightarrow> int up" where
  "wc_main rds argv =
     (if length argv \<le> 1 then uthen (wc rds 0 []) (UExit 0)
      else for_files (tl argv) (\<lambda>name. uprintf (''wc: cannot open %s'' @ [CHR 10]) [Str (Some name)]) (wc rds))"

section \<open>Programs without loops over input\<close>

primrec echo_args :: "u8 list list \<Rightarrow> unit up" where
  "echo_args [] = URet ()"
| "echo_args (a # as) =
     uthen (udo (SysWrite 1 (take (ustrlen a) a)))
    (uthen (udo (SysWrite 1 (if as \<noteq> [] then [32] else [10])))
     (echo_args as))"

definition echo_main :: "u8 list list \<Rightarrow> int up" where
  "echo_main argv = uthen (echo_args (tl argv)) (UExit 0)"

definition ln_main :: "u8 list list \<Rightarrow> int up" where
  "ln_main argv =
     (if length argv \<noteq> 3 then uthen (ufprintf 2 (''Usage: ln old new'' @ [CHR 10]) []) (UExit 1)
      else
        ubind (ucal (SysLink (argv ! 1) (argv ! 2))) (\<lambda>r.
        uthen (uwhen (r < 0)
          (ufprintf 2 (''link %s %s: failed'' @ [CHR 10]) [Str (Some (argv ! 1)), Str (Some (argv ! 2))]))
        (UExit 0)))"

definition kill_main :: "u8 list list \<Rightarrow> int up" where
  "kill_main argv =
     (if length argv < 2 then uthen (ufprintf 2 (''usage: kill pid...'' @ [CHR 10]) []) (UExit 1)
      else uthen (ufor (tl argv) (\<lambda>a. udo (SysKill (uatoi a)))) (UExit 0))"

text \<open>The loop of \<open>mkdir\<close> and of \<open>rm\<close>: it stops at the first argument that fails.\<close>

primrec until_fail :: "(u8 list \<Rightarrow> ucall) \<Rightarrow> string \<Rightarrow> u8 list list \<Rightarrow> unit up" where
  "until_fail call msg [] = URet ()"
| "until_fail call msg (a # as) =
     ubind (ucal (call a)) (\<lambda>r.
       if r < 0 then ufprintf 2 msg [Str (Some a)] else until_fail call msg as)"

definition mkdir_main :: "u8 list list \<Rightarrow> int up" where
  "mkdir_main argv =
     (if length argv < 2 then uthen (ufprintf 2 (''Usage: mkdir files...'' @ [CHR 10]) []) (UExit 1)
      else uthen (until_fail SysMkdir (''mkdir: %s failed to create'' @ [CHR 10]) (tl argv)) (UExit 0))"

definition rm_main :: "u8 list list \<Rightarrow> int up" where
  "rm_main argv =
     (if length argv < 2 then uthen (ufprintf 2 (''Usage: rm files...'' @ [CHR 10]) []) (UExit 1)
      else uthen (until_fail SysUnlink (''rm: %s failed to delete'' @ [CHR 10]) (tl argv)) (UExit 0))"

section \<open>ls\<close>

text \<open>The name after the last slash, padded with blanks to 14 characters.\<close>

definition fmtname :: "u8 list \<Rightarrow> u8 list" where
  "fmtname path =
     (let p = rev (takeWhile (\<lambda>c. c \<noteq> 47) (rev path))
      in if 14 \<le> length p then p else p @ replicate (14 - length p) 32)"

definition ls_print :: "u8 list \<Rightarrow> stat \<Rightarrow> unit up" where
  "ls_print path st = uprintf (''%s %d %d %d'' @ [CHR 10])
     [Str (Some (fmtname path)), Num (scast (st_type st)), Num (ucast (st_ino st)), Num (st_size st)]"

text \<open>One directory entry: an inode number of two bytes and a name of 14.\<close>

definition ls_entry :: "u8 list \<Rightarrow> int \<Rightarrow> unit \<Rightarrow> (unit + unit) up" where
  "ls_entry path fd u =
     USys (SysRead fd 16) (\<lambda>r.
       if u_ret r \<noteq> 16 then URet (Inr ())
       else
         (let de = take 16 (u_bytes r)
          in if take 2 de = [0, 0] then URet (Inl ())
             else
               (let buf = path @ [47] @ takeWhile (\<lambda>c. c \<noteq> 0) (drop 2 de)
                in ubind (ustat buf) (\<lambda>(n, st).
                     if n < 0 then
                       uthen (uprintf (''ls: cannot stat %s'' @ [CHR 10]) [Str (Some buf)]) (URet (Inl ()))
                     else
                       (case st of None \<Rightarrow> UFault | Some st \<Rightarrow> uthen (ls_print buf st) (URet (Inl ())))))))"

definition ls :: "nat \<Rightarrow> u8 list \<Rightarrow> unit up" where
  "ls rds path =
     ubind (ucal (SysOpen path 0)) (\<lambda>fd.
       if fd < 0 then ufprintf 2 (''ls: cannot open %s'' @ [CHR 10]) [Str (Some path)]
       else USys (SysFstat fd) (\<lambda>r.
         if u_ret r < 0 then
           uthen (ufprintf 2 (''ls: cannot stat %s'' @ [CHR 10]) [Str (Some path)]) (udo (SysClose fd))
         else
           (let st = u_stat r
            in uthen
                 (if st_type st = 3 \<or> st_type st = 2 then ls_print path st
                  else if st_type st = 1 then
                    (if 512 < length path + 1 + 14 + 1 then uprintf (''ls: path too long'' @ [CHR 10]) []
                     else uloop rds (ls_entry path fd) ())
                  else URet ())
                 (udo (SysClose fd)))))"

definition ls_main :: "nat \<Rightarrow> u8 list list \<Rightarrow> int up" where
  "ls_main rds argv =
     (if length argv < 2 then uthen (ls rds (bytes_of ''.'')) (UExit 0)
      else uthen (ufor (tl argv) (ls rds)) (UExit 0))"

section \<open>init\<close>

definition init_wait :: "int \<Rightarrow> unit \<Rightarrow> (unit + unit) up" where
  "init_wait pid u =
     ubind (ucal SysWait) (\<lambda>wpid.
       if wpid = pid then URet (Inr ())
       else if wpid < 0 then uthen (uprintf (''init: wait returned an error'' @ [CHR 10]) []) (UExit 1)
       else URet (Inl ()))"

definition init_body :: "nat \<Rightarrow> unit \<Rightarrow> (unit + unit) up" where
  "init_body rds u =
     uthen (uprintf (''init: starting sh'' @ [CHR 10]) [])
    (ubind (ucal SysFork) (\<lambda>pid.
       if pid < 0 then uthen (uprintf (''init: fork failed'' @ [CHR 10]) []) (UExit 1)
       else if pid = 0 then
         uthen (udo (SysExec (bytes_of ''sh'') [bytes_of ''sh'']))
        (uthen (uprintf (''init: exec sh failed'' @ [CHR 10]) []) (UExit 1))
       else uthen (uloop rds (init_wait pid) ()) (URet (Inl ()))))"

text \<open>The endless loop of \<open>init\<close>, for a number of shells and of children to wait for.\<close>

definition init_main :: "nat \<Rightarrow> nat \<Rightarrow> unit up" where
  "init_main shells rds =
     uthen (uprintf (''init: starting sh'' @ [CHR 10]) [])
    (ubind (ucal (SysOpen (bytes_of ''console'') 2)) (\<lambda>fd.
     uthen (uwhen (fd < 0)
       (uthen (udo (SysMknod (bytes_of ''console'') 1 0)) (udo (SysOpen (bytes_of ''console'') 2))))
    (uthen (udo (SysDup 0))
    (uthen (udo (SysDup 0))
     (uloop shells (init_body rds) ())))))"

section \<open>Copying and counting\<close>

lemma cat_loop:
  "length (io_in e) < n \<Longrightarrow> \<exists>e'. urun one_file (uloop n (cat_body fd) ()) e = (Ret 0, e') \<and>
     io_out e' = io_out e @ io_in e \<and> io_err e' = io_err e"
proof (induction n arbitrary: e)
  case (Suc n)
  let ?p = "piece 512 e"
  let ?e = "e\<lparr>io_in := drop (length ?p) (io_in e), io_reads := io_reads e + 1, io_out := io_out e @ ?p\<rparr>"
  have pre: "?p @ io_in ?e = io_in e" using piece_prefix [of 512 e] by simp
  show ?case
  proof (cases "?p = []")
    case True
    then have "io_in e = []" using piece_nonempty [of 512 e] by simp
    then show ?thesis using True by (simp add: cat_body_def)
  next
    case False
    then have "length (io_in ?e) < n" using Suc.prems arg_cong [OF pre, of length] by (cases ?p) auto
    from Suc.IH [OF this] pre False show ?thesis
      by (auto simp: cat_body_def ucal_def)
  qed
qed simp

lemma wc_loop:
  "length (io_in e) < n \<Longrightarrow> \<exists>e'. urun one_file (uloop n (wc_body fd) s) e = (Ret (0, fold wc_step (io_in e) s), e') \<and>
     io_out e' = io_out e"
proof (induction n arbitrary: e s)
  case (Suc n)
  let ?p = "piece 512 e"
  let ?e = "e\<lparr>io_in := drop (length ?p) (io_in e), io_reads := io_reads e + 1\<rparr>"
  have pre: "?p @ io_in ?e = io_in e" using piece_prefix [of 512 e] by simp
  show ?case
  proof (cases "?p = []")
    case True
    then have "io_in e = []" using piece_nonempty [of 512 e] by simp
    then show ?thesis using True by (simp add: wc_body_def)
  next
    case False
    then have "length (io_in ?e) < n" using Suc.prems arg_cong [OF pre, of length] by (cases ?p) auto
    from Suc.IH [OF this, of "fold wc_step ?p s"] arg_cong [OF pre, of "\<lambda>x. fold wc_step x s"] False
    show ?thesis by (auto simp: wc_body_def)
  qed
qed simp

lemma wc_counts: "wc_c (fold wc_step bs s) = wc_c s + length bs" "wc_l (fold wc_step bs s) = wc_l s + count_list bs 10"
  by (induction bs arbitrary: s) (auto simp: wc_step_def Let_def)

end
