(* ===== verification/Grep.thy ===== *)
theory Grep
  imports Ulib
begin

text \<open>
  \<open>user/grep.c\<close>: the regular-expression matcher and the loop that reads a file into a buffer of 1024
  bytes and prints the lines that match. The theory shows that the matcher decides a declarative
  semantics of the patterns, and that \<open>grep\<close> prints exactly the matching lines however the kernel
  splits the file into reads.
\<close>

section \<open>The matcher\<close>

lemma ch_nonzero: "ch s \<noteq> 0 \<Longrightarrow> \<exists>c t. s = c # t \<and> c \<noteq> 0"
  by (cases s) auto

function matchhere :: "u8 list \<Rightarrow> u8 list \<Rightarrow> bool" and matchstar :: "u8 \<Rightarrow> u8 list \<Rightarrow> u8 list \<Rightarrow> bool" where
  "matchhere re text =
     (if ch re = 0 then True
      else if ch (tl re) = 42 then matchstar (ch re) (tl (tl re)) text
      else if ch re = 36 \<and> ch (tl re) = 0 then ch text = 0
      else if ch text \<noteq> 0 \<and> (ch re = 46 \<or> ch re = ch text) then matchhere (tl re) (tl text)
      else False)"
| "matchstar c re text =
     (if matchhere re text then True
      else if ch text \<noteq> 0 \<and> (ch text = c \<or> c = 46) then matchstar c re (tl text)
      else False)"
  by pat_completeness auto
termination
proof (relation "measure (case_sum (\<lambda>(re, text). 2 * length re + length text)
    (\<lambda>(c, re, text). 2 * length re + length text + 1))")
qed (auto dest!: ch_nonzero)

declare matchhere.simps [simp del] matchstar.simps [simp del]

fun match_from :: "u8 list \<Rightarrow> u8 list \<Rightarrow> bool" where
  "match_from re [] = matchhere re []"
| "match_from re (c # text) = (if matchhere re (c # text) then True else c \<noteq> 0 \<and> match_from re text)"

definition gmatch :: "u8 list \<Rightarrow> u8 list \<Rightarrow> bool" where
  "gmatch re text = (if ch re = 94 then matchhere (tl re) text else match_from re text)"

section \<open>The program\<close>

text \<open>
  The inner loop: \<open>p\<close> is the rest of the buffer. Each line that \<open>strchr\<close> finds is written when it
  matches; what is left over has no newline.
\<close>

lemma ustrchr_Some:
  "ustrchr s c = Some q \<Longrightarrow> \<exists>u v. s = u @ c # v \<and> q = c # v \<and> c \<notin> set u \<and> 0 \<notin> set u"
proof (induction s)
  case (Cons d s)
  show ?case
  proof (cases "d = c")
    case True
    then show ?thesis using Cons.prems by (intro exI [of _ "[]"] exI [of _ s]) (auto split: if_splits)
  next
    case False
    then obtain u v where "s = u @ c # v" "q = c # v" "c \<notin> set u" "0 \<notin> set u" "d \<noteq> 0"
      using Cons by (auto split: if_splits)
    then show ?thesis using False by (intro exI [of _ "d # u"] exI [of _ v]) auto
  qed
qed simp

function grep_lines :: "u8 list \<Rightarrow> u8 list \<Rightarrow> u8 list up" where
  "grep_lines pattern p =
     (case ustrchr p 10 of
        None \<Rightarrow> URet p
      | Some q \<Rightarrow>
          (let line = take (length p - length q) p
           in uthen (uwhen (gmatch pattern line) (udo (SysWrite 1 (line @ [10]))))
              (grep_lines pattern (tl q))))"
  by pat_completeness auto
termination
  by (relation "measure (length \<circ> snd)") (auto dest!: ustrchr_Some)

declare grep_lines.simps [simp del]

definition grep_body :: "u8 list \<Rightarrow> int \<Rightarrow> u8 list \<Rightarrow> (u8 list + unit) up" where
  "grep_body pattern fd buf =
     USys (SysRead fd (1024 - int (length buf) - 1)) (\<lambda>r.
       if u_ret r \<le> 0 then URet (Inr ())
       else ubind (grep_lines pattern (buf @ take (nat (u_ret r)) (u_bytes r))) (\<lambda>p. URet (Inl p)))"

definition grep :: "nat \<Rightarrow> u8 list \<Rightarrow> int \<Rightarrow> unit up" where
  "grep n pattern fd = uloop n (grep_body pattern fd) []"

definition grep_main :: "nat \<Rightarrow> u8 list list \<Rightarrow> int up" where
  "grep_main n argv =
     (if length argv \<le> 1 then
        uthen (ufprintf 2 (''usage: grep pattern [file ...]'' @ [CHR 10]) []) (UExit 1)
      else
        (let pattern = argv ! 1
         in if length argv \<le> 2 then uthen (grep n pattern 0) (UExit 0)
            else
              uthen (ufor (drop 2 argv) (\<lambda>name.
                ubind (ucal (SysOpen name 0)) (\<lambda>fd.
                  if fd < 0 then
                    uthen (uprintf (''grep: cannot open %s'' @ [CHR 10]) [Str (Some name)]) (UExit 1)
                  else uthen (grep n pattern fd) (udo (SysClose fd)))))
              (UExit 0)))"

section \<open>What a pattern means\<close>

datatype rx = Chr u8 | Star u8 | Eol

fun parse_rx :: "u8 list \<Rightarrow> rx list" where
  "parse_rx [] = []"
| "parse_rx [c] = (if c = 36 then [Eol] else [Chr c])"
| "parse_rx (c # d # re) = (if d = 42 then Star c # parse_rx re else Chr c # parse_rx (d # re))"

definition fits :: "u8 \<Rightarrow> u8 \<Rightarrow> bool" where
  "fits c d \<longleftrightarrow> c = 46 \<or> c = d"

text \<open>\<open>rx_prefix rs t\<close>: the items \<open>rs\<close> match some prefix of \<open>t\<close>, or all of it before the end of the line.\<close>

inductive rx_prefix :: "rx list \<Rightarrow> u8 list \<Rightarrow> bool" where
  rx_done: "rx_prefix [] t"
| rx_eol: "rx_prefix [Eol] []"
| rx_chr: "fits c d \<Longrightarrow> rx_prefix rs t \<Longrightarrow> rx_prefix (Chr c # rs) (d # t)"
| rx_star: "\<forall>d \<in> set u. fits c d \<Longrightarrow> rx_prefix rs t \<Longrightarrow> rx_prefix (Star c # rs) (u @ t)"

inductive_simps rx_simps [simp]: "rx_prefix [] t" "rx_prefix (Chr c # rs) t" "rx_prefix (Eol # rs) t"
inductive_cases rx_starE: "rx_prefix (Star c # rs) t"

text \<open>A pattern matches a line when it matches from the start after a \<open>^\<close>, and else from any place.\<close>

definition grep_spec :: "u8 list \<Rightarrow> u8 list \<Rightarrow> bool" where
  "grep_spec re line \<longleftrightarrow>
     (if ch re = 94 then rx_prefix (parse_rx (tl re)) line
      else \<exists>u v. line = u @ v \<and> rx_prefix (parse_rx re) v)"

lemma rx_star_unfold:
  "rx_prefix (Star c # rs) t \<longleftrightarrow>
   rx_prefix rs t \<or> (\<exists>d t'. t = d # t' \<and> fits c d \<and> rx_prefix (Star c # rs) t')"
proof
  assume "rx_prefix (Star c # rs) t"
  then obtain u v where uv: "t = u @ v" "\<forall>d \<in> set u. fits c d" "rx_prefix rs v" by (elim rx_starE) auto
  show "rx_prefix rs t \<or> (\<exists>d t'. t = d # t' \<and> fits c d \<and> rx_prefix (Star c # rs) t')"
  proof (cases u)
    case Nil
    then show ?thesis using uv by simp
  next
    case (Cons d u')
    then have "rx_prefix (Star c # rs) (u' @ v)" using uv by (intro rx_star) auto
    then show ?thesis using uv Cons by simp
  qed
next
  assume "rx_prefix rs t \<or> (\<exists>d t'. t = d # t' \<and> fits c d \<and> rx_prefix (Star c # rs) t')"
  then show "rx_prefix (Star c # rs) t"
  proof
    assume "rx_prefix rs t"
    then show ?thesis using rx_star [of "[]"] by fastforce
  next
    assume "\<exists>d t'. t = d # t' \<and> fits c d \<and> rx_prefix (Star c # rs) t'"
    then obtain d u v where "t = d # u @ v" "fits c d" "\<forall>d \<in> set u. fits c d" "rx_prefix rs v"
      by (auto elim!: rx_starE)
    then show ?thesis using rx_star [of "d # u" c rs v] by simp
  qed
qed

lemma match_here_star:
  "0 \<notin> set re \<Longrightarrow> 0 \<notin> set t \<Longrightarrow> matchhere re t = rx_prefix (parse_rx re) t"
  "0 \<notin> set re \<Longrightarrow> 0 \<notin> set t \<Longrightarrow> matchstar c re t = rx_prefix (Star c # parse_rx re) t"
proof (induction re t and c re t rule: matchhere_matchstar.induct)
  case (1 re t)
  show ?case
  proof (cases re rule: parse_rx.cases)
    case 1
    then show ?thesis by (simp add: matchhere.simps)
  next
    case (2 c)
    then show ?thesis
      using "1.prems" by (cases t) (auto simp: matchhere.simps [of "[c]"] matchhere.simps [of "[]"] fits_def)
  next
    case (3 c d re')
    show ?thesis
    proof (cases "d = 42")
      case True
      then show ?thesis using "1.IH"(1) "1.prems" "3" by (simp add: matchhere.simps [of "c # 42 # re'"])
    next
      case False
      then show ?thesis
        using "1.IH"(2) "1.prems" "3" by (cases t) (auto simp: matchhere.simps [of "c # d # re'"] fits_def)
    qed
  qed
next
  case (2 c re t)
  then show ?case
    unfolding matchstar.simps [of c re t] rx_star_unfold [of c "parse_rx re" t]
    by (cases t) (auto simp: fits_def)
qed

lemma gmatch_spec:
  assumes "0 \<notin> set re" and "0 \<notin> set t"
  shows "gmatch re t = grep_spec re t"
proof -
  have "match_from re t = (\<exists>u v. t = u @ v \<and> rx_prefix (parse_rx re) v)"
    using assms(2)
  proof (induction t)
    case Nil
    then show ?case using match_here_star(1) [OF assms(1)] by simp
  next
    case (Cons c t)
    have "(\<exists>u v. c # t = u @ v \<and> rx_prefix (parse_rx re) v) \<longleftrightarrow>
        rx_prefix (parse_rx re) (c # t) \<or> (\<exists>u v. t = u @ v \<and> rx_prefix (parse_rx re) v)"
      by (auto simp: Cons_eq_append_conv)
    then show ?case using Cons match_here_star(1) [OF assms(1), of "c # t"] by auto
  qed
  moreover have "0 \<notin> set (tl re)" using assms(1) by (cases re) auto
  ultimately show ?thesis
    using match_here_star(1) [of "tl re" t] assms by (simp add: gmatch_def grep_spec_def)
qed

section \<open>Lines\<close>

text \<open>The complete lines of a file and what follows the last newline.\<close>

primrec split_lines :: "u8 list \<Rightarrow> u8 list list \<times> u8 list" where
  "split_lines [] = ([], [])"
| "split_lines (c # s) =
     (case split_lines s of (ls, r) \<Rightarrow>
        if c = 10 then ([] # ls, r)
        else (case ls of [] \<Rightarrow> ([], c # r) | l # ls' \<Rightarrow> ((c # l) # ls', r)))"

lemma split_lines_line: "10 \<notin> set u \<Longrightarrow> split_lines (u @ 10 # s) = (u # fst (split_lines s), snd (split_lines s))"
  by (induction u) (auto split: prod.splits)

lemma split_lines_none: "10 \<notin> set u \<Longrightarrow> split_lines u = ([], u)"
  by (induction u) auto

lemma split_lines_append:
  "split_lines (a @ b) = (fst (split_lines a) @ fst (split_lines (snd (split_lines a) @ b)),
     snd (split_lines (snd (split_lines a) @ b)))"
proof (induction a)
  case (Cons c a)
  then show ?case by (cases "split_lines a"; cases "fst (split_lines a)") (auto split: prod.splits list.splits)
qed simp

lemma split_lines_rest: "10 \<notin> set (snd (split_lines s))"
  by (induction s) (auto split: prod.splits list.splits)

lemma split_lines_set: "set (snd (split_lines s)) \<subseteq> set s"
  by (induction s) (auto split: prod.splits list.splits)

definition printed :: "u8 list \<Rightarrow> u8 list list \<Rightarrow> u8 list" where
  "printed pattern ls = concat (map (\<lambda>l. l @ [10]) (filter (grep_spec pattern) ls))"

lemma printed_simps [simp]:
  "printed pat [] = []" "printed pat (ls @ ls') = printed pat ls @ printed pat ls'"
  "printed pat (l # ls) = (if grep_spec pat l then l @ [10] else []) @ printed pat ls"
  by (simp_all add: printed_def)

lemma ustrchr_None: "ustrchr p 10 = None \<Longrightarrow> 0 \<notin> set p \<Longrightarrow> 10 \<notin> set p"
  by (induction p) (auto split: if_splits)

lemma grep_lines_run:
  assumes "0 \<notin> set pat" and "0 \<notin> set p"
  shows "urun one_file (grep_lines pat p) e =
    (Ret (snd (split_lines p)), e\<lparr>io_out := io_out e @ printed pat (fst (split_lines p))\<rparr>)"
  using assms
proof (induction pat p arbitrary: e rule: grep_lines.induct)
  case (1 pat p)
  show ?case
  proof (cases "ustrchr p 10")
    case None
    then show ?thesis
      using ustrchr_None [OF None "1.prems"(2)] by (simp add: grep_lines.simps [of _ p] split_lines_none)
  next
    case (Some q)
    then obtain u v where uv: "p = u @ 10 # v" "q = 10 # v" "10 \<notin> set u" "0 \<notin> set u"
      using ustrchr_Some by blast
    let ?e = "e\<lparr>io_out := io_out e @ (if gmatch pat u then u @ [10] else [])\<rparr>"
    have w: "urun one_file (uwhen (gmatch pat u) (udo (SysWrite 1 (u @ [10])))) e = (Ret (), ?e)"
      by (simp add: uwhen_def udo_def)
    have "urun one_file (grep_lines pat v) ?e =
        (Ret (snd (split_lines v)), ?e\<lparr>io_out := io_out ?e @ printed pat (fst (split_lines v))\<rparr>)"
      using "1.IH" [OF Some refl] "1.prems" uv by simp
    then show ?thesis
      using uv w Some gmatch_spec [OF "1.prems"(1) uv(4)]
      by (simp add: grep_lines.simps [of _ "u @ 10 # v"] urun_bind split_lines_line)
  qed
qed

section \<open>What grep prints\<close>

definition short_lines :: "u8 list \<Rightarrow> bool" where
  "short_lines s \<longleftrightarrow> (\<forall>l \<in> set (fst (split_lines s)). length l < 1023) \<and> length (snd (split_lines s)) < 1023"

lemma split_lines_prefix:
  "10 \<notin> set u \<Longrightarrow> split_lines (u @ s) =
   (case split_lines s of (ls, r) \<Rightarrow> case ls of [] \<Rightarrow> ([], u @ r) | l # ls' \<Rightarrow> ((u @ l) # ls', r))"
  by (induction u) (auto split: prod.splits list.splits)

lemma short_prefix: "short_lines (u @ s) \<Longrightarrow> 10 \<notin> set u \<Longrightarrow> length u < 1023"
  by (auto simp: short_lines_def split_lines_prefix split: prod.splits list.splits)

lemma short_suffix: "short_lines (a @ b) \<Longrightarrow> short_lines (snd (split_lines a) @ b)"
  by (simp add: short_lines_def split_lines_append [of a b])

lemma grep_loop_run:
  assumes "0 \<notin> set pat" and "0 \<notin> set (buf @ io_in e)" and "10 \<notin> set buf"
    and "short_lines (buf @ io_in e)" and "length (io_in e) < n"
  shows "\<exists>e'. urun one_file (uloop n (grep_body pat fd) buf) e = (Ret (), e') \<and>
    io_out e' = io_out e @ printed pat (fst (split_lines (buf @ io_in e))) \<and> io_err e' = io_err e \<and> io_in e' = []"
  using assms(2-)
proof (induction n arbitrary: buf e)
  case (Suc n)
  let ?m = "1024 - int (length buf) - 1"
  let ?p = "piece ?m e"
  have m: "0 < ?m" using short_prefix [OF Suc.prems(3,2)] by simp
  show ?case
  proof (cases "io_in e = []")
    case True
    then show ?thesis
      using piece_nonempty [OF m, of e] Suc.prems(2) by (simp add: grep_body_def split_lines_none)
  next
    case False
    let ?e = "e\<lparr>io_in := drop (length ?p) (io_in e), io_reads := io_reads e + 1\<rparr>"
    let ?b = "snd (split_lines (buf @ ?p))"
    let ?e1 = "?e\<lparr>io_out := io_out ?e @ printed pat (fst (split_lines (buf @ ?p)))\<rparr>"
    have ne: "?p \<noteq> []" using piece_nonempty [OF m] False by simp
    have io: "?p @ io_in ?e1 = io_in e" using piece_prefix [of ?m e] by simp
    have "set (io_in e) = set ?p \<union> set (io_in ?e1)" using arg_cong [OF io, of set] by (simp only: set_append)
    then have z: "0 \<notin> set (buf @ ?p)" "0 \<notin> set (io_in ?e1)" using Suc.prems(1) by (auto simp only: set_append)
    have IH: "\<exists>e'. urun one_file (uloop n (grep_body pat fd) ?b) ?e1 = (Ret (), e') \<and>
        io_out e' = io_out ?e1 @ printed pat (fst (split_lines (?b @ io_in ?e1))) \<and> io_err e' = io_err ?e1 \<and> io_in e' = []"
    proof (rule Suc.IH)
      show "0 \<notin> set (?b @ io_in ?e1)" using z split_lines_set [of "buf @ ?p"] by auto
      show "10 \<notin> set ?b" by (rule split_lines_rest)
      show "short_lines (?b @ io_in ?e1)"
        using short_suffix [of "buf @ ?p" "io_in ?e1"] Suc.prems(3) io by simp
      show "length (io_in ?e1) < n" using Suc.prems(4) ne False by (cases ?p; cases "io_in e") auto
    qed
    have "urun one_file (uloop (Suc n) (grep_body pat fd) buf) e = urun one_file (uloop n (grep_body pat fd) ?b) ?e1"
      using ne grep_lines_run [OF assms(1) z(1), of ?e] by (simp add: grep_body_def urun_bind)
    moreover have "split_lines (buf @ io_in e) =
        (fst (split_lines (buf @ ?p)) @ fst (split_lines (?b @ io_in ?e1)), snd (split_lines (?b @ io_in ?e1)))"
      using split_lines_append [of "buf @ ?p" "io_in ?e1"] io by simp
    ultimately show ?thesis using IH by simp
  qed
qed simp

text \<open>
  C8: \<open>grep\<close> prints exactly the lines that match. On a file without null bytes whose lines are
  shorter than 1023 bytes, and for every way in which the kernel may split the file into reads, \<open>grep\<close> returns
  after at most one round of its loop more than the file has bytes, and its output is the complete
  lines, in order, for which the pattern matches in the sense of \<open>grep_spec\<close>: literal characters,
  \<open>.\<close>, a starred character, \<open>^\<close> at the start and \<open>$\<close> at the end.
\<close>

theorem grep_prints_matching_lines:
  assumes "0 \<notin> set pattern" and "0 \<notin> set (io_in e)" and "short_lines (io_in e)" and "length (io_in e) < n"
  shows "\<exists>e'. urun one_file (grep n pattern fd) e = (Ret (), e') \<and>
    io_out e' = io_out e @ concat (map (\<lambda>l. l @ [10]) (filter (grep_spec pattern) (fst (split_lines (io_in e))))) \<and>
    io_err e' = io_err e \<and> io_in e' = []"
  using grep_loop_run [OF assms(1), of "[]" e n fd] assms(2-) by (simp add: grep_def printed_def)

text \<open>The lines \<open>cat\<close>, \<open>dog\<close> and \<open>boat\<close>, read two bytes at a time, and the pattern \<open>^.*oa*t$\<close>.\<close>

definition grep_example :: uio where
  "grep_example = \<lparr>io_in = [99, 97, 116, 10, 100, 111, 103, 10, 98, 111, 97, 116, 10],
     io_cut = (\<lambda>_. 2), io_reads = 0, io_out = [], io_err = []\<rparr>"

theorem grep_prints_matching_lines_witness:
  "\<exists>e'. urun one_file (grep 20 [94, 46, 42, 111, 97, 42, 116, 36] 0) grep_example = (Ret (), e') \<and>
     io_out e' = [98, 111, 97, 116, 10]"
proof -
  let ?p = "[94, 46, 42, 111, 97, 42, 116, 36] :: u8 list"
  have l: "split_lines (io_in grep_example) = ([[99, 97, 116], [100, 111, 103], [98, 111, 97, 116]], [])"
    by (simp add: grep_example_def)
  have g: "\<not> gmatch ?p [99, 97, 116]" "\<not> gmatch ?p [100, 111, 103]" "gmatch ?p [98, 111, 97, 116]"
    by (simp_all add: gmatch_def matchhere.simps matchstar.simps)
  have "grep_spec ?p l = gmatch ?p l" if "0 \<notin> set l" for l
    using gmatch_spec [of ?p l] that by simp
  then have "filter (grep_spec ?p) (fst (split_lines (io_in grep_example))) = [[98, 111, 97, 116]]"
    using g by (simp add: l)
  then show ?thesis
    using grep_prints_matching_lines [of ?p grep_example 20 0] by (simp add: l short_lines_def) (auto simp: grep_example_def)
qed

end
