(* ===== verification/Sh.thy ===== *)
theory Sh
  imports Ulib
begin

text \<open>
  The shell, \<open>user/sh.c\<close>: the recursive-descent parser that works on positions in the input buffer, the
  pass that ends every word with a null byte, and the interpreter of parsed commands as a program of
  system calls. The theory shows that parsing always ends, stays in the buffer, and that after it
  the strings of a command are the words of the command line.
\<close>

section \<open>Commands\<close>

text \<open>
  A word is given by the positions of its first byte and of the byte after its last one. \<open>REDIR\<close> has the
  file, the mode for \<open>open\<close> and the descriptor.
\<close>

type_synonym word_at = "nat \<times> nat"

datatype cmd =
    EXEC "word_at list"
  | REDIR cmd word_at int int
  | PIPE cmd cmd
  | LIST cmd cmd
  | BACK cmd

text \<open>The constructors of the source; \<open>malloc\<close> is taken to succeed.\<close>

definition execcmd :: cmd where
  "execcmd = EXEC []"

definition redircmd :: "cmd \<Rightarrow> word_at \<Rightarrow> int \<Rightarrow> int \<Rightarrow> cmd" where
  "redircmd subcmd file mode fd = REDIR subcmd file mode fd"

definition pipecmd :: "cmd \<Rightarrow> cmd \<Rightarrow> cmd" where
  "pipecmd left right = PIPE left right"

definition listcmd :: "cmd \<Rightarrow> cmd \<Rightarrow> cmd" where
  "listcmd left right = LIST left right"

definition backcmd :: "cmd \<Rightarrow> cmd" where
  "backcmd subcmd = BACK subcmd"

declare execcmd_def [simp] redircmd_def [simp] pipecmd_def [simp] listcmd_def [simp] backcmd_def [simp]

text \<open>\<open>cmd->argv[argc] = q\<close> for the command that \<open>parseexec\<close> made, which redirections may already enclose.\<close>

fun add_arg :: "word_at \<Rightarrow> cmd \<Rightarrow> cmd" where
  "add_arg w (EXEC ws) = EXEC (ws @ [w])"
| "add_arg w (REDIR c file mode fd) = REDIR (add_arg w c) file mode fd"
| "add_arg w c = c"

section \<open>Tokens\<close>

abbreviation (input) whitespace :: "u8 list" where "whitespace \<equiv> [32, 9, 13, 10, 11]"
abbreviation (input) symbols :: "u8 list" where "symbols \<equiv> [60, 124, 62, 38, 59, 40, 41]"
abbreviation (input) MAXARGS :: nat where "MAXARGS \<equiv> 10"

text \<open>The byte at a position; the line ends with a null byte.\<close>

definition at :: "u8 list \<Rightarrow> nat \<Rightarrow> u8" where
  "at b i = (if i < length b then b ! i else 0)"

function skip_while :: "(u8 \<Rightarrow> bool) \<Rightarrow> u8 list \<Rightarrow> nat \<Rightarrow> nat" where
  "skip_while P b i = (if i < length b \<and> P (b ! i) then skip_while P b (Suc i) else i)"
  by pat_completeness auto
termination
  by (relation "measure (\<lambda>(P, b, i). length b - i)") auto

declare skip_while.simps [simp del]

definition is_white :: "u8 \<Rightarrow> bool" where
  "is_white c = (ustrchr whitespace c \<noteq> None)"

definition is_plain :: "u8 \<Rightarrow> bool" where
  "is_plain c = (ustrchr whitespace c = None \<and> ustrchr symbols c = None)"

text \<open>The kind of the token that starts at \<open>q\<close>, and where it ends: the \<open>switch\<close> of \<open>gettoken\<close>.\<close>

definition token_at :: "u8 list \<Rightarrow> nat \<Rightarrow> u8 \<times> nat" where
  "token_at b q =
     (let c = at b q
      in if c = 0 then (c, q)
         else if c \<in> {124, 40, 41, 59, 38, 60} then (c, Suc q)
         else if c = 62 then (if at b (Suc q) = 62 then (43, q + 2) else (c, Suc q))
         else (97, skip_while is_plain b q))"

text \<open>\<open>gettoken\<close> returns the kind of token, where the token starts and ends, and the new position.\<close>

definition gettoken :: "u8 list \<Rightarrow> nat \<Rightarrow> u8 \<times> nat \<times> nat \<times> nat" where
  "gettoken b i =
     (let q = skip_while is_white b i;
          (ret, eq) = token_at b q
      in (ret, q, eq, skip_while is_white b eq))"

definition peek :: "u8 list \<Rightarrow> nat \<Rightarrow> u8 list \<Rightarrow> nat \<times> bool" where
  "peek b i toks =
     (let s = skip_while is_white b i in (s, at b s \<noteq> 0 \<and> ustrchr toks (at b s) \<noteq> None))"

abbreviation (input) next_pos :: "u8 list \<Rightarrow> nat \<Rightarrow> nat" where
  "next_pos b i \<equiv> snd (snd (snd (gettoken b i)))"

section \<open>The parser\<close>

text \<open>
  A parser goes on at a position, or the shell panics. \<open>Out\<close> says that the given depth of calls and rounds
  of loops was not enough.
\<close>

datatype pres = Done cmd nat | Bad string | Out

definition pbind :: "pres \<Rightarrow> (cmd \<Rightarrow> nat \<Rightarrow> pres) \<Rightarrow> pres" where
  "pbind r f = (case r of Done c i \<Rightarrow> f c i | Bad e \<Rightarrow> Bad e | Out \<Rightarrow> Out)"

definition redir_mode :: "u8 \<Rightarrow> int \<times> int" where
  "redir_mode tok = (if tok = 60 then (0, 0) else if tok = 62 then (0x601, 1) else (0x201, 1))"

primrec parseredirs :: "nat \<Rightarrow> u8 list \<Rightarrow> cmd \<Rightarrow> nat \<Rightarrow> pres" where
  "parseredirs 0 b c i = Out"
| "parseredirs (Suc f) b c i =
     (let (i1, more) = peek b i [60, 62]
      in if \<not> more then Done c i1
         else
           (let (tok, _, _, i2) = gettoken b i1;
                (tok2, q, eq, i3) = gettoken b i2;
                (mode, fd) = redir_mode tok
            in if tok2 \<noteq> 97 then Bad ''missing file for redirection''
               else parseredirs f b (redircmd c (q, eq) mode fd) i3))"

primrec parseargs :: "nat \<Rightarrow> u8 list \<Rightarrow> cmd \<Rightarrow> nat \<Rightarrow> nat \<Rightarrow> pres" where
  "parseargs 0 b ret argc i = Out"
| "parseargs (Suc f) b ret argc i =
     (let (i1, stop) = peek b i [124, 41, 38, 59]
      in if stop then Done ret i1
         else
           (let (tok, q, eq, i2) = gettoken b i1
            in if tok = 0 then Done ret i2
               else if tok \<noteq> 97 then Bad ''syntax''
               else if MAXARGS \<le> Suc argc then Bad ''too many args''
               else pbind (parseredirs f b (add_arg (q, eq) ret) i2) (\<lambda>ret i3. parseargs f b ret (Suc argc) i3)))"

text \<open>The loop over \<open>&\<close> in \<open>parseline\<close>.\<close>

primrec parsebacks :: "nat \<Rightarrow> u8 list \<Rightarrow> cmd \<Rightarrow> nat \<Rightarrow> pres" where
  "parsebacks 0 b c i = Out"
| "parsebacks (Suc f) b c i =
     (let (i1, more) = peek b i [38]
      in if \<not> more then Done c i1 else parsebacks f b (backcmd c) (next_pos b i1))"

fun parseline :: "nat \<Rightarrow> u8 list \<Rightarrow> nat \<Rightarrow> pres"
  and parsepipe :: "nat \<Rightarrow> u8 list \<Rightarrow> nat \<Rightarrow> pres"
  and parseexec :: "nat \<Rightarrow> u8 list \<Rightarrow> nat \<Rightarrow> pres"
  and parseblock :: "nat \<Rightarrow> u8 list \<Rightarrow> nat \<Rightarrow> pres" where
  "parseline 0 b i = Out"
| "parseline (Suc f) b i =
     pbind (parsepipe f b i) (\<lambda>c i1.
     pbind (parsebacks f b c i1) (\<lambda>c i2.
       let (i3, more) = peek b i2 [59]
       in if \<not> more then Done c i3
          else pbind (parseline f b (next_pos b i3)) (\<lambda>r i4. Done (listcmd c r) i4)))"
| "parsepipe 0 b i = Out"
| "parsepipe (Suc f) b i =
     pbind (parseexec f b i) (\<lambda>c i1.
       let (i2, more) = peek b i1 [124]
       in if \<not> more then Done c i2
          else pbind (parsepipe f b (next_pos b i2)) (\<lambda>r i3. Done (pipecmd c r) i3))"
| "parseblock 0 b i = Out"
| "parseblock (Suc f) b i =
     (let (i1, opn) = peek b i [40]
      in if \<not> opn then Bad ''parseblock''
         else
           pbind (parseline f b (next_pos b i1)) (\<lambda>c i2.
             let (i3, cls) = peek b i2 [41]
             in if \<not> cls then Bad ''syntax - missing )''
                else parseredirs f b c (next_pos b i3)))"
| "parseexec 0 b i = Out"
| "parseexec (Suc f) b i =
     (let (i1, opn) = peek b i [40]
      in if opn then parseblock f b i1
         else pbind (parseredirs f b execcmd i1) (\<lambda>ret i2. parseargs f b ret 0 i2))"

text \<open>\<open>nulterminate\<close> on the buffer with the line and its null byte.\<close>

primrec nulterminate :: "cmd \<Rightarrow> u8 list \<Rightarrow> u8 list" where
  "nulterminate (EXEC ws) m = fold (\<lambda>(q, eq) m. m[eq := 0]) ws m"
| "nulterminate (REDIR c file mode fd) m = (nulterminate c m)[snd file := 0]"
| "nulterminate (PIPE c d) m = nulterminate d (nulterminate c m)"
| "nulterminate (LIST c d) m = nulterminate d (nulterminate c m)"
| "nulterminate (BACK c) m = nulterminate c m"

text \<open>
  The depth \<open>4 * length b + 4\<close> is enough for every line. The result is the command with the buffer
  after \<open>nulterminate\<close>, or the message of the panic; the line that shows what is left over is not printed.
\<close>

definition parsecmd :: "u8 list \<Rightarrow> (string + cmd \<times> u8 list) option" where
  "parsecmd b =
     (case parseline (4 * length b + 4) b 0 of
        Done c i \<Rightarrow>
          (let (i1, _) = peek b i []
           in if i1 \<noteq> length b then Some (Inl ''syntax'')
              else Some (Inr (c, nulterminate c (b @ [0]))))
      | Bad e \<Rightarrow> Some (Inl e)
      | Out \<Rightarrow> None)"

section \<open>Running commands\<close>

text \<open>The string a pointer into the buffer denotes.\<close>

definition cstr :: "u8 list \<Rightarrow> nat \<Rightarrow> u8 list" where
  "cstr m i = takeWhile (\<lambda>c. c \<noteq> 0) (drop i m)"

definition sh_panic :: "string \<Rightarrow> 'a up" where
  "sh_panic s = ubind (ufprintf 2 (''%s'' @ [CHR 10]) [Str (Some (bytes_of s))]) (\<lambda>_. UExit 1)"

definition fork1 :: "int up" where
  "fork1 = ubind (ucal SysFork) (\<lambda>pid. if pid = - 1 then sh_panic ''fork'' else URet pid)"

text \<open>\<open>runcmd\<close> never returns; in a child after \<open>fork\<close> it is the rest of the program.\<close>

primrec runcmd :: "u8 list \<Rightarrow> cmd \<Rightarrow> unit up" where
  "runcmd m (EXEC ws) =
     (if ws = [] then UExit 1
      else
        (let argv = map (\<lambda>(q, eq). cstr m q) ws
         in uthen (udo (SysExec (hd argv) argv))
           (uthen (ufprintf 2 (''exec %s failed'' @ [CHR 10]) [Str (Some (hd argv))])
            (UExit 0))))"
| "runcmd m (REDIR c file mode fd) =
     uthen (udo (SysClose fd))
    (ubind (ucal (SysOpen (cstr m (fst file)) mode)) (\<lambda>r.
       if r < 0 then
         uthen (ufprintf 2 (''open %s failed'' @ [CHR 10]) [Str (Some (cstr m (fst file)))]) (UExit 1)
       else runcmd m c))"
| "runcmd m (LIST c d) =
     ubind fork1 (\<lambda>pid.
       if pid = 0 then runcmd m c
       else uthen (udo SysWait) (runcmd m d))"
| "runcmd m (PIPE c d) =
     USys SysPipe (\<lambda>r.
       if u_ret r < 0 then sh_panic ''pipe''
       else
         (let (p0, p1) = u_fds r
          in ubind fork1 (\<lambda>pid.
               if pid = 0 then
                 uthen (udo (SysClose 1)) (uthen (udo (SysDup p1))
                (uthen (udo (SysClose p0)) (uthen (udo (SysClose p1)) (runcmd m c))))
               else
                 ubind fork1 (\<lambda>pid.
                   if pid = 0 then
                     uthen (udo (SysClose 0)) (uthen (udo (SysDup p0))
                    (uthen (udo (SysClose p0)) (uthen (udo (SysClose p1)) (runcmd m d))))
                   else
                     uthen (udo (SysClose p0)) (uthen (udo (SysClose p1))
                    (uthen (udo SysWait) (uthen (udo SysWait) (UExit 0))))))))"
| "runcmd m (BACK c) =
     ubind fork1 (\<lambda>pid. if pid = 0 then runcmd m c else UExit 0)"

definition getcmd :: "u8 list option up" where
  "getcmd =
     uthen (udo (SysWrite 2 [36, 32]))
    (ubind (ugets 100) (\<lambda>buf.
     URet (if ch buf = 0 then None else Some (takeWhile (\<lambda>c. c \<noteq> 0) buf))))"

definition run_line :: "u8 list \<Rightarrow> unit up" where
  "run_line line =
     (case parsecmd line of
        None \<Rightarrow> UMore
      | Some (Inl e) \<Rightarrow> sh_panic e
      | Some (Inr (c, m)) \<Rightarrow> runcmd m c)"

definition sh_body :: "unit \<Rightarrow> (unit + unit) up" where
  "sh_body u =
     ubind getcmd (\<lambda>line.
       case line of
         None \<Rightarrow> URet (Inr ())
       | Some buf \<Rightarrow>
           (let cmd = dropWhile (\<lambda>c. c = 32 \<or> c = 9) buf
            in if ch cmd = 10 then URet (Inl ())
               else if take 3 cmd = [99, 100, 32] then
                 (let dir = drop 3 (butlast cmd)
                  in ubind (ucal (SysChdir dir)) (\<lambda>r.
                     uthen (uwhen (r < 0) (ufprintf 2 (''cannot cd %s'' @ [CHR 10]) [Str (Some dir)]))
                     (URet (Inl ()))))
               else
                 ubind fork1 (\<lambda>pid.
                   uthen (if pid = 0 then run_line cmd else URet ())
                  (uthen (udo SysWait) (URet (Inl ()))))))"

definition open_console :: "unit \<Rightarrow> (unit + unit) up" where
  "open_console u =
     ubind (ucal (SysOpen (bytes_of ''console'') 2)) (\<lambda>fd.
       if fd < 0 then URet (Inr ())
       else if 3 \<le> fd then uthen (udo (SysClose fd)) (URet (Inr ()))
       else URet (Inl ()))"

definition sh_main :: "nat \<Rightarrow> nat \<Rightarrow> unit up" where
  "sh_main k n =
     uthen (uloop k open_console ())
    (uthen (uloop n sh_body ())
     (UExit 0))"

section \<open>Words\<close>

definition is_word :: "u8 list \<Rightarrow> word_at \<Rightarrow> bool" where
  "is_word b w \<longleftrightarrow> fst w < snd w \<and> snd w \<le> length b \<and>
     (\<forall>k. fst w \<le> k \<and> k < snd w \<longrightarrow> is_plain (b ! k)) \<and>
     (snd w < length b \<longrightarrow> \<not> is_plain (b ! snd w))"

lemma skip_while_spec:
  "i \<le> length b \<Longrightarrow> i \<le> skip_while P b i \<and> skip_while P b i \<le> length b \<and>
     (\<forall>k. i \<le> k \<and> k < skip_while P b i \<longrightarrow> P (b ! k)) \<and>
     (skip_while P b i < length b \<longrightarrow> \<not> P (b ! skip_while P b i))"
proof (induction P b i rule: skip_while.induct)
  case (1 P b i)
  show ?case
  proof (cases "i < length b \<and> P (b ! i)")
    case True
    then have e: "skip_while P b i = skip_while P b (Suc i)" by (simp add: skip_while.simps [of P b i])
    note IH = "1.IH" [OF True, OF Suc_leI [OF conjunct1 [OF True]]]
    have "P (b ! k)" if "i \<le> k" "k < skip_while P b (Suc i)" for k
      using IH True that by (cases "k = i") auto
    then show ?thesis unfolding e using IH by auto
  next
    case False
    then show ?thesis using "1.prems" by (auto simp: skip_while.simps [of P b i])
  qed
qed

lemma skip_skip: "i \<le> length b \<Longrightarrow> skip_while P b (skip_while P b i) = skip_while P b i"
  using skip_while_spec [of i b P] skip_while.simps [of P b "skip_while P b i"] by auto

lemma at_0: "0 \<notin> set b \<Longrightarrow> i \<le> length b \<Longrightarrow> at b i = 0 \<longleftrightarrow> i = length b"
  by (auto simp: at_def) (metis nth_mem)

lemma token_at_spec:
  assumes "0 \<notin> set b" and "q \<le> length b" and "q < length b \<Longrightarrow> \<not> is_white (b ! q)" and "token_at b q = (t, eq)"
  shows "q \<le> eq \<and> eq \<le> length b \<and> (q < length b \<longrightarrow> q < eq) \<and> (t = 97 \<longrightarrow> is_word b (q, eq))"
proof (cases "q < length b")
  case False
  then show ?thesis using assms(2,4) by (auto simp: token_at_def at_def)
next
  case True
  have nz: "b ! q \<noteq> 0" using True assms(1) by (metis nth_mem)
  have at: "at b q = b ! q" using True by (simp add: at_def)
  consider "b ! q \<in> {124, 40, 41, 59, 38, 60}" | "b ! q = 62" | "b ! q \<notin> {124, 40, 41, 59, 38, 60, 62}" by blast
  then show ?thesis
  proof cases
    case 1
    then have "t = b ! q" "eq = Suc q" using assms(4) nz by (simp_all add: token_at_def at)
    then show ?thesis using 1 True by auto
  next
    case 2
    then have "(t, eq) = (if at b (Suc q) = 62 then (43, q + 2) else (62, Suc q))"
      using assms(4) by (simp add: token_at_def at)
    then show ?thesis using True by (auto simp: at_def split: if_splits)
  next
    case 3
    then have e: "t = 97" "eq = skip_while is_plain b q" using assms(4) nz by (simp_all add: token_at_def at)
    have "is_plain (b ! q)" using 3 assms(3) [OF True] by (simp add: is_plain_def is_white_def)
    then have "eq = skip_while is_plain b (Suc q)" using e(2) True skip_while.simps [of is_plain b q] by simp
    then have "q < eq" using skip_while_spec [of "Suc q" b is_plain] True by simp
    then show ?thesis using skip_while_spec [OF assms(2), of is_plain] e True by (simp add: is_word_def)
  qed
qed

lemma gettoken_spec:
  assumes "0 \<notin> set b" and "i \<le> length b" and "gettoken b i = (t, q, eq, j)"
  shows "i \<le> j \<and> j \<le> length b \<and> (at b (skip_while is_white b i) \<noteq> 0 \<longrightarrow> i < j) \<and>
    (t = 97 \<longrightarrow> is_word b (q, eq) \<and> i < j)"
proof -
  have q: "q = skip_while is_white b i" and te: "token_at b q = (t, eq)" and j: "j = skip_while is_white b eq"
    using assms(3) by (auto simp: gettoken_def Let_def split: prod.splits)
  note s1 = skip_while_spec [OF assms(2), of is_white, folded q]
  have t: "q \<le> eq \<and> eq \<le> length b \<and> (q < length b \<longrightarrow> q < eq) \<and> (t = 97 \<longrightarrow> is_word b (q, eq))"
    by (rule token_at_spec [OF assms(1) _ _ te]) (use s1 in auto)
  note s2 = skip_while_spec [of eq b is_white, folded j]
  have "at b q \<noteq> 0 \<longleftrightarrow> q < length b" using at_0 [OF assms(1), of q] s1 by auto
  moreover have "t = 97 \<longrightarrow> q < eq" using t by (simp add: is_word_def)
  ultimately show ?thesis using s1 t s2 unfolding q [symmetric] by fastforce
qed

lemma peek_spec:
  assumes "0 \<notin> set b" and "i \<le> length b" and "peek b i toks = (i1, y)"
  shows "i \<le> i1" and "i1 \<le> length b" and "y \<Longrightarrow> i1 < next_pos b i1 \<and> next_pos b i1 \<le> length b"
proof -
  have i1: "i1 = skip_while is_white b i" and y: "y \<Longrightarrow> at b i1 \<noteq> 0"
    using assms(3) by (auto simp: peek_def Let_def)
  show le: "i \<le> i1" "i1 \<le> length b" using skip_while_spec [OF assms(2), of is_white] i1 by auto
  obtain t q eq j where g: "gettoken b i1 = (t, q, eq, j)" by (metis prod_cases4)
  show "i1 < next_pos b i1 \<and> next_pos b i1 \<le> length b" if y
    using gettoken_spec [OF assms(1) le(2) g] y [OF that] skip_skip [OF assms(2), of is_white] g
    by (simp add: i1)
qed

section \<open>Parsed commands\<close>

text \<open>All words of a command are words of the line, and no command has more arguments than \<open>argv\<close> holds.\<close>

primrec cmd_ok :: "u8 list \<Rightarrow> cmd \<Rightarrow> bool" where
  "cmd_ok b (EXEC ws) \<longleftrightarrow> length ws < MAXARGS \<and> (\<forall>w \<in> set ws. is_word b w)"
| "cmd_ok b (REDIR c w mode fd) \<longleftrightarrow> cmd_ok b c \<and> is_word b w"
| "cmd_ok b (PIPE c d) \<longleftrightarrow> cmd_ok b c \<and> cmd_ok b d"
| "cmd_ok b (LIST c d) \<longleftrightarrow> cmd_ok b c \<and> cmd_ok b d"
| "cmd_ok b (BACK c) \<longleftrightarrow> cmd_ok b c"

primrec core_args :: "cmd \<Rightarrow> nat" where
  "core_args (EXEC ws) = length ws"
| "core_args (REDIR c w mode fd) = core_args c"
| "core_args (PIPE c d) = 0"
| "core_args (LIST c d) = 0"
| "core_args (BACK c) = 0"

definition pres_ok :: "u8 list \<Rightarrow> nat \<Rightarrow> (cmd \<Rightarrow> bool) \<Rightarrow> pres \<Rightarrow> bool" where
  "pres_ok b i P r = (case r of Done c j \<Rightarrow> i \<le> j \<and> j \<le> length b \<and> cmd_ok b c \<and> P c | Bad e \<Rightarrow> True | Out \<Rightarrow> False)"

abbreviation (input) any :: "cmd \<Rightarrow> bool" where "any \<equiv> \<lambda>_. True"

lemma pres_ok_simps [simp]:
  "pres_ok b i P (Done c j) \<longleftrightarrow> i \<le> j \<and> j \<le> length b \<and> cmd_ok b c \<and> P c"
  "pres_ok b i P (Bad e)" "\<not> pres_ok b i P Out"
  by (simp_all add: pres_ok_def)

lemma pres_ok_bind:
  assumes "pres_ok b k P r"
    and "\<And>c j. k \<le> j \<Longrightarrow> j \<le> length b \<Longrightarrow> cmd_ok b c \<Longrightarrow> P c \<Longrightarrow> pres_ok b i Q (f c j)"
  shows "pres_ok b i Q (pbind r f)"
  using assms by (cases r) (auto simp: pbind_def)

lemma pres_ok_mono: "pres_ok b j P r \<Longrightarrow> i \<le> j \<Longrightarrow> (\<And>c. P c \<Longrightarrow> Q c) \<Longrightarrow> pres_ok b i Q r"
  by (cases r) auto

text \<open>The command that \<open>parseexec\<close> builds is an \<open>EXEC\<close> inside redirections.\<close>

primrec simple :: "cmd \<Rightarrow> bool" where
  "simple (EXEC ws) = True"
| "simple (REDIR c w mode fd) = simple c"
| "simple (PIPE c d) = False"
| "simple (LIST c d) = False"
| "simple (BACK c) = False"

definition like :: "cmd \<Rightarrow> cmd \<Rightarrow> bool" where
  "like c d \<longleftrightarrow> core_args d = core_args c \<and> simple d = simple c"

lemma parseredirs_ok:
  assumes "0 \<notin> set b" and "i \<le> length b" and "length b - i < f" and "cmd_ok b c"
  shows "pres_ok b i (like c) (parseredirs f b c i)"
  using assms(2-)
proof (induction f arbitrary: c i)
  case (Suc f)
  obtain i1 y where p: "peek b i [60, 62] = (i1, y)" by fastforce
  note ps = peek_spec [OF assms(1) Suc.prems(1) p]
  show ?case
  proof (cases y)
    case True
    obtain t1 q1 e1 i2 where g1: "gettoken b i1 = (t1, q1, e1, i2)" by (metis prod_cases4)
    obtain t2 q2 e2 i3 where g2: "gettoken b i2 = (t2, q2, e2, i3)" by (metis prod_cases4)
    obtain mode fd where m: "redir_mode t1 = (mode, fd)" by fastforce
    have i2: "i1 < i2" "i2 \<le> length b" using ps(3) [OF True] g1 by simp_all
    have i3: "i2 \<le> i3" "i3 \<le> length b" "t2 = 97 \<longrightarrow> is_word b (q2, e2)"
      using gettoken_spec [OF assms(1) i2(2) g2] by auto
    have "pres_ok b i3 (like (REDIR c (q2, e2) mode fd)) (parseredirs f b (REDIR c (q2, e2) mode fd) i3)"
      if "t2 = 97"
      by (rule Suc.IH) (use Suc.prems i2 i3 ps that in auto)
    then have "pres_ok b i (like c) (parseredirs f b (REDIR c (q2, e2) mode fd) i3)" if "t2 = 97"
      using that i2 i3 ps(1) by (auto simp: like_def elim!: pres_ok_mono)
    then show ?thesis using True by (simp add: p g1 g2 m)
  next
    case False
    then show ?thesis using ps Suc.prems by (simp add: p like_def)
  qed
qed simp

lemma add_arg_ok:
  "cmd_ok b c \<Longrightarrow> is_word b w \<Longrightarrow> Suc (core_args c) < MAXARGS \<Longrightarrow> cmd_ok b (add_arg w c)"
  by (induction c) auto

lemma add_arg_simple: "simple c \<Longrightarrow> simple (add_arg w c) \<and> core_args (add_arg w c) = Suc (core_args c)"
  by (induction c) auto

lemma parseargs_ok:
  assumes "0 \<notin> set b" and "i \<le> length b" and "length b - i < f" and "cmd_ok b c" and "simple c"
    and "core_args c = argc"
  shows "pres_ok b i any (parseargs f b c argc i)"
  using assms(2-)
proof (induction f arbitrary: c i argc)
  case (Suc f)
  obtain i1 y where p: "peek b i [124, 41, 38, 59] = (i1, y)" by fastforce
  note ps = peek_spec [OF assms(1) Suc.prems(1) p]
  obtain t q e i2 where g: "gettoken b i1 = (t, q, e, i2)" by (metis prod_cases4)
  note gs = gettoken_spec [OF assms(1) ps(2) g]
  have "pres_ok b i any (pbind (parseredirs f b (add_arg (q, e) c) i2) (\<lambda>ret i3. parseargs f b ret (Suc argc) i3))"
    if t: "t = 97" and a: "Suc argc < MAXARGS"
  proof (rule pres_ok_bind)
    have c: "cmd_ok b (add_arg (q, e) c)" "simple (add_arg (q, e) c)" "core_args (add_arg (q, e) c) = Suc argc"
      using add_arg_ok [of b c] add_arg_simple [of c] Suc.prems gs t a by auto
    show "pres_ok b i2 (like (add_arg (q, e) c)) (parseredirs f b (add_arg (q, e) c) i2)"
      by (rule parseredirs_ok [OF assms(1) _ _ c(1)]) (use gs ps t Suc.prems in auto)
    fix d j
    assume j: "i2 \<le> j" "j \<le> length b" "cmd_ok b d" "like (add_arg (q, e) c) d"
    have "pres_ok b j any (parseargs f b d (Suc argc) j)"
      by (rule Suc.IH) (use j c gs ps t Suc.prems in \<open>auto simp: like_def\<close>)
    then show "pres_ok b i any (parseargs f b d (Suc argc) j)"
      by (rule pres_ok_mono) (use j gs ps in auto)
  qed
  then show ?case using ps gs Suc.prems by (auto simp: p g)
qed simp

lemma parsebacks_ok:
  assumes "0 \<notin> set b" and "i \<le> length b" and "length b - i < f" and "cmd_ok b c"
  shows "pres_ok b i any (parsebacks f b c i)"
  using assms(2-)
proof (induction f arbitrary: c i)
  case (Suc f)
  obtain i1 y where p: "peek b i [38] = (i1, y)" by fastforce
  note ps = peek_spec [OF assms(1) Suc.prems(1) p]
  show ?case
  proof (cases y)
    case True
    have "pres_ok b (next_pos b i1) any (parsebacks f b (BACK c) (next_pos b i1))"
      by (rule Suc.IH) (use ps(1,2) ps(3) [OF True] Suc.prems in auto)
    then have "pres_ok b i any (parsebacks f b (BACK c) (next_pos b i1))"
      by (rule pres_ok_mono) (use ps(1) ps(3) [OF True] in auto)
    then show ?thesis using True by (simp add: p)
  next
    case False
    then show ?thesis using ps Suc.prems by (simp add: p)
  qed
qed simp

text \<open>
  Each of the four parsers ends within its depth, which drops by at most four from one use of \<open>parseline\<close>
  to the next at a later position.
\<close>

definition parsers_ok :: "u8 list \<Rightarrow> nat \<Rightarrow> bool" where
  "parsers_ok b f \<longleftrightarrow> (\<forall>i \<le> length b.
     (4 * (length b - i) + 4 \<le> f \<longrightarrow> pres_ok b i any (parseline f b i)) \<and>
     (4 * (length b - i) + 3 \<le> f \<longrightarrow> pres_ok b i any (parsepipe f b i)) \<and>
     (4 * (length b - i) + 2 \<le> f \<longrightarrow> pres_ok b i any (parseexec f b i)) \<and>
     (4 * (length b - i) + 1 \<le> f \<longrightarrow> pres_ok b i any (parseblock f b i)))"

lemma parsers_okD:
  assumes "parsers_ok b f" and "i \<le> length b"
  shows "4 * (length b - i) + 4 \<le> f \<Longrightarrow> pres_ok b i any (parseline f b i)"
    and "4 * (length b - i) + 3 \<le> f \<Longrightarrow> pres_ok b i any (parsepipe f b i)"
    and "4 * (length b - i) + 2 \<le> f \<Longrightarrow> pres_ok b i any (parseexec f b i)"
    and "4 * (length b - i) + 1 \<le> f \<Longrightarrow> pres_ok b i any (parseblock f b i)"
  using assms unfolding parsers_ok_def by blast+

lemma parseline_step:
  assumes "0 \<notin> set b" and "parsers_ok b f" and "i \<le> length b" and "4 * (length b - i) + 4 \<le> Suc f"
  shows "pres_ok b i any (parseline (Suc f) b i)"
  unfolding parseline.simps
proof (rule pres_ok_bind)
  show "pres_ok b i any (parsepipe f b i)" using assms(2-4) by (simp add: parsers_ok_def)
  fix c j
  assume j: "i \<le> j" "j \<le> length b" "cmd_ok b c"
  show "pres_ok b i any (pbind (parsebacks f b c j) (\<lambda>c i2. let (i3, more) = peek b i2 [59]
       in if \<not> more then Done c i3 else pbind (parseline f b (next_pos b i3)) (\<lambda>r i4. Done (listcmd c r) i4)))"
  proof (rule pres_ok_bind)
    show "pres_ok b j any (parsebacks f b c j)"
      by (rule parsebacks_ok [OF assms(1) j(2) _ j(3)]) (use assms(3,4) j in auto)
    fix d k
    assume k: "j \<le> k" "k \<le> length b" "cmd_ok b d"
    obtain i1 y where p: "peek b k [59] = (i1, y)" by fastforce
    note ps = peek_spec [OF assms(1) k(2) p]
    have "pres_ok b i any (pbind (parseline f b (next_pos b i1)) (\<lambda>r i4. Done (listcmd d r) i4))" if y
    proof (rule pres_ok_bind)
      show "pres_ok b (next_pos b i1) any (parseline f b (next_pos b i1))"
        by (rule parsers_okD(1) [OF assms(2)]) (use assms(4) ps(1,2) ps(3) [OF that] j k in auto)
    qed (use ps(1) ps(3) [OF that] j k in auto)
    then show "pres_ok b i any (let (i3, more) = peek b k [59]
       in if \<not> more then Done d i3 else pbind (parseline f b (next_pos b i3)) (\<lambda>r i4. Done (listcmd d r) i4))"
      using ps j k by (auto simp: p)
  qed
qed

lemma parsepipe_step:
  assumes "0 \<notin> set b" and "parsers_ok b f" and "i \<le> length b" and "4 * (length b - i) + 3 \<le> Suc f"
  shows "pres_ok b i any (parsepipe (Suc f) b i)"
  unfolding parsepipe.simps
proof (rule pres_ok_bind)
  show "pres_ok b i any (parseexec f b i)" using assms(4) by (intro parsers_okD [OF assms(2,3)]) simp
  fix c j
  assume j: "i \<le> j" "j \<le> length b" "cmd_ok b c"
  obtain i1 y where p: "peek b j [124] = (i1, y)" by fastforce
  note ps = peek_spec [OF assms(1) j(2) p]
  have "pres_ok b i any (pbind (parsepipe f b (next_pos b i1)) (\<lambda>r i4. Done (pipecmd c r) i4))" if y
  proof (rule pres_ok_bind)
    show "pres_ok b (next_pos b i1) any (parsepipe f b (next_pos b i1))"
      by (rule parsers_okD(2) [OF assms(2)]) (use assms(4) ps(1,2) ps(3) [OF that] j in auto)
  qed (use ps(1) ps(3) [OF that] j in auto)
  then show "pres_ok b i any (let (i2, more) = peek b j [124]
       in if \<not> more then Done c i2 else pbind (parsepipe f b (next_pos b i2)) (\<lambda>r i3. Done (pipecmd c r) i3))"
    using ps j by (auto simp: p)
qed

lemma parseblock_step:
  assumes "0 \<notin> set b" and "parsers_ok b f" and "i \<le> length b" and "4 * (length b - i) + 1 \<le> Suc f"
  shows "pres_ok b i any (parseblock (Suc f) b i)"
proof -
  obtain i1 y where p: "peek b i [40] = (i1, y)" by fastforce
  note ps = peek_spec [OF assms(1,3) p]
  have "pres_ok b i any (pbind (parseline f b (next_pos b i1)) (\<lambda>c i2.
      let (i3, cls) = peek b i2 [41]
      in if \<not> cls then Bad ''syntax - missing )'' else parseredirs f b c (next_pos b i3)))" if y
  proof (rule pres_ok_bind)
    show "pres_ok b (next_pos b i1) any (parseline f b (next_pos b i1))"
      by (rule parsers_okD(1) [OF assms(2)]) (use assms(4) ps(1,2) ps(3) [OF that] in auto)
    fix c j
    assume j: "next_pos b i1 \<le> j" "j \<le> length b" "cmd_ok b c"
    obtain i3 z where q: "peek b j [41] = (i3, z)" by fastforce
    note qs = peek_spec [OF assms(1) j(2) q]
    have r: "pres_ok b (next_pos b i3) (like c) (parseredirs f b c (next_pos b i3))" if z
      by (rule parseredirs_ok [OF assms(1) _ _ j(3)])
         (use assms(4) ps(1) ps(3) [OF \<open>y\<close>] qs(1) qs(3) [OF that] j in auto)
    have "pres_ok b i any (parseredirs f b c (next_pos b i3))" if z
      by (rule pres_ok_mono [OF r [OF that]]) (use ps(1) ps(3) [OF \<open>y\<close>] qs(1) qs(3) [OF that] j in auto)
    then show "pres_ok b i any (let (i3, cls) = peek b j [41]
        in if \<not> cls then Bad ''syntax - missing )'' else parseredirs f b c (next_pos b i3))"
      by (simp add: q)
  qed
  then show ?thesis by (simp add: p)
qed

lemma parseexec_step:
  assumes "0 \<notin> set b" and "parsers_ok b f" and "i \<le> length b" and "4 * (length b - i) + 2 \<le> Suc f"
  shows "pres_ok b i any (parseexec (Suc f) b i)"
proof -
  obtain i1 y where p: "peek b i [40] = (i1, y)" by fastforce
  note ps = peek_spec [OF assms(1,3) p]
  have "pres_ok b i1 any (parseblock f b i1)"
    by (rule parsers_okD(4) [OF assms(2) ps(2)]) (use assms(4) ps(1) in auto)
  then have blk: "pres_ok b i any (parseblock f b i1)" using ps(1) by (elim pres_ok_mono) auto
  have "pres_ok b i any (pbind (parseredirs f b execcmd i1) (\<lambda>ret i2. parseargs f b ret 0 i2))"
  proof (rule pres_ok_bind)
    show "pres_ok b i1 (like execcmd) (parseredirs f b execcmd i1)"
      by (rule parseredirs_ok [OF assms(1) ps(2)]) (use assms(4) ps(1) in auto)
    fix c j
    assume j: "i1 \<le> j" "j \<le> length b" "cmd_ok b c" "like execcmd c"
    have "pres_ok b j any (parseargs f b c 0 j)"
      by (rule parseargs_ok [OF assms(1) j(2) _ j(3)]) (use assms(4) ps(1) j in \<open>auto simp: like_def\<close>)
    then show "pres_ok b i any (parseargs f b c 0 j)" using ps(1) j(1) by (elim pres_ok_mono) auto
  qed
  with blk show ?thesis by (simp add: p)
qed

lemma parsers_all_ok: "0 \<notin> set b \<Longrightarrow> parsers_ok b f"
proof (induction f)
  case (Suc f)
  then show ?case
    using parseline_step parsepipe_step parseexec_step parseblock_step unfolding parsers_ok_def [of b "Suc f"] by blast
qed (simp add: parsers_ok_def)

section \<open>Strings of a command\<close>

primrec words_of :: "cmd \<Rightarrow> word_at list" where
  "words_of (EXEC ws) = ws"
| "words_of (REDIR c w mode fd) = words_of c @ [w]"
| "words_of (PIPE c d) = words_of c @ words_of d"
| "words_of (LIST c d) = words_of c @ words_of d"
| "words_of (BACK c) = words_of c"

definition end_words :: "word_at list \<Rightarrow> u8 list \<Rightarrow> u8 list" where
  "end_words ws m = fold (\<lambda>(q, eq) m. m[eq := 0]) ws m"

lemma nulterminate_words: "nulterminate c m = end_words (words_of c) m"
  by (induction c arbitrary: m) (simp_all add: end_words_def split: prod.splits)

lemma end_words_length: "length (end_words ws m) = length m"
  by (induction ws arbitrary: m) (auto simp: end_words_def)

lemma end_words_nth: "k < length m \<Longrightarrow> end_words ws m ! k = (if k \<in> snd ` set ws then 0 else m ! k)"
proof (induction ws arbitrary: m)
  case (Cons w ws)
  have "end_words (w # ws) m = end_words ws (m[snd w := 0])" by (simp add: end_words_def split_def)
  then show ?case using Cons by (simp add: nth_list_update)
qed (simp add: end_words_def)

lemma cmd_ok_words: "cmd_ok b c \<Longrightarrow> w \<in> set (words_of c) \<Longrightarrow> is_word b w"
  by (induction c) auto

lemma plain_nonzero: "0 \<notin> set b \<Longrightarrow> k < length b \<Longrightarrow> b ! k \<noteq> 0"
  by (metis nth_mem)

lemma cstr_word:
  assumes "0 \<notin> set b" and "\<forall>w \<in> set ws. is_word b w" and "(q, eq) \<in> set ws"
  shows "cstr (end_words ws (b @ [0])) q = take (eq - q) (drop q b)"
proof -
  let ?m = "end_words ws (b @ [0])"
  have w: "q < eq" "eq \<le> length b" "\<forall>k. q \<le> k \<and> k < eq \<longrightarrow> is_plain (b ! k)"
    using assms(2,3) by (auto simp: is_word_def)
  have free: "k \<notin> snd ` set ws" if "q \<le> k" "k < eq" for k
    using assms(2) w that by (auto simp: is_word_def)
  have at: "?m ! k = b ! k \<and> b ! k \<noteq> 0" if "q \<le> k" "k < eq" for k
    using that w free [OF that] plain_nonzero [OF assms(1), of k] by (simp add: end_words_nth nth_append)
  have z: "?m ! eq = 0" using assms(3) w(2) by (force simp: end_words_nth)
  have len: "length ?m = Suc (length b)" by (simp add: end_words_length)
  have "takeWhile (\<lambda>c. c \<noteq> 0) (drop q ?m) = take (eq - q) (drop q ?m)"
    by (rule takeWhile_eq_take_P_nth) (use at z len w in auto)
  also have "\<dots> = take (eq - q) (drop q b)"
    by (rule nth_equalityI) (use at len w in auto)
  finally show ?thesis by (simp add: cstr_def)
qed

text \<open>
  C9: The parser of the shell is total and safe. On every line without null bytes it returns a command or
  panics with a message, within the depth that \<open>parsecmd\<close> uses. A command it returns has fewer than
  \<open>MAXARGS\<close> arguments in each \<open>EXEC\<close>, all its words lie in the buffer and are maximal runs of characters that are
  neither white space nor symbols, and after \<open>nulterminate\<close>, which does not touch
  anything outside the line and its null byte, the C string that each pointer of the command denotes is
  exactly its word.
\<close>

theorem parsecmd_words:
  assumes "0 \<notin> set b"
  shows "parsecmd b \<noteq> None \<and>
    (\<forall>c m. parsecmd b = Some (Inr (c, m)) \<longrightarrow>
       cmd_ok b c \<and> length m = length b + 1 \<and>
       (\<forall>(q, eq) \<in> set (words_of c). is_word b (q, eq) \<and> cstr m q = take (eq - q) (drop q b)))"
proof -
  have ok: "pres_ok b 0 any (parseline (4 * length b + 4) b 0)"
    by (rule parsers_okD(1) [OF parsers_all_ok [OF assms]]) simp_all
  have tot: "parsecmd b \<noteq> None"
    using ok by (auto simp: parsecmd_def Let_def split: pres.splits prod.splits)
  have "cmd_ok b c \<and> m = nulterminate c (b @ [0])" if "parsecmd b = Some (Inr (c, m))" for c m
    using ok that by (auto simp: parsecmd_def Let_def split: pres.splits prod.splits if_splits)
  then show ?thesis
    using tot cmd_ok_words cstr_word [OF assms] by (fastforce simp: nulterminate_words end_words_length)
qed

text \<open>The line \<open>cat <f|wc\<close>.\<close>

theorem parsecmd_words_witness:
  "\<exists>m. parsecmd [99, 97, 116, 32, 60, 102, 124, 119, 99, 10] =
       Some (Inr (PIPE (REDIR (EXEC [(0, 3)]) (5, 6) 0 0) (EXEC [(7, 9)]), m)) \<and>
     cstr m 0 = [99, 97, 116] \<and> cstr m 5 = [102] \<and> cstr m 7 = [119, 99]"
proof -
  let ?b = "[99, 97, 116, 32, 60, 102, 124, 119, 99, 10] :: u8 list"
  let ?c = "PIPE (REDIR (EXEC [(0, 3)]) (5, 6) 0 0) (EXEC [(7, 9)])"
  have "parsecmd ?b = Some (Inr (?c, [99, 97, 116, 0, 60, 102, 0, 119, 99, 0, 0]))" by code_simp
  then show ?thesis using parsecmd_words [of ?b] by auto
qed

end
