(* ===== verification/Spec2Isabelle.thy ===== *)
theory Spec2Isabelle
  imports Invariant Crash Sched Pipe Asm Uprogs Grep Sh
begin

text \<open>
  A verification of the kernel of xv6 for the K230 board. The theories follow the layers of the
  program, each importing the ones it calls:

  \<^item> \<open>Prelude\<close>: integer types of \<open>kernel/types.h\<close>, the kernel monad, weakest preconditions.
  \<^item> \<open>KString\<close>: \<open>kernel/string.c\<close>. \<open>Spinlock\<close>: \<open>kernel/spinlock.c\<close>. \<open>Kalloc\<close>: \<open>kernel/kalloc.c\<close>.
  \<^item> \<open>Kstate\<close>: \<open>kernel/proc.h\<close> and the control registers. \<open>Vm\<close>: \<open>kernel/vm.c\<close>. \<open>Proc\<close>: \<open>kernel/proc.c\<close>.
  \<^item> \<open>Sleeplock\<close>: \<open>kernel/sleeplock.c\<close>. \<open>Bio\<close>: \<open>kernel/bio.c\<close> and \<open>kernel/ramdisk.c\<close>.
    \<open>Log\<close>: \<open>kernel/log.c\<close>. \<open>Fs\<close>: \<open>kernel/fs.c\<close>.
  \<^item> \<open>Console\<close>: \<open>kernel/uart.c\<close>. \<open>File\<close>: \<open>kernel/file.c\<close> and \<open>kernel/pipe.c\<close>. \<open>Exec\<close>: \<open>kernel/exec.c\<close>.
  \<^item> \<open>Syscall\<close>: \<open>kernel/syscall.c\<close>, \<open>kernel/sysproc.c\<close>, \<open>kernel/sysfile.c\<close>. \<open>Trap\<close>: \<open>kernel/trap.c\<close>,
    \<open>kernel/plic.c\<close>, \<open>kernel/timer.c\<close>, \<open>kernel/main.c\<close>, \<open>kernel/start.c\<close>.

  Not modelled: the assembly files, user programs, and the image builder.
\<close>

end
